(* ===== verification/Hidpin_Prelude.thy ===== *)
theory Hidpin_Prelude
  imports Main "HOL-Library.Word"
begin

text \<open>
  Prelude of the development: the machine integers and byte strings every component
  shares, the result type of fallible code, little-endian encoding, slices of a byte
  buffer, and decimal text. Nothing here is specific to one component.

  A Rust \<open>String\<close> is a vector of UTF-8 bytes; it is modelled as a HOL \<open>string\<close>, whose
  characters are bytes.
\<close>

unbundle bit_operations_syntax

type_synonym u8 = "8 word"
type_synonym u16 = "16 word"
type_synonym u32 = "32 word"
type_synonym u64 = "64 word"
type_synonym bytes = "u8 list"

named_theorems byte_simps \<open>reading back a byte buffer after writing slices of it\<close>
named_theorems wire_defs \<open>the layout constants of the reports\<close>

section \<open>Slices of a buffer\<close>

text \<open>
  \<open>p[at..at + xs.len()].copy_from_slice(xs)\<close>. Rust panics when the slice does not lie inside
  the buffer; every use in the sources has constant offsets inside a 63 byte buffer.
\<close>

definition put_at :: "nat \<Rightarrow> 'a list \<Rightarrow> 'a list \<Rightarrow> 'a list" where
  "put_at at xs p = take at p @ xs @ drop (at + length xs) p"

definition get_at :: "nat \<Rightarrow> nat \<Rightarrow> 'a list \<Rightarrow> 'a list" where
  "get_at at n p = take n (drop at p)"

lemma length_put_at [simp]:
  "at + length xs \<le> length p \<Longrightarrow> length (put_at at xs p) = length p"
  by (simp add: put_at_def)

lemma nth_put_at [byte_simps]:
  assumes "at + length xs \<le> length p"
  shows "put_at at xs p ! i =
    (if at \<le> i \<and> i < at + length xs then xs ! (i - at) else p ! i)"
  using assms by (auto simp: put_at_def nth_append)

lemma length_get_at [simp]: "at + n \<le> length p \<Longrightarrow> length (get_at at n p) = n"
  by (simp add: get_at_def)

lemma nth_get_at [byte_simps]: "i < n \<Longrightarrow> at + n \<le> length p \<Longrightarrow> get_at at n p ! i = p ! (at + i)"
  by (simp add: get_at_def)

lemma get_at_put_at [byte_simps]:
  "at + length xs \<le> length p \<Longrightarrow> n = length xs \<Longrightarrow> get_at at n (put_at at xs p) = xs"
  by (rule nth_equalityI) (auto simp: nth_put_at nth_get_at)

section \<open>Little-endian integers\<close>

text \<open>\<open>to_le_bytes\<close> and \<open>from_le_bytes\<close> of the unsigned integers, low byte first.\<close>

primrec to_le :: "nat \<Rightarrow> 'a::len word \<Rightarrow> bytes" where
  "to_le 0 w = []"
| "to_le (Suc n) w = ucast w # to_le n (drop_bit 8 w)"

primrec of_le :: "bytes \<Rightarrow> 'a::len word" where
  "of_le [] = 0"
| "of_le (b # bs) = ucast b OR push_bit 8 (of_le bs)"

lemma length_to_le [simp]: "length (to_le n w) = n"
  by (induction n arbitrary: w) auto

lemma of_le_to_le_take: "(of_le (to_le n w) :: 'a::len word) = take_bit (8 * n) (w :: 'a word)"
proof (induction n arbitrary: w)
  case 0
  then show ?case by simp
next
  case (Suc n)
  show ?case
  proof (rule bit_word_eqI)
    fix k
    assume k: "k < LENGTH('a)"
    show "bit (of_le (to_le (Suc n) w) :: 'a word) k = bit (take_bit (8 * Suc n) w) k"
      using k by (cases "k < 8")
        (auto simp: Suc bit_or_iff bit_push_bit_iff bit_take_bit_iff bit_drop_bit_eq
          bit_unsigned_iff)
  qed
qed

lemma of_le_to_le [byte_simps]:
  "LENGTH('a::len) \<le> 8 * n \<Longrightarrow> (of_le (to_le n w) :: 'a word) = (w :: 'a word)"
  by (simp add: of_le_to_le_take take_bit_word_eq_self)

lemma to_le_of_le [byte_simps]:
  "8 * length bs \<le> LENGTH('a::len) \<Longrightarrow> n = length bs \<Longrightarrow> to_le n (of_le bs :: 'a word) = bs"
proof (induction bs arbitrary: n)
  case Nil
  then show ?case by simp
next
  case (Cons b bs)
  have hd: "(ucast (ucast b OR push_bit 8 (of_le bs :: 'a word)) :: u8) = b"
    using Cons.prems
    by (intro bit_word_eqI) (auto simp: bit_unsigned_iff bit_or_iff bit_push_bit_iff)
  have small: "k < LENGTH('a) - 8" if "bit (of_le bs :: 'a word) k" for k
  proof -
    have le: "LENGTH('a) \<ge> 8 + 8 * length bs" using Cons.prems by simp
    have "(of_le bs :: 'a word) = of_le (to_le (length bs) (of_le bs :: 'a word))"
      using Cons by simp
    then have "(of_le bs :: 'a word) = take_bit (8 * length bs) (of_le bs)"
      by (simp only: of_le_to_le_take)
    then have "bit (take_bit (8 * length bs) (of_le bs :: 'a word)) k" using that by simp
    then have "k < 8 * length bs" by (simp add: bit_take_bit_iff)
    then show ?thesis using le by simp
  qed
  have tl: "drop_bit 8 (ucast b OR push_bit 8 (of_le bs) :: 'a word) = of_le bs"
    by (intro bit_word_eqI)
      (auto simp: bit_drop_bit_eq bit_unsigned_iff bit_or_iff bit_push_bit_iff
        dest: small bit_imp_le_length)
  show ?case using Cons hd tl by simp
qed

section \<open>Masks\<close>

text \<open>
  \<open>mask >> n & 1 != 0\<close>. The shift amount is taken modulo the width, as a build without
  overflow checks does; every call inside the library has \<open>n\<close> below 32.
\<close>

definition mask_bit :: "u32 \<Rightarrow> u8 \<Rightarrow> bool" where
  "mask_bit w n \<longleftrightarrow> drop_bit (unat n mod 32) w AND 1 \<noteq> 0"

lemma drop_bit_and_1: "(drop_bit n (w :: 'a::len word) AND 1 \<noteq> 0) = bit w n"
proof -
  have "drop_bit n w AND 1 = of_bool (odd (drop_bit n w))" by (simp add: and_one_eq mod_2_eq_odd)
  then show ?thesis by (auto simp: bit_iff_odd_drop_bit)
qed

lemma mask_bit_bit [simp]: "unat n < 32 \<Longrightarrow> mask_bit w n = bit w (unat n)"
  by (simp add: mask_bit_def drop_bit_and_1)

section \<open>Decimal text\<close>

text \<open>The decimal text of an unsigned integer, as \<open>format!("{n}")\<close> writes it.\<close>

definition digit_char :: "nat \<Rightarrow> char" where
  "digit_char d = char_of (48 + d)"

fun show_nat :: "nat \<Rightarrow> string" where
  "show_nat n =
     (if n < 10 then [digit_char n] else show_nat (n div 10) @ [digit_char (n mod 10)])"

declare show_nat.simps [simp del]

definition digit_val :: "char \<Rightarrow> nat" where
  "digit_val c = of_char c - 48"

definition read_nat :: "string \<Rightarrow> nat" where
  "read_nat s = foldl (\<lambda>acc c. 10 * acc + digit_val c) 0 s"

lemma digit_val_char [simp]: "d < 10 \<Longrightarrow> digit_val (digit_char d) = d"
  by (simp add: digit_val_def digit_char_def)

lemma read_show_nat [simp]: "read_nat (show_nat n) = n"
proof (induction n rule: show_nat.induct)
  case (1 n)
  then show ?case
    by (subst show_nat.simps) (auto simp: read_nat_def)
qed

lemma show_nat_inject [simp]: "show_nat m = show_nat n \<longleftrightarrow> m = n"
  by (metis read_show_nat)

definition show_word :: "'a::len word \<Rightarrow> string" where
  "show_word w = show_nat (unat w)"

lemma show_word_inject [simp]: "show_word v = show_word w \<longleftrightarrow> v = w"
  by (simp add: show_word_def word_unat_eq_iff)

definition join :: "string \<Rightarrow> string list \<Rightarrow> string" where
  "join sep ss = concat (case ss of [] \<Rightarrow> [] | t # ts \<Rightarrow> t # map (\<lambda>u. sep @ u) ts)"

end
