(* ===== verification/Protocol_Types.thy ===== *)
theory Protocol_Types
  imports Hidpin_Prelude
begin

text \<open>
  The constants, flag sets and enumerations of the wire format: the first third of
  \<open>rust/src/protocol.rs\<close>. The newtypes over \<open>u8\<close> (\<open>Reason\<close>, \<open>StatusFlags\<close>, \<open>Quirks\<close>,
  \<open>ResultCode\<close>, \<open>Board\<close>, \<open>Chip\<close>) are type synonyms of their representation, since unknown
  values are kept; \<open>PinMode\<close>, which has no unknown values, is a datatype.
\<close>

section \<open>Constants\<close>

definition PROTOCOL_VERSION :: u8 where [wire_defs]: "PROTOCOL_VERSION = 1"

definition REPORT_ID_STATUS :: u8 where [wire_defs]: "REPORT_ID_STATUS = 0x01"
definition REPORT_ID_DEVICE_INFO :: u8 where [wire_defs]: "REPORT_ID_DEVICE_INFO = 0x02"
definition REPORT_ID_PIN_CONFIG :: u8 where [wire_defs]: "REPORT_ID_PIN_CONFIG = 0x03"
definition REPORT_ID_OUTPUT :: u8 where [wire_defs]: "REPORT_ID_OUTPUT = 0x04"

definition REPORT_PAYLOAD_LEN :: nat where [wire_defs]: "REPORT_PAYLOAD_LEN = 63"
definition OUTPUT_PAYLOAD_LEN :: nat where [wire_defs]: "OUTPUT_PAYLOAD_LEN = 8"
definition REPORT_LEN :: nat where "REPORT_LEN = 1 + REPORT_PAYLOAD_LEN"

definition GPIO_COUNT :: nat where [wire_defs]: "GPIO_COUNT = 30"
definition EVENTS_PER_REPORT :: nat where [wire_defs]: "EVENTS_PER_REPORT = 7"
definition DEFAULT_DEBOUNCE_MS :: u8 where [wire_defs]: "DEFAULT_DEBOUNCE_MS = 20"
definition RESULT_GPIO_NONE :: u8 where [wire_defs]: "RESULT_GPIO_NONE = 0xFF"
definition SATURATED_AGE_US :: u32 where [wire_defs]: "SATURATED_AGE_US = 0xFFFFFFFF"
definition SDK_BOARD_LEN :: nat where [wire_defs]: "SDK_BOARD_LEN = 40"

definition STATUS_EVENTS_OFFSET :: nat where [wire_defs]: "STATUS_EVENTS_OFFSET = 28"
definition EVENT_LEN :: nat where [wire_defs]: "EVENT_LEN = 5"
definition SDK_BOARD_OFFSET :: nat where [wire_defs]: "SDK_BOARD_OFFSET = 17"
definition PIN_CONFIG_OFFSET :: nat where [wire_defs]: "PIN_CONFIG_OFFSET = 3"

definition ALL_GPIOS :: u32 where "ALL_GPIOS = push_bit GPIO_COUNT 1 - 1"

lemma REPORT_LEN_eq [wire_defs]: "REPORT_LEN = 64"
  by (simp add: REPORT_LEN_def REPORT_PAYLOAD_LEN_def)

lemma ALL_GPIOS_eq [wire_defs]: "ALL_GPIOS = 0x3FFFFFFF"
  by (simp add: ALL_GPIOS_def GPIO_COUNT_def push_bit_eq_mult)

section \<open>Flag sets\<close>

text \<open>
  The macro \<open>flags!\<close> makes three types with the same operations; they are modelled once
  over \<open>u8\<close>, and \<open>names\<close> takes the table of the type's known bits.
\<close>

type_synonym reason = u8
type_synonym status_flags = u8
type_synonym quirks = u8

definition flags_contains :: "u8 \<Rightarrow> u8 \<Rightarrow> bool" where
  "flags_contains self other \<longleftrightarrow> other \<noteq> 0 \<and> self AND other = other"

fun flags_names :: "(string \<times> u8) list \<Rightarrow> u8 \<Rightarrow> string list" where
  "flags_names [] self = []"
| "flags_names ((name, b) # rest) self =
     (if self AND b \<noteq> 0 then name # flags_names rest self else flags_names rest self)"

definition flags_display :: "(string \<times> u8) list \<Rightarrow> u8 \<Rightarrow> string" where
  "flags_display table self =
     (let names = flags_names table self in if names = [] then ''0'' else join ''|'' names)"

text \<open>\<open>a | b\<close>, and the text for debugging, which names the type.\<close>

definition flags_or :: "u8 \<Rightarrow> u8 \<Rightarrow> u8" where
  "flags_or self other = self OR other"

definition flags_debug :: "string \<Rightarrow> (string \<times> u8) list \<Rightarrow> u8 \<Rightarrow> string" where
  "flags_debug name table self = name @ ''('' @ flags_display table self @ '')''"

lemma flags_contains_or:
  "flags_contains (flags_or a b) a \<longleftrightarrow> a \<noteq> 0" "flags_contains (flags_or a b) b \<longleftrightarrow> b \<noteq> 0"
  by (auto simp: flags_contains_def flags_or_def bit_simps intro!: bit_word_eqI)

definition LEVEL_CHANGED :: reason where [wire_defs]: "LEVEL_CHANGED = 0x01"
definition OUTPUT_APPLIED :: reason where [wire_defs]: "OUTPUT_APPLIED = 0x02"
definition CONFIG_CHANGED :: reason where [wire_defs]: "CONFIG_CHANGED = 0x04"
definition PERIODIC :: reason where [wire_defs]: "PERIODIC = 0x08"
definition OUTPUT_RESET :: reason where [wire_defs]: "OUTPUT_RESET = 0x10"
definition HOST_REQUEST :: reason where [wire_defs]: "HOST_REQUEST = 0x80"

definition Reason_flags :: "(string \<times> u8) list" where
  "Reason_flags =
    [(''LEVEL_CHANGED'', 0x01), (''OUTPUT_APPLIED'', 0x02), (''CONFIG_CHANGED'', 0x04),
     (''PERIODIC'', 0x08), (''OUTPUT_RESET'', 0x10), (''HOST_REQUEST'', 0x80)]"

definition OVERFLOW :: status_flags where [wire_defs]: "OVERFLOW = 0x01"
definition MORE_EVENTS :: status_flags where [wire_defs]: "MORE_EVENTS = 0x02"

definition StatusFlags_flags :: "(string \<times> u8) list" where
  "StatusFlags_flags = [(''OVERFLOW'', 0x01), (''MORE_EVENTS'', 0x02)]"

definition PULL_DOWN_UNRELIABLE :: quirks where [wire_defs]: "PULL_DOWN_UNRELIABLE = 0x01"

definition Quirks_flags :: "(string \<times> u8) list" where
  "Quirks_flags = [(''PULL_DOWN_UNRELIABLE'', 0x01)]"

lemma and_exp_word: "(w :: 'a::len word) AND 2 ^ n = (if bit w n then 2 ^ n else 0)"
  by (rule bit_word_eqI) (auto simp: bit_and_iff bit_exp_iff)

lemma flags_contains_bit: "n < 8 \<Longrightarrow> flags_contains self (2 ^ n) \<longleftrightarrow> bit self n"
  by (auto simp: flags_contains_def and_exp_word)

lemma contains_reason_bits:
  "flags_contains r CONFIG_CHANGED \<longleftrightarrow> bit r 2"
  "flags_contains r OUTPUT_RESET \<longleftrightarrow> bit r 4"
  "flags_contains r HOST_REQUEST \<longleftrightarrow> bit r 7"
  "flags_contains r MORE_EVENTS \<longleftrightarrow> bit r 1"
  "flags_contains r OVERFLOW \<longleftrightarrow> bit r 0"
  using flags_contains_bit [of 2 r] flags_contains_bit [of 4 r] flags_contains_bit [of 7 r]
    flags_contains_bit [of 1 r] flags_contains_bit [of 0 r]
  by (simp_all add: wire_defs)

text \<open>A name is printed exactly when its bit is set, in the order of the table.\<close>

lemma set_flags_names:
  "set (flags_names table self) = {name. \<exists>b. (name, b) \<in> set table \<and> self AND b \<noteq> 0}"
  by (induction table) (auto split: if_splits)

section \<open>Enumerations\<close>

datatype pin_mode = Unused | Input | PullUp | PullDown | Output

definition mode_u8 :: "pin_mode \<Rightarrow> u8" where
  "mode_u8 m = (case m of Unused \<Rightarrow> 0 | Input \<Rightarrow> 1 | PullUp \<Rightarrow> 2 | PullDown \<Rightarrow> 3 | Output \<Rightarrow> 4)"

definition is_input :: "pin_mode \<Rightarrow> bool" where
  "is_input m \<longleftrightarrow> (case m of Input \<Rightarrow> True | PullUp \<Rightarrow> True | PullDown \<Rightarrow> True | _ \<Rightarrow> False)"

definition mode_name :: "pin_mode \<Rightarrow> string" where
  "mode_name m = (case m of Unused \<Rightarrow> ''Unused'' | Input \<Rightarrow> ''Input'' | PullUp \<Rightarrow> ''PullUp''
     | PullDown \<Rightarrow> ''PullDown'' | Output \<Rightarrow> ''Output'')"

text \<open>The order of the wire values makes \<open>PinMode\<close> a linear order.\<close>

lemma mode_u8_inject [simp]: "mode_u8 m = mode_u8 n \<longleftrightarrow> m = n"
  by (cases m; cases n) (simp_all add: mode_u8_def)

instantiation pin_mode :: linorder
begin

definition less_eq_pin_mode :: "pin_mode \<Rightarrow> pin_mode \<Rightarrow> bool" where
  "less_eq_pin_mode m n \<longleftrightarrow> mode_u8 m \<le> mode_u8 n"

definition less_pin_mode :: "pin_mode \<Rightarrow> pin_mode \<Rightarrow> bool" where
  "less_pin_mode m n \<longleftrightarrow> mode_u8 m < mode_u8 n"

instance
  by standard (auto simp: less_eq_pin_mode_def less_pin_mode_def less_le)

end

type_synonym result_code = u8

definition RESULT_OK :: result_code where [wire_defs]: "RESULT_OK = 0"
definition BAD_LENGTH :: result_code where [wire_defs]: "BAD_LENGTH = 1"
definition BAD_MODE :: result_code where [wire_defs]: "BAD_MODE = 2"
definition UNAVAILABLE_GPIO :: result_code where [wire_defs]: "UNAVAILABLE_GPIO = 3"
definition UNUSED_WITH_PARAM :: result_code where [wire_defs]: "UNUSED_WITH_PARAM = 4"
definition BAD_OUTPUT_LEVEL :: result_code where [wire_defs]: "BAD_OUTPUT_LEVEL = 5"

definition result_message :: "result_code \<Rightarrow> string" where
  "result_message r =
    (if r = RESULT_OK then ''applied''
     else if r = BAD_LENGTH then ''the payload is not 63 bytes long''
     else if r = BAD_MODE then ''mode is outside 0-4''
     else if r = UNAVAILABLE_GPIO then ''the pin is not an available GPIO''
     else if r = UNUSED_WITH_PARAM then ''an unused pin was given a parameter''
     else if r = BAD_OUTPUT_LEVEL then ''the initial output level is neither 0 nor 1''
     else ''result '' @ show_word r)"

definition result_display :: "result_code \<Rightarrow> string" where
  "result_display r = show_word r"

type_synonym board = u8

definition OTHER_BOARD :: board where [wire_defs]: "OTHER_BOARD = 0"
definition PICO :: board where [wire_defs]: "PICO = 1"
definition QTPY_RP2040 :: board where [wire_defs]: "QTPY_RP2040 = 2"
definition PICO2 :: board where [wire_defs]: "PICO2 = 3"

definition board_name :: "board \<Rightarrow> string \<Rightarrow> string" where
  "board_name b sdk =
    (if b = PICO then ''Raspberry Pi Pico''
     else if b = QTPY_RP2040 then ''Adafruit QT Py RP2040''
     else if b = PICO2 then ''Raspberry Pi Pico 2''
     else if sdk \<noteq> [] then sdk
     else if b = OTHER_BOARD then ''other board''
     else ''unknown board '' @ show_word b)"

type_synonym chip = u8

definition RP2040 :: chip where [wire_defs]: "RP2040 = 1"
definition RP2350A :: chip where [wire_defs]: "RP2350A = 2"

definition chip_name :: "chip \<Rightarrow> string" where
  "chip_name c =
    (if c = 0 then ''not reported''
     else if c = RP2040 then ''RP2040''
     else if c = RP2350A then ''RP2350A''
     else ''unknown chip '' @ show_word c)"

section \<open>Masks and GPIO numbers\<close>

definition gpio_range :: "u8 list" where
  "gpio_range = map word_of_nat [0..<GPIO_COUNT]"

definition mask_to_gpios :: "u32 \<Rightarrow> u8 list" where
  "mask_to_gpios m = filter (\<lambda>gpio. mask_bit m gpio) gpio_range"

lemma gpio_range_unat: "map unat gpio_range = [0..<30]"
proof -
  have "\<And>n. n < 30 \<Longrightarrow> unat (word_of_nat n :: u8) = n"
    by (simp add: unat_of_nat)
  then show ?thesis
    unfolding gpio_range_def GPIO_COUNT_def map_map by (intro map_idI) auto
qed

lemma set_gpio_range: "g \<in> set gpio_range \<longleftrightarrow> unat g < 30"
proof
  assume "g \<in> set gpio_range"
  then have "unat g \<in> set (map unat gpio_range)" by simp
  then show "unat g < 30" unfolding gpio_range_unat by simp
next
  assume "unat g < 30"
  then have "unat g \<in> set [0..<30]" by simp
  then have "word_of_nat (unat g) \<in> set gpio_range"
    unfolding gpio_range_def GPIO_COUNT_def set_map by (rule imageI)
  then show "g \<in> set gpio_range" by simp
qed

lemma sorted_gpio_range: "sorted_wrt (<) gpio_range"
proof -
  have "sorted_wrt (<) (map unat gpio_range)" unfolding gpio_range_unat by simp
  moreover have "(<) = (\<lambda>x y :: u8. unat x < unat y)"
    by (intro ext) (simp add: word_less_nat_alt)
  ultimately show ?thesis by (simp add: sorted_wrt_map)
qed

lemma set_mask_to_gpios: "g \<in> set (mask_to_gpios m) \<longleftrightarrow> unat g < 30 \<and> bit m (unat g)"
  by (auto simp: mask_to_gpios_def set_gpio_range)

lemma sorted_mask_to_gpios: "sorted_wrt (<) (mask_to_gpios m)"
  unfolding mask_to_gpios_def by (rule sorted_wrt_filter [OF sorted_gpio_range])

lemma distinct_mask_to_gpios: "distinct (mask_to_gpios m)"
  using sorted_mask_to_gpios [of m] by (simp add: strict_sorted_iff)

end
