(* ===== verification/Errors.thy ===== *)
theory Errors
  imports Protocol_Types
begin

text \<open>
  The errors of the library, \<open>rust/src/error.rs\<close>: one datatype with a constructor per
  variant, the result type \<open>Result<T>\<close> as a sum whose left side is the error, and the text
  \<open>Display\<close> gives each error. The watcher compares that text to tell causes apart.

  An \<open>io::Error\<close> is its kind and the text the operating system or the caller gave it.
\<close>

datatype io_kind = NotConnected | PermissionDenied | NotFound | InvalidInput | OtherKind string

datatype io_error = Io_Error (io_kind: io_kind) (io_text: string)

type_synonym 'a io_result = "io_error + 'a"

datatype error =
    DeviceNotFound "string option"
  | SeveralDevices "string list"
  | ProtocolVersion u8
  | PinConfigRejected result_code u8 bool
  | PinConfigConflict u8 u8
  | PinConfigMismatch
  | UnsupportedPlatform
  | DeviceDisconnected
  | WatcherClosed
  | Malformed string
  | InvalidArgument string
  | Open string io_error
  | Io io_error

type_synonym 'a result = "error + 'a"

text \<open>The operator \<open>?\<close>: an error returns at once, a value goes on.\<close>

definition and_then :: "'e + 'a \<Rightarrow> ('a \<Rightarrow> 'e + 'b) \<Rightarrow> 'e + 'b" where
  "and_then m f = (case m of Inl e \<Rightarrow> Inl e | Inr x \<Rightarrow> f x)"

lemma and_then_simps [simp]: "and_then (Inl e) f = Inl e" "and_then (Inr x) f = f x"
  by (simp_all add: and_then_def)

lemma and_then_Inr_conv: "and_then m f = Inr y \<longleftrightarrow> (\<exists>x. m = Inr x \<and> f x = Inr y)"
  by (cases m) auto

definition map_err :: "('e \<Rightarrow> 'f) \<Rightarrow> 'e + 'a \<Rightarrow> 'f + 'a" where
  "map_err f m = (case m of Inl e \<Rightarrow> Inl (f e) | Inr x \<Rightarrow> Inr x)"

lemma map_err_simps [simp]: "map_err f (Inl e) = Inl (f e)" "map_err f (Inr x) = Inr x"
  by (simp_all add: map_err_def)

lemma map_err_Inr [simp]: "map_err f m = Inr x \<longleftrightarrow> m = Inr x"
  by (cases m) auto

definition udev_hint :: string where
  "udev_hint = ''. Install the udev rule and replug the board: sudo cp udev/60-hidpin.rules '' @
     ''/etc/udev/rules.d/ && sudo udevadm control --reload-rules && sudo udevadm trigger''"

fun error_display :: "error \<Rightarrow> string" where
  "error_display (DeviceNotFound None) = ''no hidpin device found''"
| "error_display (DeviceNotFound (Some serial)) =
     ''no hidpin device found: no device with serial number '' @ serial"
| "error_display (SeveralDevices serials) =
     ''several devices are connected; pick one with --serial: '' @ join '', '' serials"
| "error_display (ProtocolVersion v) =
     ''device speaks protocol version '' @ show_word v @ '', this library speaks '' @
     show_word PROTOCOL_VERSION"
| "error_display (PinConfigRejected result gpio local) =
     (if local then ''the pin configuration is invalid (nothing was sent to the device): ''
      else ''the device rejected the pin configuration: '') @
     result_message result @
     (if gpio \<noteq> RESULT_GPIO_NONE then '' (GPIO'' @ show_word gpio @ '')'' else [])"
| "error_display (PinConfigConflict expected seen) =
     ''another process changed the pin configuration (sent request_id '' @ show_word expected @
     '', read back '' @ show_word seen @ '')''"
| "error_display PinConfigMismatch =
     ''the configuration the device applied differs from the one that was sent''"
| "error_display UnsupportedPlatform = ''hidpin supports Linux (hidraw) only''"
| "error_display DeviceDisconnected = ''the hidpin device is not connected''"
| "error_display WatcherClosed = ''the watcher has stopped''"
| "error_display (Malformed message) = message"
| "error_display (InvalidArgument message) = message"
| "error_display (Open path source) =
     ''cannot open '' @ path @ '' ('' @ io_text source @ '')'' @
     (if io_kind source = PermissionDenied then udev_hint else [])"
| "error_display (Io source) = io_text source"

fun error_source :: "error \<Rightarrow> io_error option" where
  "error_source (Open _ source) = Some source"
| "error_source (Io source) = Some source"
| "error_source _ = None"

text \<open>The configuration a device refused and the one refused before sending read differently.\<close>

lemma rejected_local_display:
  "error_display (PinConfigRejected r g True) \<noteq> error_display (PinConfigRejected r g False)"
  by simp

definition is_rejected :: "error \<Rightarrow> bool" where
  "is_rejected e = (case e of PinConfigRejected _ _ _ \<Rightarrow> True | _ \<Rightarrow> False)"

definition is_conflict :: "error \<Rightarrow> bool" where
  "is_conflict e = (case e of PinConfigConflict _ _ \<Rightarrow> True | _ \<Rightarrow> False)"

lemma is_rejected_simps [simp]: "is_rejected (PinConfigRejected r g l)"
  and is_conflict_simps [simp]: "is_conflict (PinConfigConflict a b)"
  by (simp_all add: is_rejected_def is_conflict_def)

text \<open>An \<open>io::Error\<close> that \<open>?\<close> passes on.\<close>

definition error_from_io :: "io_error \<Rightarrow> error" where
  "error_from_io e = Io e"

end
