(* ===== verification/Codec.thy ===== *)
theory Codec
  imports Errors
begin

text \<open>
  The contract of a report codec, as a locale: an encoder and a decoder of fixed width that
  are inverse on the values that fit the format and on the payloads written as the format
  prescribes. The four reports of the protocol interpret it, each in its own theory.
\<close>

locale codec =
  fixes enc :: "'a \<Rightarrow> bytes result"
    and dec :: "bytes \<Rightarrow> 'a result"
    and fits :: "'a \<Rightarrow> bool"
    and canonical :: "bytes \<Rightarrow> bool"
    and width :: nat
  assumes dec_enc: "fits x \<Longrightarrow> \<exists>p. enc x = Inr p \<and> dec p = Inr x"
    and enc_dec: "canonical p \<Longrightarrow> \<exists>x. dec p = Inr x \<and> enc x = Inr p"
    and enc_width: "enc x = Inr p \<Longrightarrow> length p = width"
    and dec_width: "dec p = Inr x \<Longrightarrow> length p = width"
begin

lemma enc_inject: "fits x \<Longrightarrow> fits y \<Longrightarrow> enc x = enc y \<Longrightarrow> x = y"
  using dec_enc by (metis sum.inject(2))

lemma dec_inject: "canonical p \<Longrightarrow> canonical q \<Longrightarrow> dec p = dec q \<Longrightarrow> p = q"
  using enc_dec by (metis sum.inject(2))

lemma dec_wrong_length: "length p \<noteq> width \<Longrightarrow> \<exists>e. dec p = Inl e"
  using dec_width by (cases "dec p") auto

lemma dec_enc_Inr: "fits x \<Longrightarrow> enc x = Inr p \<Longrightarrow> dec p = Inr x"
  using dec_enc by (metis sum.inject(2))

lemma enc_dec_Inr: "canonical p \<Longrightarrow> dec p = Inr x \<Longrightarrow> enc x = Inr p"
  using enc_dec by (metis sum.inject(2))

end

end
