(* ===== verification/Protocol_Status.thy ===== *)
theory Protocol_Status
  imports Codec
begin

text \<open>
  The status report (report ID 1) of \<open>rust/src/protocol.rs\<close>: edge events, the report, its
  encoder and decoder, and the theorems that the two are inverse on the reports and on the
  payloads the format allows.
\<close>

section \<open>Reading integers\<close>

definition u16_at :: "bytes \<Rightarrow> nat \<Rightarrow> u16" where
  "u16_at p at = of_le [p ! at, p ! (at + 1)]"

definition u32_at :: "bytes \<Rightarrow> nat \<Rightarrow> u32" where
  "u32_at p at = of_le [p ! at, p ! (at + 1), p ! (at + 2), p ! (at + 3)]"

definition u64_at :: "bytes \<Rightarrow> nat \<Rightarrow> u64" where
  "u64_at p at = of_le (put_at 0 (get_at at 8 p) (replicate 8 0))"

lemma get_at_2: "at + 2 \<le> length p \<Longrightarrow> get_at at 2 p = [p ! at, p ! (at + 1)]"
  by (rule nth_equalityI) (auto simp: nth_get_at less_Suc_eq numeral_2_eq_2)

lemma get_at_4:
  "at + 4 \<le> length p \<Longrightarrow> get_at at 4 p = [p ! at, p ! (at + 1), p ! (at + 2), p ! (at + 3)]"
  by (rule nth_equalityI) (auto simp: nth_get_at less_Suc_eq eval_nat_numeral)

lemma u16_at_get: "at + 2 \<le> length p \<Longrightarrow> u16_at p at = of_le (get_at at 2 p)"
  by (simp add: u16_at_def get_at_2)

lemma u32_at_get: "at + 4 \<le> length p \<Longrightarrow> u32_at p at = of_le (get_at at 4 p)"
  by (simp add: u32_at_def get_at_4)

lemma u64_at_get: "at + 8 \<le> length p \<Longrightarrow> u64_at p at = of_le (get_at at 8 p)"
  by (simp add: u64_at_def put_at_def)

lemmas int_at_get = u16_at_get u32_at_get u64_at_get

section \<open>Edge events and status reports\<close>

record edge_event =
  ev_gpio :: u8
  ev_level :: bool
  age_us :: u32

definition saturated :: "edge_event \<Rightarrow> bool" where
  "saturated e \<longleftrightarrow> age_us e = SATURATED_AGE_US"

definition start_us :: "edge_event \<Rightarrow> u64 \<Rightarrow> u64 option" where
  "start_us e report_timestamp_us =
     (if saturated e then None else Some (report_timestamp_us - ucast (age_us e)))"

record status_report =
  seq :: u16
  sr_reason :: reason
  sr_flags :: status_flags
  monitored :: u32
  outputs :: u32
  levels :: u32
  timestamp_us :: u64
  events :: "edge_event list"

definition overflow :: "status_report \<Rightarrow> bool" where
  "overflow r \<longleftrightarrow> flags_contains (sr_flags r) OVERFLOW"

definition more_events :: "status_report \<Rightarrow> bool" where
  "more_events r \<longleftrightarrow> flags_contains (sr_flags r) MORE_EVENTS"

definition sr_level :: "status_report \<Rightarrow> u8 \<Rightarrow> bool" where
  "sr_level r gpio \<longleftrightarrow> mask_bit (levels r) gpio"

definition sr_is_monitored :: "status_report \<Rightarrow> u8 \<Rightarrow> bool" where
  "sr_is_monitored r gpio \<longleftrightarrow> mask_bit (monitored r) gpio"

definition sr_is_output :: "status_report \<Rightarrow> u8 \<Rightarrow> bool" where
  "sr_is_output r gpio \<longleftrightarrow> mask_bit (outputs r) gpio"

section \<open>Encoding\<close>

definition too_many_events :: error where
  "too_many_events = InvalidArgument
     (''at most '' @ show_nat EVENTS_PER_REPORT @ '' events fit in one report'')"

definition put_event :: "nat \<Rightarrow> edge_event \<Rightarrow> bytes \<Rightarrow> bytes" where
  "put_event i event p =
     (let at = STATUS_EVENTS_OFFSET + EVENT_LEN * i;
          p = p[at := (ev_gpio event AND 0x1F) OR (if ev_level event then 0x80 else 0)]
      in put_at (at + 1) (to_le 4 (age_us event)) p)"

fun put_events :: "nat \<Rightarrow> edge_event list \<Rightarrow> bytes \<Rightarrow> bytes" where
  "put_events i [] p = p"
| "put_events i (event # rest) p = put_events (Suc i) rest (put_event i event p)"

definition status_header :: "status_report \<Rightarrow> bytes" where
  "status_header r =
     (let p = replicate REPORT_PAYLOAD_LEN 0;
          p = put_at 0 (to_le 2 (seq r)) p;
          p = p[2 := sr_reason r];
          p = p[3 := sr_flags r];
          p = p[4 := word_of_nat (length (events r))];
          p = put_at 8 (to_le 4 (monitored r)) p;
          p = put_at 12 (to_le 4 (outputs r)) p;
          p = put_at 16 (to_le 4 (levels r)) p
      in put_at 20 (to_le 8 (timestamp_us r)) p)"

definition encode_status :: "status_report \<Rightarrow> bytes result" where
  "encode_status r =
     (if length (events r) > EVENTS_PER_REPORT then Inl too_many_events
      else Inr (put_events 0 (events r) (status_header r)))"

section \<open>Decoding\<close>

definition bad_length :: "string \<Rightarrow> nat \<Rightarrow> nat \<Rightarrow> error" where
  "bad_length what want got = Malformed
     (what @ '' payload must be '' @ show_nat want @ '' bytes, got '' @ show_nat got)"

definition decode_event :: "bytes \<Rightarrow> nat \<Rightarrow> edge_event" where
  "decode_event p i =
     (let at = STATUS_EVENTS_OFFSET + EVENT_LEN * i
      in \<lparr>ev_gpio = p ! at AND 0x1F, ev_level = (p ! at AND 0x80 \<noteq> 0), age_us = u32_at p (at + 1)\<rparr>)"

definition decode_status :: "bytes \<Rightarrow> status_report result" where
  "decode_status p =
     (if length p \<noteq> REPORT_PAYLOAD_LEN then Inl (bad_length ''status'' REPORT_PAYLOAD_LEN (length p))
      else let count = unat (p ! 4) in
        if count > EVENTS_PER_REPORT
        then Inl (Malformed (''event_count '' @ show_nat count @ '' exceeds '' @ show_nat EVENTS_PER_REPORT))
        else Inr \<lparr>seq = u16_at p 0, sr_reason = p ! 2, sr_flags = p ! 3,
               monitored = u32_at p 8, outputs = u32_at p 12, levels = u32_at p 16,
               timestamp_us = u64_at p 20, events = map (decode_event p) [0..<count]\<rparr>)"

section \<open>The encoder and the decoder are inverse\<close>

lemma length_put_event [simp]: "length p = 63 \<Longrightarrow> i < 7 \<Longrightarrow> length (put_event i e p) = 63"
  by (simp add: put_event_def Let_def wire_defs)

lemma length_put_events [simp]:
  "length p = 63 \<Longrightarrow> i + length es \<le> 7 \<Longrightarrow> length (put_events i es p) = 63"
  by (induction es arbitrary: i p) auto

lemma length_status_header [simp]: "length (status_header r) = 63"
  by (simp add: status_header_def Let_def wire_defs)

lemma nth_put_event:
  assumes "length p = 63" "i < 7"
  shows "put_event i e p ! k =
    (if k = 28 + 5 * i then (ev_gpio e AND 0x1F) OR (if ev_level e then 0x80 else 0)
     else if 28 + 5 * i < k \<and> k < 28 + 5 * Suc i then to_le 4 (age_us e) ! (k - (29 + 5 * i))
     else p ! k)"
  using assms by (auto simp: put_event_def Let_def wire_defs nth_put_at nth_list_update)

lemma nth_put_events_outside:
  assumes "length p = 63" "i + length es \<le> 7" "k < 28 + 5 * i \<or> 28 + 5 * (i + length es) \<le> k"
  shows "put_events i es p ! k = p ! k"
  using assms
proof (induction es arbitrary: i p)
  case Nil
  then show ?case by simp
next
  case (Cons e es)
  then have "put_events (Suc i) es (put_event i e p) ! k = put_event i e p ! k"
    by (intro Cons.IH) auto
  with Cons.prems show ?case by (auto simp: nth_put_event)
qed

lemma nth_to_le_4: "[to_le 4 w ! 0, to_le 4 w ! 1, to_le 4 w ! 2, to_le 4 w ! 3] = to_le 4 w"
  by (simp add: eval_nat_numeral)

text \<open>The event byte keeps the five bits of a GPIO number and the level apart.\<close>

lemma event_byte:
  fixes g :: u8
  assumes "unat g < 32"
  shows "((g AND 0x1F) OR (if l then 0x80 else 0)) AND 0x1F = g"
    "((g AND 0x1F) OR (if l then 0x80 else 0)) AND 0x80 \<noteq> 0 \<longleftrightarrow> l"
proof -
  have mask: "(0x1F :: u8) = mask 5" by (simp add: mask_eq_exp_minus_1)
  have "unat (take_bit 5 g) = unat g"
    using assms by (simp add: unsigned_take_bit_eq take_bit_nat_eq_self)
  then have g: "g AND 0x1F = g"
    by (simp add: mask word_unat_eq_iff flip: take_bit_eq_mask)
  have b: "(0x80 :: u8) AND 0x1F = 0" "(0x80 :: u8) AND 0x80 = 0x80" by simp_all
  have z: "g AND 0x80 = 0"
  proof -
    have "g AND 0x80 = (g AND 0x1F) AND 0x80" by (simp add: g)
    also have "\<dots> = g AND (0x1F AND 0x80)" by (simp only: and.assoc)
    finally show ?thesis by simp
  qed
  show "((g AND 0x1F) OR (if l then 0x80 else 0)) AND 0x1F = g"
    by (simp add: bit.conj_disj_distrib2 g b)
  show "((g AND 0x1F) OR (if l then 0x80 else 0)) AND 0x80 \<noteq> 0 \<longleftrightarrow> l"
    by (simp add: bit.conj_disj_distrib2 g b z)
qed

lemma decode_event_put_event:
  assumes "length p = 63" "i < 7" "unat (ev_gpio e) < 32"
  shows "decode_event (put_event i e p) i = e"
proof -
  have "u32_at (put_event i e p) (28 + 5 * i + 1) = age_us e"
    using assms(1,2) nth_to_le_4 [of "age_us e"]
    by (simp add: u32_at_def nth_put_event add.commute of_le_to_le)
  then show ?thesis
    using assms event_byte [of "ev_gpio e" "ev_level e"]
    by (simp add: decode_event_def Let_def wire_defs nth_put_event)
qed

lemma decode_event_cong:
  assumes "\<And>k. 28 + 5 * i \<le> k \<Longrightarrow> k < 28 + 5 * Suc i \<Longrightarrow> p ! k = q ! k"
  shows "decode_event p i = decode_event q i"
  using assms by (simp add: decode_event_def Let_def wire_defs u32_at_def)

lemma decode_event_put_events:
  assumes "length p = 63" "i + length es \<le> 7" "\<forall>e \<in> set es. unat (ev_gpio e) < 32"
    and "j < length es"
  shows "decode_event (put_events i es p) (i + j) = es ! j"
  using assms
proof (induction es arbitrary: i p j)
  case Nil
  then show ?case by simp
next
  case (Cons e es)
  show ?case
  proof (cases j)
    case 0
    have "decode_event (put_events (Suc i) es (put_event i e p)) i
        = decode_event (put_event i e p) i"
      using Cons.prems by (intro decode_event_cong nth_put_events_outside) auto
    with Cons.prems 0 show ?thesis by (simp add: decode_event_put_event)
  next
    case (Suc m)
    have "decode_event (put_events (Suc i) es (put_event i e p)) (Suc i + m) = es ! m"
      using Cons.prems Suc by (intro Cons.IH) auto
    with Suc show ?thesis by simp
  qed
qed

lemma status_header_fields:
  "u16_at (status_header r) 0 = seq r"
  "status_header r ! 2 = sr_reason r"
  "status_header r ! 3 = sr_flags r"
  "status_header r ! 4 = word_of_nat (length (events r))"
  "u32_at (status_header r) 8 = monitored r"
  "u32_at (status_header r) 12 = outputs r"
  "u32_at (status_header r) 16 = levels r"
  "u64_at (status_header r) 20 = timestamp_us r"
proof -
  note h = status_header_def Let_def wire_defs
  have "get_at 20 8 (status_header r) = to_le 8 (timestamp_us r)"
    by (simp add: h get_at_put_at)
  then show "u64_at (status_header r) 20 = timestamp_us r"
    by (simp add: u64_at_get of_le_to_le)
  have "[to_le 2 (seq r) ! 0, to_le 2 (seq r) ! 1] = to_le 2 (seq r)"
    by (simp add: eval_nat_numeral)
  then show "u16_at (status_header r) 0 = seq r"
    by (simp add: h u16_at_def nth_put_at of_le_to_le)
  show "u32_at (status_header r) 8 = monitored r"
    using nth_to_le_4 [of "monitored r"] by (simp add: h u32_at_def nth_put_at of_le_to_le)
  show "u32_at (status_header r) 12 = outputs r"
    using nth_to_le_4 [of "outputs r"] by (simp add: h u32_at_def nth_put_at of_le_to_le)
  show "u32_at (status_header r) 16 = levels r"
    using nth_to_le_4 [of "levels r"] by (simp add: h u32_at_def nth_put_at of_le_to_le)
  show "status_header r ! 2 = sr_reason r" "status_header r ! 3 = sr_flags r"
    "status_header r ! 4 = word_of_nat (length (events r))"
    by (simp_all add: h nth_put_at)
qed

text \<open>Fields of the header survive writing the events, which start at offset 28.\<close>

lemma put_events_header:
  assumes "length p = 63" "length es \<le> 7"
  shows "u16_at (put_events 0 es p) 0 = u16_at p 0"
    "k < 28 \<Longrightarrow> put_events 0 es p ! k = p ! k"
    "n \<le> 24 \<Longrightarrow> u32_at (put_events 0 es p) n = u32_at p n"
    "u64_at (put_events 0 es p) 20 = u64_at p 20"
proof -
  have nth: "put_events 0 es p ! k = p ! k" if "k < 28" for k
    using assms that by (intro nth_put_events_outside) auto
  show "u16_at (put_events 0 es p) 0 = u16_at p 0" by (simp add: u16_at_def nth)
  show "k < 28 \<Longrightarrow> put_events 0 es p ! k = p ! k" by (rule nth)
  show "n \<le> 24 \<Longrightarrow> u32_at (put_events 0 es p) n = u32_at p n" by (simp add: u32_at_def nth)
  have "get_at 20 8 (put_events 0 es p) = get_at 20 8 p"
    using assms by (intro nth_equalityI) (auto simp: nth_get_at nth)
  then show "u64_at (put_events 0 es p) 20 = u64_at p 20"
    using assms by (simp add: u64_at_get)
qed

text \<open>A report the format can carry: at most seven events, on GPIO numbers of five bits.\<close>

definition status_encodable :: "status_report \<Rightarrow> bool" where
  "status_encodable r \<longleftrightarrow>
     length (events r) \<le> 7 \<and> (\<forall>e \<in> set (events r). unat (ev_gpio e) < 32)"

lemma encode_status_length: "encode_status r = Inr p \<Longrightarrow> length p = 63"
  by (auto simp: encode_status_def wire_defs split: if_splits)

lemma decode_encode_status:
  assumes "status_encodable r"
  shows "\<exists>p. encode_status r = Inr p \<and> decode_status p = Inr r"
proof -
  let ?p = "put_events 0 (events r) (status_header r)"
  have n: "length (events r) \<le> 7" using assms by (simp add: status_encodable_def)
  have enc: "encode_status r = Inr ?p" using n by (simp add: encode_status_def wire_defs)
  have count: "unat (?p ! 4) = length (events r)"
    using n by (simp add: put_events_header status_header_fields unat_of_nat)
  have "map (decode_event ?p) [0..<length (events r)] = events r"
    using assms decode_event_put_events [of "status_header r" 0 "events r"]
    by (intro nth_equalityI) (auto simp: status_encodable_def)
  then have "decode_status ?p = Inr r"
    using n by (simp add: decode_status_def count [simplified put_events_header] wire_defs Let_def
      put_events_header status_header_fields unat_of_nat)
  with enc show ?thesis by blast
qed

section \<open>Canonical payloads\<close>

text \<open>
  A payload as the format prescribes it: reserved bytes and bits are 0, and so is what
  follows the last event. Encoding what such a payload decodes to gives it back.
\<close>

definition status_canonical :: "bytes \<Rightarrow> bool" where
  "status_canonical p \<longleftrightarrow>
     length p = 63 \<and> unat (p ! 4) \<le> 7 \<and> p ! 5 = 0 \<and> p ! 6 = 0 \<and> p ! 7 = 0 \<and>
     list_all (\<lambda>i. p ! (28 + 5 * i) AND 0x60 = 0) [0..<unat (p ! 4)] \<and>
     list_all (\<lambda>k. p ! k = 0) [28 + 5 * unat (p ! 4)..<63]"

lemma event_byte_back:
  fixes b :: u8
  assumes "b AND 0x60 = 0"
  shows "((b AND 0x1F) AND 0x1F) OR (if b AND 0x80 \<noteq> 0 then 0x80 else 0) = b"
proof -
  have "(if b AND 0x80 \<noteq> 0 then 0x80 else 0) = b AND (0x80 :: u8)"
    using and_exp_word [of b 7] by auto
  moreover have "b = (b AND 0x1F) OR (b AND 0x60) OR (b AND 0x80)"
  proof -
    have "(255 :: u8) = - 1" by simp
    then have "b AND 255 = b" by (metis and.right_neutral)
    then show ?thesis by (simp flip: bit.conj_disj_distrib)
  qed
  ultimately show ?thesis using assms by (simp add: and.assoc)
qed

lemma put_event_decode_event:
  assumes "length p = 63" "length q = 63" "i < 7" "q ! (28 + 5 * i) AND 0x60 = 0"
    and "28 + 5 * i \<le> k" "k < 28 + 5 * Suc i"
  shows "put_event i (decode_event q i) p ! k = q ! k"
proof (cases "k = 28 + 5 * i")
  case True
  with assms event_byte_back [of "q ! k"] show ?thesis
    by (simp add: nth_put_event decode_event_def Let_def wire_defs)
next
  case False
  let ?a = "28 + 5 * i + 1"
  have "to_le 4 (u32_at q ?a) = get_at ?a 4 q"
    using assms by (simp add: u32_at_get to_le_of_le)
  then have "to_le 4 (u32_at q ?a) ! (k - ?a) = q ! k"
    using assms False by (simp add: nth_get_at)
  with False assms show ?thesis
    by (simp add: nth_put_event decode_event_def Let_def wire_defs)
qed

lemma put_events_decode_events:
  assumes "length p = 63" "length q = 63" "i + n \<le> 7"
    and "\<And>j. j < i + n \<Longrightarrow> q ! (28 + 5 * j) AND 0x60 = 0"
    and "28 + 5 * i \<le> k" "k < 28 + 5 * (i + n)"
  shows "put_events i (map (decode_event q) [i..<i + n]) p ! k = q ! k"
  using assms
proof (induction n arbitrary: i p)
  case 0
  then show ?case by simp
next
  case (Suc n)
  have upt: "[i..<i + Suc n] = i # [Suc i..<Suc i + n]" by (simp add: upt_conv_Cons)
  let ?p = "put_event i (decode_event q i) p"
  show ?case
  proof (cases "k < 28 + 5 * Suc i")
    case True
    have "put_events (Suc i) (map (decode_event q) [Suc i..<Suc i + n]) ?p ! k = ?p ! k"
      using Suc.prems True by (intro nth_put_events_outside) auto
    with Suc.prems True show ?thesis
      unfolding upt by (simp add: put_event_decode_event del: upt_Suc)
  next
    case False
    have "put_events (Suc i) (map (decode_event q) [Suc i..<Suc i + n]) ?p ! k = q ! k"
      using Suc.prems False by (intro Suc.IH) auto
    then show ?thesis unfolding upt by (simp del: upt_Suc)
  qed
qed

lemma nth_status_header:
  assumes "length q = 63" "q ! 5 = 0" "q ! 6 = 0" "q ! 7 = 0" "k < 63"
    and "seq r = u16_at q 0" "sr_reason r = q ! 2" "sr_flags r = q ! 3"
    and "length (events r) = unat (q ! 4)" "monitored r = u32_at q 8"
    and "outputs r = u32_at q 12" "levels r = u32_at q 16" "timestamp_us r = u64_at q 20"
  shows "status_header r ! k = (if k < 28 then q ! k else 0)"
proof -
  have le: "to_le 2 (seq r) = get_at 0 2 q" "to_le 4 (monitored r) = get_at 8 4 q"
    "to_le 4 (outputs r) = get_at 12 4 q" "to_le 4 (levels r) = get_at 16 4 q"
    "to_le 8 (timestamp_us r) = get_at 20 8 q"
    using assms(1) by (simp_all add: assms(6-) int_at_get to_le_of_le)
  note h = status_header_def Let_def wire_defs nth_put_at nth_list_update
  consider "k < 2" | "k \<in> {2, 3, 4}" | "k \<in> {5, 6, 7}" | "8 \<le> k" "k < 12" | "12 \<le> k" "k < 16"
    | "16 \<le> k" "k < 20" | "20 \<le> k" "k < 28" | "28 \<le> k"
    by force
  then show ?thesis
  proof cases
    case 1
    then show ?thesis using assms(1) by (simp add: h le(1) nth_get_at)
  next
    case 2
    then show ?thesis using assms(7-9) by (auto simp: h)
  next
    case 3
    then show ?thesis using assms(2-4) by (auto simp: h)
  next
    case 4
    then show ?thesis using assms(1) by (simp add: h le(2) nth_get_at)
  next
    case 5
    then show ?thesis using assms(1) by (simp add: h le(3) nth_get_at)
  next
    case 6
    then show ?thesis using assms(1) by (simp add: h le(4) nth_get_at)
  next
    case 7
    then show ?thesis using assms(1) by (simp add: h le(5) nth_get_at)
  next
    case 8
    then show ?thesis using assms(5) by (simp add: h)
  qed
qed

lemma encode_decode_status:
  assumes "status_canonical p"
  shows "\<exists>r. decode_status p = Inr r \<and> encode_status r = Inr p"
proof -
  let ?n = "unat (p ! 4)"
  let ?es = "map (decode_event p) [0..<?n]"
  let ?r = "\<lparr>seq = u16_at p 0, sr_reason = p ! 2, sr_flags = p ! 3,
    monitored = u32_at p 8, outputs = u32_at p 12, levels = u32_at p 16,
    timestamp_us = u64_at p 20, events = ?es\<rparr>"
  have p: "length p = 63" "?n \<le> 7" "p ! 5 = 0" "p ! 6 = 0" "p ! 7 = 0"
    and ev: "\<And>j. j < ?n \<Longrightarrow> p ! (28 + 5 * j) AND 0x60 = 0"
    and tail: "\<And>k. 28 + 5 * ?n \<le> k \<Longrightarrow> k < 63 \<Longrightarrow> p ! k = 0"
    using assms unfolding status_canonical_def list_all_iff Ball_def set_upt atLeastLessThan_iff
    by blast+
  have dec: "decode_status p = Inr ?r" using p by (simp add: decode_status_def wire_defs Let_def)
  have hdr: "status_header ?r ! k = (if k < 28 then p ! k else 0)" if "k < 63" for k
    using p that by (intro nth_status_header) auto
  have "put_events 0 ?es (status_header ?r) ! k = p ! k" if "k < 63" for k
  proof (cases "28 \<le> k \<and> k < 28 + 5 * ?n")
    case True
    then show ?thesis
      using put_events_decode_events [of "status_header ?r" p 0 ?n k] p ev by simp
  next
    case False
    then have "put_events 0 ?es (status_header ?r) ! k = status_header ?r ! k"
      using p by (intro nth_put_events_outside) auto
    also have "\<dots> = p ! k" using hdr [OF that] tail [of k] False that by auto
    finally show ?thesis .
  qed
  then have "put_events 0 ?es (status_header ?r) = p"
    using p by (intro nth_equalityI) auto
  then have "encode_status ?r = Inr p" using p by (simp add: encode_status_def wire_defs)
  with dec show ?thesis by blast
qed

lemma decode_status_gpio:
  assumes "decode_status p = Inr r" "e \<in> set (events r)"
  shows "unat (ev_gpio e) < 32"
proof -
  have "unat (b AND 0x1F) < 32" for b :: u8
  proof -
    have "b AND 0x1F \<le> 0x1F" by (rule word_and_le1)
    then show ?thesis by (simp add: word_le_nat_alt)
  qed
  then show ?thesis
    using assms by (auto simp: decode_status_def decode_event_def Let_def split: if_splits)
qed

lemma decode_status_encodable: "decode_status p = Inr r \<Longrightarrow> status_encodable r"
  using decode_status_gpio
  by (auto simp: status_encodable_def decode_status_def wire_defs Let_def split: if_splits)

interpretation status: codec encode_status decode_status status_encodable status_canonical 63
proof unfold_locales
  show "length p = 63" if "decode_status p = Inr r" for p r
    using that by (auto simp: decode_status_def wire_defs split: if_splits)
qed (auto intro: decode_encode_status encode_decode_status encode_status_length)

end
