(* ===== verification/Protocol_Info.thy ===== *)
theory Protocol_Info
  imports Protocol_Status
begin

text \<open>
  The device information (report ID 2) of \<open>rust/src/protocol.rs\<close>: the record, its derived
  texts, its encoder and decoder, and what survives a round trip. The board name is the one
  field that is not carried exactly: the encoder cuts it at 40 bytes and the decoder stops
  at the first 0 and replaces bytes outside ASCII by U+FFFD.
\<close>

section \<open>Text in a report\<close>

text \<open>A Rust \<open>String\<close> as its UTF-8 bytes, and back for single bytes.\<close>

definition char_byte :: "char \<Rightarrow> u8" where
  "char_byte c = word_of_nat (of_char c)"

definition byte_char :: "u8 \<Rightarrow> char" where
  "byte_char b = char_of (unat b)"

definition as_bytes :: "string \<Rightarrow> bytes" where
  "as_bytes s = map char_byte s"

definition is_ascii :: "u8 \<Rightarrow> bool" where
  "is_ascii b \<longleftrightarrow> unat b < 128"

text \<open>U+FFFD is EF BF BD in UTF-8.\<close>

definition replacement :: string where
  "replacement = map char_of [0xEF, 0xBF, 0xBD :: nat]"

definition ascii_lossy :: "bytes \<Rightarrow> string" where
  "ascii_lossy bs = concat (map (\<lambda>b. if is_ascii b then [byte_char b] else replacement) bs)"

lemma unat_char_byte [simp]: "unat (char_byte c) = of_char c"
proof -
  have "(of_char c :: nat) mod 256 = of_char c" by simp
  then show ?thesis by (simp add: char_byte_def unat_of_nat del: of_char_mod_256)
qed

lemma byte_char_char_byte [simp]: "byte_char (char_byte c) = c"
  by (simp add: byte_char_def)

lemma char_byte_byte_char [simp]: "char_byte (byte_char b) = b"
proof -
  have "unat b < 256" using unsigned_less [of b] by simp
  then show ?thesis by (simp add: char_byte_def byte_char_def of_char_of)
qed

lemma length_as_bytes [simp]: "length (as_bytes s) = length s"
  by (simp add: as_bytes_def)

definition ascii_name :: "string \<Rightarrow> bool" where
  "ascii_name s \<longleftrightarrow> list_all (\<lambda>c. 0 < (of_char c :: nat) \<and> (of_char c :: nat) < 128) s"

lemma ascii_lossy_as_bytes: "ascii_name s \<Longrightarrow> ascii_lossy (as_bytes s) = s"
  by (induction s) (auto simp: ascii_lossy_def as_bytes_def ascii_name_def is_ascii_def)

lemma as_bytes_ascii_lossy: "list_all is_ascii bs \<Longrightarrow> as_bytes (ascii_lossy bs) = bs"
  by (induction bs) (auto simp: ascii_lossy_def as_bytes_def)

lemma ascii_name_lossy:
  "list_all (\<lambda>b. b \<noteq> 0 \<and> is_ascii b) bs \<Longrightarrow> ascii_name (ascii_lossy bs)"
proof (induction bs)
  case Nil
  then show ?case by (simp add: ascii_name_def ascii_lossy_def)
next
  case (Cons b bs)
  have "unat b < 256" using unsigned_less [of b] by simp
  with Cons show ?case
    by (simp add: ascii_name_def ascii_lossy_def is_ascii_def byte_char_def of_char_of
      unat_gt_0)
qed

section \<open>The record\<close>

record device_info =
  protocol_version :: u8
  firmware :: "u8 \<times> u8 \<times> u8"
  di_board :: board
  gpio_count :: u8
  periodic_interval_ms :: u16
  available :: u32
  events_per_report :: u8
  event_queue_size :: u8
  di_chip :: chip
  chip_revision :: u8
  di_quirks :: quirks
  sdk_board :: string

definition firmware_version :: "device_info \<Rightarrow> string" where
  "firmware_version i = (case firmware i of (major, minor, patch) \<Rightarrow>
     show_word major @ ''.'' @ show_word minor @ ''.'' @ show_word patch)"

definition available_gpios :: "device_info \<Rightarrow> u8 list" where
  "available_gpios i = mask_to_gpios (available i)"

definition info_board_name :: "device_info \<Rightarrow> string" where
  "info_board_name i = board_name (di_board i) (sdk_board i)"

definition info_chip_name :: "device_info \<Rightarrow> string" where
  "info_chip_name i = chip_name (di_chip i)"

definition pull_down_unreliable :: "device_info \<Rightarrow> bool" where
  "pull_down_unreliable i \<longleftrightarrow> flags_contains (di_quirks i) PULL_DOWN_UNRELIABLE"

definition encode_device_info :: "device_info \<Rightarrow> bytes" where
  "encode_device_info i =
     (let p = replicate REPORT_PAYLOAD_LEN 0;
          p = p[0 := protocol_version i];
          p = put_at 1 (case firmware i of (a, b, c) \<Rightarrow> [a, b, c]) p;
          p = p[4 := di_board i];
          p = p[5 := gpio_count i];
          p = put_at 6 (to_le 2 (periodic_interval_ms i)) p;
          p = put_at 8 (to_le 4 (available i)) p;
          p = p[12 := events_per_report i];
          p = p[13 := event_queue_size i];
          p = p[14 := di_chip i];
          p = p[15 := chip_revision i];
          p = p[16 := di_quirks i];
          name = as_bytes (sdk_board i);
          len = min (length name) SDK_BOARD_LEN
      in put_at SDK_BOARD_OFFSET (take len name) p)"

definition decode_device_info :: "bytes \<Rightarrow> device_info result" where
  "decode_device_info p =
     (if length p \<noteq> REPORT_PAYLOAD_LEN
      then Inl (bad_length ''device info'' REPORT_PAYLOAD_LEN (length p))
      else let name = get_at SDK_BOARD_OFFSET SDK_BOARD_LEN p;
               sdk = ascii_lossy (takeWhile (\<lambda>b. b \<noteq> 0) name)
        in Inr \<lparr>protocol_version = p ! 0, firmware = (p ! 1, p ! 2, p ! 3), di_board = p ! 4,
             gpio_count = p ! 5, periodic_interval_ms = u16_at p 6, available = u32_at p 8,
             events_per_report = p ! 12, event_queue_size = p ! 13, di_chip = p ! 14,
             chip_revision = p ! 15, di_quirks = p ! 16, sdk_board = sdk\<rparr>)"

section \<open>Round trips\<close>

lemma length_encode_device_info [simp]: "length (encode_device_info i) = 63"
  by (cases "firmware i") (simp add: encode_device_info_def Let_def wire_defs)

lemma takeWhile_take_name:
  assumes "list_all (\<lambda>b. b \<noteq> 0) bs"
  shows "takeWhile (\<lambda>b :: u8. b \<noteq> 0) (bs @ replicate n 0) = bs"
  using assms by (simp add: takeWhile_append list_all_iff)

lemma name_field_encode:
  "get_at 17 40 (encode_device_info i) =
     take 40 (as_bytes (sdk_board i)) @ replicate (40 - length (sdk_board i)) 0"
proof (rule nth_equalityI)
  show "length (get_at 17 40 (encode_device_info i)) =
    length (take 40 (as_bytes (sdk_board i)) @ replicate (40 - length (sdk_board i)) 0)"
    by simp
next
  fix k
  assume "k < length (get_at 17 40 (encode_device_info i))"
  then have k: "k < 40" by simp
  show "get_at 17 40 (encode_device_info i) ! k =
    (take 40 (as_bytes (sdk_board i)) @ replicate (40 - length (sdk_board i)) 0) ! k"
    using k by (cases "firmware i")
      (auto simp: nth_get_at encode_device_info_def Let_def wire_defs nth_put_at nth_append)
qed

lemma info_fields_encode:
  "encode_device_info i ! 0 = protocol_version i"
  "(encode_device_info i ! 1, encode_device_info i ! 2, encode_device_info i ! 3) = firmware i"
  "encode_device_info i ! 4 = di_board i"
  "encode_device_info i ! 5 = gpio_count i"
  "u16_at (encode_device_info i) 6 = periodic_interval_ms i"
  "u32_at (encode_device_info i) 8 = available i"
  "encode_device_info i ! 12 = events_per_report i"
  "encode_device_info i ! 13 = event_queue_size i"
  "encode_device_info i ! 14 = di_chip i"
  "encode_device_info i ! 15 = chip_revision i"
  "encode_device_info i ! 16 = di_quirks i"
proof -
  note h = encode_device_info_def Let_def wire_defs nth_put_at
  obtain a b c where f: "firmware i = (a, b, c)" by (cases "firmware i")
  show "(encode_device_info i ! 1, encode_device_info i ! 2, encode_device_info i ! 3) = firmware i"
    by (simp add: h f eval_nat_numeral)
  have "[to_le 2 (periodic_interval_ms i) ! 0, to_le 2 (periodic_interval_ms i) ! 1]
      = to_le 2 (periodic_interval_ms i)"
    by (simp add: eval_nat_numeral)
  then show "u16_at (encode_device_info i) 6 = periodic_interval_ms i"
    by (simp add: h f u16_at_def of_le_to_le)
  show "u32_at (encode_device_info i) 8 = available i"
    using nth_to_le_4 [of "available i"] by (simp add: h f u32_at_def of_le_to_le)
qed (simp_all add: encode_device_info_def Let_def wire_defs nth_put_at split: prod.split)

lemma decode_encode_device_info:
  "decode_device_info (encode_device_info i) =
     Inr (i\<lparr>sdk_board := ascii_lossy (takeWhile (\<lambda>b. b \<noteq> 0) (take 40 (as_bytes (sdk_board i))))\<rparr>)"
proof -
  have "takeWhile (\<lambda>b. b \<noteq> 0) (bs @ replicate n (0 :: u8)) = takeWhile (\<lambda>b. b \<noteq> 0) bs" for bs n
    by (induction bs) (cases n; auto)+
  then show ?thesis
    using info_fields_encode(2) [of i]
    by (simp add: decode_device_info_def wire_defs Let_def name_field_encode info_fields_encode)
qed

lemma decode_encode_device_info_exact:
  assumes "ascii_name (sdk_board i)" "length (sdk_board i) \<le> 40"
  shows "decode_device_info (encode_device_info i) = Inr i"
proof -
  have "list_all (\<lambda>b. b \<noteq> 0) (as_bytes (sdk_board i))"
    using assms(1) by (auto simp: ascii_name_def list_all_iff as_bytes_def word_unat_eq_iff)
  then have all: "takeWhile (\<lambda>b. b \<noteq> 0) (as_bytes (sdk_board i)) = as_bytes (sdk_board i)"
    by (simp add: takeWhile_eq_all_conv list_all_iff)
  then show ?thesis
    using assms by (simp add: decode_encode_device_info all ascii_lossy_as_bytes)
qed

lemma decode_device_info_total: "length p = 63 \<Longrightarrow> \<exists>i. decode_device_info p = Inr i"
  by (simp add: decode_device_info_def wire_defs Let_def)

text \<open>
  A payload as the format prescribes it: a name of ASCII bytes padded with 0, and reserved
  bytes that are 0.
\<close>

definition info_name :: "bytes \<Rightarrow> bytes" where
  "info_name p = takeWhile (\<lambda>b. b \<noteq> 0) (get_at SDK_BOARD_OFFSET SDK_BOARD_LEN p)"

definition info_canonical :: "bytes \<Rightarrow> bool" where
  "info_canonical p \<longleftrightarrow>
     length p = 63 \<and> list_all is_ascii (info_name p) \<and>
     list_all (\<lambda>k. p ! k = 0) [17 + length (info_name p)..<63]"

definition info_fits :: "device_info \<Rightarrow> bool" where
  "info_fits i \<longleftrightarrow> ascii_name (sdk_board i) \<and> length (sdk_board i) \<le> 40"

lemma nth_encode_info_header:
  assumes "length q = 63" "k < 17"
    and "protocol_version i = q ! 0" "firmware i = (q ! 1, q ! 2, q ! 3)" "di_board i = q ! 4"
    and "gpio_count i = q ! 5" "periodic_interval_ms i = u16_at q 6" "available i = u32_at q 8"
    and "events_per_report i = q ! 12" "event_queue_size i = q ! 13" "di_chip i = q ! 14"
    and "chip_revision i = q ! 15" "di_quirks i = q ! 16"
  shows "encode_device_info i ! k = q ! k"
proof -
  note h = encode_device_info_def Let_def wire_defs nth_put_at nth_list_update
  have le: "to_le 2 (periodic_interval_ms i) = get_at 6 2 q"
    "to_le 4 (available i) = get_at 8 4 q"
    using assms(1) by (simp_all add: assms(7,8) int_at_get to_le_of_le)
  consider "k \<in> {0, 1, 2, 3, 4, 5}" | "6 \<le> k" "k < 8" | "8 \<le> k" "k < 12"
    | "k \<in> {12, 13, 14, 15, 16}"
    using assms(2) by force
  then show ?thesis
  proof cases
    case 1
    then show ?thesis using assms(3-6) by (auto simp: h eval_nat_numeral)
  next
    case 2
    then show ?thesis using assms(1,4) by (simp add: h le(1) nth_get_at)
  next
    case 3
    then show ?thesis using assms(1,4) by (simp add: h le(2) nth_get_at)
  next
    case 4
    then show ?thesis using assms(4,9-13) by (auto simp: h)
  qed
qed

lemma encode_decode_device_info:
  assumes can: "info_canonical p"
  shows "\<exists>i. decode_device_info p = Inr i \<and> encode_device_info i = p"
proof -
  from can have len: "length p = 63" and asc: "list_all is_ascii (info_name p)"
    and zero: "\<And>k. 17 + length (info_name p) \<le> k \<Longrightarrow> k < 63 \<Longrightarrow> p ! k = 0"
    unfolding info_canonical_def list_all_iff Ball_def set_upt atLeastLessThan_iff by blast+
  obtain i where dec: "decode_device_info p = Inr i" using decode_device_info_total [OF len] by blast
  then have i: "i = \<lparr>protocol_version = p ! 0, firmware = (p ! 1, p ! 2, p ! 3), di_board = p ! 4,
      gpio_count = p ! 5, periodic_interval_ms = u16_at p 6, available = u32_at p 8,
      events_per_report = p ! 12, event_queue_size = p ! 13, di_chip = p ! 14,
      chip_revision = p ! 15, di_quirks = p ! 16, sdk_board = ascii_lossy (info_name p)\<rparr>"
    using len by (simp add: decode_device_info_def wire_defs Let_def info_name_def)
  have name: "as_bytes (sdk_board i) = info_name p"
    using asc by (simp add: i as_bytes_ascii_lossy)
  have n40: "length (info_name p) \<le> 40"
    unfolding info_name_def using length_takeWhile_le [of _ "get_at SDK_BOARD_OFFSET SDK_BOARD_LEN p"] len
    by (simp add: wire_defs)
  have nth_name: "info_name p ! j = p ! (17 + j)" if "j < length (info_name p)" for j
  proof -
    have "info_name p ! j = get_at 17 40 p ! j"
      using that by (simp add: info_name_def wire_defs takeWhile_nth)
    then show ?thesis using that n40 len by (simp add: nth_get_at)
  qed
  have "encode_device_info i ! k = p ! k" if "k < 63" for k
  proof (cases "k < 17")
    case True
    then show ?thesis using len by (intro nth_encode_info_header) (simp_all add: i)
  next
    case False
    obtain a b c where f: "firmware i = (a, b, c)" by (cases "firmware i")
    have "encode_device_info i ! k =
      (if k < 17 + length (info_name p) then info_name p ! (k - 17) else 0)"
      using False that n40
      by (simp add: encode_device_info_def Let_def wire_defs nth_put_at name f)
    then show ?thesis using False that nth_name [of "k - 17"] zero [of k] by auto
  qed
  then have "encode_device_info i = p" using len by (intro nth_equalityI) simp_all
  with dec show ?thesis by blast
qed

interpretation info: codec "\<lambda>i. Inr (encode_device_info i)" decode_device_info info_fits
  info_canonical 63
proof unfold_locales
  show "length p = 63" if "decode_device_info p = Inr i" for p i
    using that by (auto simp: decode_device_info_def wire_defs split: if_splits)
qed (auto simp: info_fits_def decode_encode_device_info_exact intro: encode_decode_device_info)

end
