(* ===== verification/Protocol_Config.thy ===== *)
theory Protocol_Config
  imports Protocol_Info
begin

text \<open>
  The pin configuration (report ID 3) and the output command (report ID 4) of
  \<open>rust/src/protocol.rs\<close>: settings, configurations, the report with its encoder and
  decoder, and the validation a device repeats on every write.

  \<open>PinConfig([PinSetting; 30])\<close> is a list; \<open>wf_config\<close> says that it has the 30 entries
  the Rust type guarantees, and every operation here keeps that.
\<close>

section \<open>Settings\<close>

record pin_setting =
  mode :: pin_mode
  param :: u8

definition unused_setting :: pin_setting where
  "unused_setting = \<lparr>mode = Unused, param = 0\<rparr>"

definition monitor :: "pin_mode \<Rightarrow> u8 \<Rightarrow> pin_setting result" where
  "monitor m debounce_ms =
     (if \<not> is_input m then Inl (InvalidArgument (mode_name m @ '' is not an input mode''))
      else Inr \<lparr>mode = m, param = debounce_ms\<rparr>)"

definition pull_up :: "u8 \<Rightarrow> pin_setting" where
  "pull_up debounce_ms = \<lparr>mode = PullUp, param = debounce_ms\<rparr>"

definition pull_down :: "u8 \<Rightarrow> pin_setting" where
  "pull_down debounce_ms = \<lparr>mode = PullDown, param = debounce_ms\<rparr>"

definition no_pull :: "u8 \<Rightarrow> pin_setting" where
  "no_pull debounce_ms = \<lparr>mode = Input, param = debounce_ms\<rparr>"

definition output_setting :: "bool \<Rightarrow> pin_setting" where
  "output_setting initial_high = \<lparr>mode = Output, param = (if initial_high then 1 else 0)\<rparr>"

definition is_monitored :: "pin_setting \<Rightarrow> bool" where
  "is_monitored s \<longleftrightarrow> is_input (mode s)"

definition is_output :: "pin_setting \<Rightarrow> bool" where
  "is_output s \<longleftrightarrow> mode s = Output"

definition setting_display :: "pin_setting \<Rightarrow> string" where
  "setting_display s = (case mode s of
     Unused \<Rightarrow> ''off''
   | Output \<Rightarrow> (if param s \<noteq> 0 then ''out:high'' else ''out:low'')
   | Input \<Rightarrow> ''nopull:'' @ show_word (param s)
   | PullUp \<Rightarrow> ''pullup:'' @ show_word (param s)
   | PullDown \<Rightarrow> ''pulldown:'' @ show_word (param s))"

definition mode_of_u8 :: "u8 \<Rightarrow> pin_mode result" where
  "mode_of_u8 value =
     (if value = 0 then Inr Unused else if value = 1 then Inr Input
      else if value = 2 then Inr PullUp else if value = 3 then Inr PullDown
      else if value = 4 then Inr Output
      else Inl (Malformed (''mode '' @ show_word value @ '' is undefined'')))"

lemma mode_of_mode_u8 [simp]: "mode_of_u8 (mode_u8 m) = Inr m"
  by (cases m) (simp_all add: mode_of_u8_def mode_u8_def)

lemma mode_u8_of: "mode_of_u8 v = Inr m \<Longrightarrow> mode_u8 m = v"
  by (auto simp: mode_of_u8_def mode_u8_def split: if_splits)

lemma u8_le_4: "v \<le> 4 \<longleftrightarrow> v = 0 \<or> v = 1 \<or> v = 2 \<or> v = 3 \<or> (v :: u8) = 4"
proof
  assume "v \<le> 4"
  then have "unat v \<le> 4" by (simp add: word_le_nat_alt)
  then have "unat v \<in> {0, 1, 2, 3, 4}" by auto
  then show "v = 0 \<or> v = 1 \<or> v = 2 \<or> v = 3 \<or> v = 4"
    by (auto simp: word_unat_eq_iff)
qed auto

lemma mode_of_u8_defined: "(\<exists>m. mode_of_u8 v = Inr m) \<longleftrightarrow> v \<le> 4"
  by (auto simp: mode_of_u8_def u8_le_4)

lemma is_monitored_not_output: "is_monitored s \<Longrightarrow> \<not> is_output s"
  by (simp add: is_monitored_def is_output_def is_input_def split: pin_mode.splits)

section \<open>Configurations\<close>

type_synonym pin_config = "pin_setting list"

definition wf_config :: "pin_config \<Rightarrow> bool" where
  "wf_config c \<longleftrightarrow> length c = GPIO_COUNT"

definition unused_config :: pin_config where
  "unused_config = replicate GPIO_COUNT unused_setting"

definition default_for :: "u32 \<Rightarrow> pin_config" where
  "default_for avail =
     fold (\<lambda>gpio config. config[unat gpio := pull_up DEFAULT_DEBOUNCE_MS])
       (mask_to_gpios avail) unused_config"

definition gpio_out_of_range :: "u8 \<Rightarrow> error" where
  "gpio_out_of_range gpio = InvalidArgument
     (''GPIO'' @ show_word gpio @ '' is out of range (0-'' @ show_nat (GPIO_COUNT - 1) @ '')'')"

definition with_pin :: "pin_config \<Rightarrow> u8 \<Rightarrow> pin_setting \<Rightarrow> pin_config result" where
  "with_pin config gpio setting =
     (if unat gpio \<ge> GPIO_COUNT then Inl (gpio_out_of_range gpio)
      else Inr (config[unat gpio := setting]))"

fun with_pins :: "pin_config \<Rightarrow> (u8 \<times> pin_setting) list \<Rightarrow> pin_config result" where
  "with_pins config [] = Inr config"
| "with_pins config ((gpio, setting) # rest) =
     and_then (with_pin config gpio setting) (\<lambda>config. with_pins config rest)"

definition config_mask :: "(pin_setting \<Rightarrow> bool) \<Rightarrow> pin_config \<Rightarrow> u32" where
  "config_mask matches config =
     foldl (\<lambda>m (gpio, _). m OR push_bit gpio 1) 0
       (filter (\<lambda>(_, s). matches s) (enumerate 0 config))"

definition monitored_mask :: "pin_config \<Rightarrow> u32" where
  "monitored_mask config = config_mask is_monitored config"

definition outputs_mask :: "pin_config \<Rightarrow> u32" where
  "outputs_mask config = config_mask is_output config"

definition pull_down_gpios :: "pin_config \<Rightarrow> u8 list" where
  "pull_down_gpios config = mask_to_gpios (config_mask (\<lambda>s. mode s = PullDown) config)"

text \<open>\<open>config[gpio]\<close> panics outside the 30 entries; \<open>None\<close> is that panic.\<close>

definition config_at :: "pin_config \<Rightarrow> u8 \<Rightarrow> pin_setting option" where
  "config_at config gpio =
     (if unat gpio < length config then Some (config ! unat gpio) else None)"

lemma wf_unused [simp]: "wf_config unused_config"
  by (simp add: wf_config_def unused_config_def)

lemma wf_update [simp]: "wf_config (config[n := s]) = wf_config config"
  by (simp add: wf_config_def)

lemma wf_config_length: "wf_config c \<Longrightarrow> length c = 30"
  by (simp add: wf_config_def GPIO_COUNT_def)

lemma nth_unused [simp]: "n < 30 \<Longrightarrow> unused_config ! n = unused_setting"
  by (simp add: unused_config_def GPIO_COUNT_def)

lemma with_pin_wf: "with_pin c g s = Inr c' \<Longrightarrow> wf_config c \<Longrightarrow> wf_config c'"
  by (auto simp: with_pin_def split: if_splits)

lemma with_pins_wf: "with_pins c ps = Inr c' \<Longrightarrow> wf_config c \<Longrightarrow> wf_config c'"
  by (induction c ps rule: with_pins.induct) (auto simp: and_then_Inr_conv dest: with_pin_wf)

lemma with_pins_nth:
  assumes "with_pins c ps = Inr c'" "wf_config c" "n < 30"
  shows "c' ! n = (case map_of (rev ps) (word_of_nat n) of None \<Rightarrow> c ! n | Some s \<Rightarrow> s)"
  using assms
proof (induction c ps rule: with_pins.induct)
  case (1 config)
  then show ?case by simp
next
  case (2 config gpio setting rest)
  then have g: "unat gpio < 30" and rest: "with_pins (config[unat gpio := setting]) rest = Inr c'"
    by (auto simp: and_then_Inr_conv with_pin_def GPIO_COUNT_def split: if_splits)
  have "c' ! n = (case map_of (rev rest) (word_of_nat n) of
      None \<Rightarrow> config[unat gpio := setting] ! n | Some s \<Rightarrow> s)"
    using 2 g by (intro "2.IH") (auto simp: with_pin_def GPIO_COUNT_def and_then_Inr_conv)
  moreover have "word_of_nat n = gpio \<longleftrightarrow> n = unat gpio"
    using 2 g by (auto simp: word_unat_eq_iff unat_of_nat)
  moreover have "n < length config" using 2 by (simp add: wf_config_length)
  ultimately show ?case
    by (cases "map_of (rev rest) (word_of_nat n)")
      (simp_all add: map_of_append map_add_def nth_list_update)
qed

lemma with_pins_error:
  "(\<exists>e. with_pins c ps = Inl e) \<longleftrightarrow> (\<exists>(g, s) \<in> set ps. 30 \<le> unat g)"
  by (induction c ps rule: with_pins.induct) (auto simp: with_pin_def GPIO_COUNT_def)

lemma bit_single: "bit (push_bit g 1 :: u32) n \<longleftrightarrow> n < 32 \<and> n = g"
  by (auto simp: push_bit_eq_mult bit_exp_iff)

lemma foldl_or_bits:
  "bit (foldl (\<lambda>m (gpio, _). m OR push_bit gpio 1) (m :: u32) gs) n \<longleftrightarrow>
     bit m n \<or> n < 32 \<and> n \<in> fst ` set gs"
proof (induction gs arbitrary: m)
  case Nil
  then show ?case by simp
next
  case (Cons x gs)
  obtain g s where x: "x = (g, s)" by (cases x)
  have "bit (m OR push_bit g 1) n \<longleftrightarrow> bit m n \<or> n < 32 \<and> n = g"
    by (simp only: bit_or_iff bit_single)
  then show ?case unfolding x foldl_Cons prod.case Cons.IH by auto
qed

lemma bit_config_mask:
  assumes "wf_config c"
  shows "bit (config_mask f c) n \<longleftrightarrow> n < 30 \<and> f (c ! n)"
proof -
  have "n \<in> fst ` set (filter (\<lambda>(_, s). f s) (enumerate 0 c)) \<longleftrightarrow> n < 30 \<and> f (c ! n)"
    using wf_config_length [OF assms]
    by (force simp: in_set_enumerate_eq image_iff)
  then show ?thesis
    unfolding config_mask_def foldl_or_bits by auto
qed

lemma bit_monitored_mask:
  "wf_config c \<Longrightarrow> bit (monitored_mask c) n \<longleftrightarrow> n < 30 \<and> is_monitored (c ! n)"
  by (simp add: monitored_mask_def bit_config_mask)

lemma bit_outputs_mask: "wf_config c \<Longrightarrow> bit (outputs_mask c) n \<longleftrightarrow> n < 30 \<and> is_output (c ! n)"
  by (simp add: outputs_mask_def bit_config_mask)

lemma nth_fold_update:
  "n < length c \<Longrightarrow>
     fold (\<lambda>g c. c[unat g := s]) gs c ! n = (if n \<in> unat ` set gs then s else c ! n)"
  by (induction gs arbitrary: c) (auto simp: nth_list_update)

lemma length_fold_update [simp]: "length (fold (\<lambda>g c. c[unat g := s]) gs c) = length c"
  by (induction gs arbitrary: c) auto

lemma wf_default [simp]: "wf_config (default_for a)"
  by (simp add: wf_config_def default_for_def unused_config_def)

lemma nth_default:
  assumes "n < 30"
  shows "default_for a ! n = (if bit a n then pull_up 20 else unused_setting)"
proof -
  have "n \<in> unat ` set (mask_to_gpios a) \<longleftrightarrow> bit a n"
  proof
    assume "bit a n"
    with assms have "word_of_nat n \<in> set (mask_to_gpios a)"
      by (simp add: set_mask_to_gpios unat_of_nat)
    then have "unat (word_of_nat n :: u8) \<in> unat ` set (mask_to_gpios a)" by (rule imageI)
    with assms show "n \<in> unat ` set (mask_to_gpios a)" by (simp add: unat_of_nat)
  qed (auto simp: set_mask_to_gpios)
  with assms show ?thesis
    by (simp add: default_for_def nth_fold_update DEFAULT_DEBOUNCE_MS_def
        wf_config_length [OF wf_unused])
qed

lemma config_at_Some: "wf_config c \<Longrightarrow> unat g < 30 \<Longrightarrow> config_at c g = Some (c ! unat g)"
  by (simp add: config_at_def wf_config_length)

end
