(* ===== verification/Protocol_Report.thy ===== *)
theory Protocol_Report
  imports Protocol_Config
begin

text \<open>
  The pin configuration report and the output command of \<open>rust/src/protocol.rs\<close>: encoders,
  decoders, and the validation of a write, with the theorems that relate them: the two
  codecs are bijections, validation accepts exactly the configurations the protocol allows
  and names the first GPIO that breaks a rule, and what validation accepts can be decoded.
\<close>

section \<open>The pin configuration report\<close>

record pin_config_report =
  pcr_result :: result_code
  result_gpio :: u8
  request_id :: u8
  pcr_config :: pin_config

fun put_settings :: "nat \<Rightarrow> pin_config \<Rightarrow> bytes \<Rightarrow> bytes" where
  "put_settings gpio [] p = p"
| "put_settings gpio (setting # rest) p =
     put_settings (Suc gpio) rest
       (p[PIN_CONFIG_OFFSET + 2 * gpio := mode_u8 (mode setting),
          PIN_CONFIG_OFFSET + 2 * gpio + 1 := param setting])"

definition encode_pin_config :: "pin_config_report \<Rightarrow> bytes" where
  "encode_pin_config r =
     (let p = replicate REPORT_PAYLOAD_LEN 0;
          p = p[0 := pcr_result r];
          p = p[1 := result_gpio r];
          p = p[2 := request_id r]
      in put_settings 0 (pcr_config r) p)"

definition undefined_mode :: "u8 \<Rightarrow> nat \<Rightarrow> error" where
  "undefined_mode m gpio = Malformed
     (''mode '' @ show_word m @ '' of GPIO'' @ show_nat gpio @ '' is undefined'')"

fun decode_settings :: "bytes \<Rightarrow> nat list \<Rightarrow> pin_config \<Rightarrow> pin_config result" where
  "decode_settings p [] config = Inr config"
| "decode_settings p (gpio # rest) config =
     and_then (map_err (\<lambda>_. undefined_mode (p ! (PIN_CONFIG_OFFSET + 2 * gpio)) gpio)
            (mode_of_u8 (p ! (PIN_CONFIG_OFFSET + 2 * gpio))))
       (\<lambda>m. decode_settings p rest
          (config[gpio := \<lparr>mode = m, param = p ! (PIN_CONFIG_OFFSET + 2 * gpio + 1)\<rparr>]))"

definition decode_pin_config :: "bytes \<Rightarrow> pin_config_report result" where
  "decode_pin_config p =
     (if length p \<noteq> REPORT_PAYLOAD_LEN
      then Inl (bad_length ''pin config'' REPORT_PAYLOAD_LEN (length p))
      else and_then (decode_settings p [0..<GPIO_COUNT] unused_config)
        (\<lambda>config. Inr \<lparr>pcr_result = p ! 0, result_gpio = p ! 1, request_id = p ! 2,
           pcr_config = config\<rparr>))"

definition encode_pin_config_set :: "pin_config \<Rightarrow> u8 \<Rightarrow> bytes result" where
  "encode_pin_config_set config rid =
     (if rid = 0 then Inl (InvalidArgument ''request_id must be between 1 and 255'')
      else Inr (encode_pin_config \<lparr>pcr_result = RESULT_OK, result_gpio = RESULT_GPIO_NONE,
             request_id = rid, pcr_config = config\<rparr>))"

section \<open>Validation\<close>

text \<open>The loop of \<open>validate_pin_config_payload\<close>, from the first GPIO of the list on.\<close>

fun validate_gpios :: "bytes \<Rightarrow> u32 \<Rightarrow> nat list \<Rightarrow> result_code \<times> u8" where
  "validate_gpios p avail [] = (RESULT_OK, RESULT_GPIO_NONE)"
| "validate_gpios p avail (gpio # rest) =
     (let m = p ! (PIN_CONFIG_OFFSET + 2 * gpio);
          prm = p ! (PIN_CONFIG_OFFSET + 2 * gpio + 1);
          gpio_u8 = word_of_nat gpio
      in if m > mode_u8 Output then (BAD_MODE, gpio_u8)
         else if drop_bit gpio avail AND 1 = 0 \<and> m \<noteq> mode_u8 Unused
           then (UNAVAILABLE_GPIO, gpio_u8)
         else if m = mode_u8 Unused \<and> prm \<noteq> 0 then (UNUSED_WITH_PARAM, gpio_u8)
         else if m = mode_u8 Output \<and> prm > 1 then (BAD_OUTPUT_LEVEL, gpio_u8)
         else validate_gpios p avail rest)"

definition validate_pin_config_payload :: "bytes \<Rightarrow> u32 \<Rightarrow> result_code \<times> u8 \<times> u8" where
  "validate_pin_config_payload p avail =
     (let rid = (if 2 < length p then p ! 2 else 0)
      in if length p \<noteq> REPORT_PAYLOAD_LEN then (BAD_LENGTH, RESULT_GPIO_NONE, rid)
         else case validate_gpios p avail [0..<GPIO_COUNT] of
           (result, gpio) \<Rightarrow> (result, gpio, rid))"

definition validate_pin_config :: "pin_config \<Rightarrow> u32 \<Rightarrow> result_code \<times> u8" where
  "validate_pin_config config avail =
     (let payload = encode_pin_config \<lparr>pcr_result = RESULT_OK, result_gpio = RESULT_GPIO_NONE,
              request_id = 1, pcr_config = config\<rparr>
      in case validate_pin_config_payload payload avail of (result, gpio, _) \<Rightarrow> (result, gpio))"

section \<open>The output command\<close>

definition encode_output :: "u32 \<Rightarrow> u32 \<Rightarrow> bytes" where
  "encode_output m v = to_le 4 m @ to_le 4 v"

definition decode_output :: "bytes \<Rightarrow> (u32 \<times> u32) result" where
  "decode_output p =
     (if length p \<noteq> OUTPUT_PAYLOAD_LEN
      then Inl (bad_length ''output'' OUTPUT_PAYLOAD_LEN (length p))
      else Inr (u32_at p 0, u32_at p 4))"

lemma length_encode_output [simp]: "length (encode_output m v) = 8"
  by (simp add: encode_output_def)

lemma decode_encode_output: "decode_output (encode_output m v) = Inr (m, v)"
proof -
  have "get_at 0 4 (encode_output m v) = to_le 4 m" "get_at 4 4 (encode_output m v) = to_le 4 v"
    by (simp_all add: get_at_def encode_output_def)
  then show ?thesis by (simp add: decode_output_def wire_defs u32_at_get of_le_to_le)
qed

lemma encode_decode_output: "decode_output p = Inr (m, v) \<Longrightarrow> encode_output m v = p"
proof -
  assume d: "decode_output p = Inr (m, v)"
  then have len: "length p = 8" and m: "m = u32_at p 0" and v: "v = u32_at p 4"
    by (auto simp: decode_output_def wire_defs split: if_splits)
  have "to_le 4 m = get_at 0 4 p" "to_le 4 v = get_at 4 4 p"
    using len by (simp_all add: m v u32_at_get to_le_of_le)
  moreover have "get_at 0 4 p @ get_at 4 4 p = p"
    using len by (simp add: get_at_def)
  ultimately show ?thesis by (simp add: encode_output_def)
qed

section \<open>The report is carried exactly\<close>

lemma length_put_settings [simp]: "length (put_settings g c p) = length p"
  by (induction c arbitrary: g p) auto

lemma length_encode_pin_config [simp]: "length (encode_pin_config r) = 63"
  by (simp add: encode_pin_config_def Let_def wire_defs)

lemma nth_put_settings:
  assumes "length p = 63" "g + length c \<le> 30"
  shows "k < 3 + 2 * g \<Longrightarrow> put_settings g c p ! k = p ! k"
    "j < length c \<Longrightarrow> put_settings g c p ! (3 + 2 * (g + j)) = mode_u8 (mode (c ! j))"
    "j < length c \<Longrightarrow> put_settings g c p ! (4 + 2 * (g + j)) = param (c ! j)"
proof -
  have "k < 3 + 2 * g \<longrightarrow> put_settings g c p ! k = p ! k" for k
    by (induction c arbitrary: g p) (auto simp: wire_defs)
  then show outside: "k < 3 + 2 * g \<Longrightarrow> put_settings g c p ! k = p ! k" for k g c p
    by (induction c arbitrary: g p) (auto simp: wire_defs)
  have "j < length c \<longrightarrow> put_settings g c p ! (3 + 2 * (g + j)) = mode_u8 (mode (c ! j)) \<and>
      put_settings g c p ! (4 + 2 * (g + j)) = param (c ! j)"
    using assms
  proof (induction c arbitrary: g p j)
    case Nil
    then show ?case by simp
  next
    case (Cons s c)
    then show ?case
      using Cons.IH [of "p[3 + 2 * g := mode_u8 (mode s), 4 + 2 * g := param s]" "Suc g" "j - 1"]
      by (cases j) (auto simp: wire_defs outside)
  qed
  then show "j < length c \<Longrightarrow> put_settings g c p ! (3 + 2 * (g + j)) = mode_u8 (mode (c ! j))"
    "j < length c \<Longrightarrow> put_settings g c p ! (4 + 2 * (g + j)) = param (c ! j)"
    by auto
qed

lemma nth_encode_pin_config:
  assumes "wf_config (pcr_config r)"
  shows "encode_pin_config r ! 0 = pcr_result r" "encode_pin_config r ! 1 = result_gpio r"
    "encode_pin_config r ! 2 = request_id r"
    "g < 30 \<Longrightarrow> encode_pin_config r ! (3 + 2 * g) = mode_u8 (mode (pcr_config r ! g))"
    "g < 30 \<Longrightarrow> encode_pin_config r ! (4 + 2 * g) = param (pcr_config r ! g)"
proof -
  let ?p = "(replicate 63 0)[0 := pcr_result r, 1 := result_gpio r, 2 := request_id r]"
  have e: "encode_pin_config r = put_settings 0 (pcr_config r) ?p"
    by (simp add: encode_pin_config_def Let_def wire_defs)
  have l: "length ?p = 63" "0 + length (pcr_config r) \<le> 30"
    using wf_config_length [OF assms] by simp_all
  show "encode_pin_config r ! 0 = pcr_result r" "encode_pin_config r ! 1 = result_gpio r"
    "encode_pin_config r ! 2 = request_id r"
    unfolding e by (subst nth_put_settings(1) [OF l]; simp)+
  show "g < 30 \<Longrightarrow> encode_pin_config r ! (3 + 2 * g) = mode_u8 (mode (pcr_config r ! g))"
    "g < 30 \<Longrightarrow> encode_pin_config r ! (4 + 2 * g) = param (pcr_config r ! g)"
    using nth_put_settings(2,3) [OF l, of g] wf_config_length [OF assms] by (simp_all add: e)
qed

lemma decode_settings_length:
  "decode_settings p gs c = Inr c' \<Longrightarrow> length c' = length c"
  by (induction p gs c rule: decode_settings.induct) (auto simp: and_then_Inr_conv)

lemma decode_settings_nth:
  assumes "decode_settings p gs c = Inr c'" "distinct gs" "set gs \<subseteq> {0..<length c}" "g < length c"
  shows "if g \<in> set gs
    then mode_of_u8 (p ! (3 + 2 * g)) = Inr (mode (c' ! g)) \<and> param (c' ! g) = p ! (4 + 2 * g)
    else c' ! g = c ! g"
  using assms
proof (induction p gs c rule: decode_settings.induct)
  case (1 p config)
  then show ?case by simp
next
  case (2 p gpio rest config)
  then obtain m where m: "mode_of_u8 (p ! (3 + 2 * gpio)) = Inr m"
    and d: "decode_settings p rest (config[gpio := \<lparr>mode = m, param = p ! (4 + 2 * gpio)\<rparr>]) = Inr c'"
    by (auto simp: and_then_Inr_conv wire_defs)
  have IH: "if g \<in> set rest
    then mode_of_u8 (p ! (3 + 2 * g)) = Inr (mode (c' ! g)) \<and> param (c' ! g) = p ! (4 + 2 * g)
    else c' ! g = config[gpio := \<lparr>mode = m, param = p ! (4 + 2 * gpio)\<rparr>] ! g"
    using "2.IH" [of m] m d "2.prems" by (simp add: wire_defs)
  then show ?case using "2.prems" m by (auto simp: nth_list_update split: if_splits)
qed

lemma decode_settings_total:
  "\<forall>g \<in> set gs. p ! (3 + 2 * g) \<le> 4 \<Longrightarrow> \<exists>c'. decode_settings p gs c = Inr c'"
proof (induction p gs c rule: decode_settings.induct)
  case (1 p config)
  then show ?case by simp
next
  case (2 p gpio rest config)
  then have "p ! (3 + 2 * gpio) \<le> 4" by simp
  then obtain m where "mode_of_u8 (p ! (3 + 2 * gpio)) = Inr m"
    by (auto simp flip: mode_of_u8_defined)
  with 2 show ?case by (auto simp: wire_defs)
qed

lemma decode_settings_error:
  "\<exists>g \<in> set gs. \<not> p ! (3 + 2 * g) \<le> 4 \<Longrightarrow> \<exists>e. decode_settings p gs c = Inl e"
proof (induction p gs c rule: decode_settings.induct)
  case (1 p config)
  then show ?case by simp
next
  case (2 p gpio rest config)
  then show ?case
    using mode_of_u8_defined [of "p ! (3 + 2 * gpio)"]
    by (cases "mode_of_u8 (p ! (3 + 2 * gpio))") (auto simp: wire_defs)
qed

lemma decode_pin_config_fields:
  assumes "decode_pin_config p = Inr r"
  shows "length p = 63" "wf_config (pcr_config r)"
    "pcr_result r = p ! 0" "result_gpio r = p ! 1" "request_id r = p ! 2"
    "g < 30 \<Longrightarrow> mode_of_u8 (p ! (3 + 2 * g)) = Inr (mode (pcr_config r ! g))"
    "g < 30 \<Longrightarrow> param (pcr_config r ! g) = p ! (4 + 2 * g)"
proof -
  from assms have len: "length p = 63"
    and d: "decode_settings p [0..<30] unused_config = Inr (pcr_config r)"
    and f: "pcr_result r = p ! 0" "result_gpio r = p ! 1" "request_id r = p ! 2"
    by (auto simp: decode_pin_config_def wire_defs and_then_Inr_conv simp del: upt_rec_numeral
        split: if_splits)
  show "length p = 63" by (rule len)
  show "wf_config (pcr_config r)"
    using decode_settings_length [OF d] by (simp add: wf_config_def unused_config_def)
  show "pcr_result r = p ! 0" "result_gpio r = p ! 1" "request_id r = p ! 2" by (rule f)+
  have "if g \<in> set [0..<30]
    then mode_of_u8 (p ! (3 + 2 * g)) = Inr (mode (pcr_config r ! g)) \<and>
      param (pcr_config r ! g) = p ! (4 + 2 * g)
    else pcr_config r ! g = unused_config ! g" if "g < 30"
    using that by (intro decode_settings_nth [OF d]) (auto simp: wf_config_length [OF wf_unused])
  then show "g < 30 \<Longrightarrow> mode_of_u8 (p ! (3 + 2 * g)) = Inr (mode (pcr_config r ! g))"
    "g < 30 \<Longrightarrow> param (pcr_config r ! g) = p ! (4 + 2 * g)"
    by (simp_all del: upt_rec_numeral)
qed

lemma gpio_index_cases:
  fixes k :: nat
  assumes "k < 63"
  obtains "k = 0" | "k = 1" | "k = 2" | g where "g < 30" "k = 3 + 2 * g"
    | g where "g < 30" "k = 4 + 2 * g"
proof -
  have "k = 0 \<or> k = 1 \<or> k = 2 \<or> (\<exists>g < 30. k = 3 + 2 * g) \<or> (\<exists>g < 30. k = 4 + 2 * g)"
  proof (cases "k < 3")
    case True
    then show ?thesis by auto
  next
    case False
    have "k = 3 + 2 * ((k - 3) div 2) \<or> k = 4 + 2 * ((k - 3) div 2)"
      using False by presburger
    moreover have "(k - 3) div 2 < 30" using assms by auto
    ultimately show ?thesis by blast
  qed
  then show thesis using that by blast
qed

lemma decode_encode_pin_config:
  assumes wf: "wf_config (pcr_config r)"
  shows "decode_pin_config (encode_pin_config r) = Inr r"
proof -
  let ?p = "encode_pin_config r"
  have "\<forall>g \<in> set [0..<30]. ?p ! (3 + 2 * g) \<le> 4"
    using mode_of_u8_defined by (auto simp: nth_encode_pin_config(4) [OF wf] simp flip: mode_of_u8_defined)
  then obtain c where d: "decode_settings ?p [0..<30] unused_config = Inr c"
    using decode_settings_total by blast
  let ?r = "\<lparr>pcr_result = ?p ! 0, result_gpio = ?p ! 1, request_id = ?p ! 2, pcr_config = c\<rparr>"
  have dec: "decode_pin_config ?p = Inr ?r"
    using d by (simp add: decode_pin_config_def wire_defs)
  have "c = pcr_config r"
  proof (rule nth_equalityI)
    show "length c = length (pcr_config r)"
      using decode_pin_config_fields(2) [OF dec] wf_config_length [OF wf]
      by (simp add: wf_config_length)
  next
    fix g
    assume "g < length c"
    then have g: "g < 30"
      using decode_pin_config_fields(2) [OF dec] by (simp add: wf_config_length)
    then show "c ! g = pcr_config r ! g"
      using decode_pin_config_fields(6,7) [OF dec g] by (simp add: nth_encode_pin_config [OF wf])
  qed
  with dec show ?thesis by (simp add: nth_encode_pin_config [OF wf] del: One_nat_def)
qed

lemma encode_decode_pin_config:
  assumes "decode_pin_config p = Inr r"
  shows "encode_pin_config r = p"
proof (rule nth_equalityI)
  note f = decode_pin_config_fields [OF assms]
  show "length (encode_pin_config r) = length p" by (simp add: f(1))
  fix k
  assume "k < length (encode_pin_config r)"
  then have "k < 63" by simp
  then show "encode_pin_config r ! k = p ! k"
    by (cases rule: gpio_index_cases)
      (simp_all add: nth_encode_pin_config [OF f(2)] f(3-5) f(7) mode_u8_of [OF f(6)]
        del: One_nat_def)
qed

lemma decode_pin_config_defined:
  "(\<exists>r. decode_pin_config p = Inr r) \<longleftrightarrow> length p = 63 \<and> (\<forall>g < 30. p ! (3 + 2 * g) \<le> 4)"
proof
  assume "\<exists>r. decode_pin_config p = Inr r"
  then show "length p = 63 \<and> (\<forall>g < 30. p ! (3 + 2 * g) \<le> 4)"
    using decode_pin_config_fields mode_of_u8_defined by blast
next
  assume p: "length p = 63 \<and> (\<forall>g < 30. p ! (3 + 2 * g) \<le> 4)"
  then have "\<forall>g \<in> set [0..<30]. p ! (3 + 2 * g) \<le> 4" unfolding set_upt by simp
  then obtain c where "decode_settings p [0..<30] unused_config = Inr c"
    using decode_settings_total by blast
  with p show "\<exists>r. decode_pin_config p = Inr r"
    by (simp add: decode_pin_config_def wire_defs)
qed

section \<open>What validation accepts\<close>

text \<open>
  The rule of the protocol for one GPIO, as the result it is refused with, and the
  specification of a whole check: the first GPIO, in ascending order, that breaks a rule.
\<close>

definition gpio_error :: "u8 \<Rightarrow> u8 \<Rightarrow> bool \<Rightarrow> result_code option" where
  "gpio_error m prm is_available =
     (if 4 < m then Some BAD_MODE
      else if \<not> is_available \<and> m \<noteq> 0 then Some UNAVAILABLE_GPIO
      else if m = 0 \<and> prm \<noteq> 0 then Some UNUSED_WITH_PARAM
      else if m = 4 \<and> 1 < prm then Some BAD_OUTPUT_LEVEL
      else None)"

definition payload_error :: "bytes \<Rightarrow> u32 \<Rightarrow> nat \<Rightarrow> result_code option" where
  "payload_error p avail g = gpio_error (p ! (3 + 2 * g)) (p ! (4 + 2 * g)) (bit avail g)"

definition first_error :: "(nat \<Rightarrow> result_code option) \<Rightarrow> nat list \<Rightarrow> result_code \<times> u8" where
  "first_error err gs = (case find (\<lambda>g. err g \<noteq> None) gs of
     None \<Rightarrow> (RESULT_OK, RESULT_GPIO_NONE) | Some g \<Rightarrow> (the (err g), word_of_nat g))"

lemma validate_gpios_first_error:
  "validate_gpios p avail gs = first_error (payload_error p avail) gs"
proof (induction gs)
  case Nil
  then show ?case by (simp add: first_error_def)
next
  case (Cons g gs)
  have "drop_bit g avail AND 1 = 0 \<longleftrightarrow> \<not> bit avail g" using drop_bit_and_1 by blast
  with Cons show ?case
    by (simp add: first_error_def payload_error_def gpio_error_def Let_def mode_u8_def wire_defs)
qed

lemma validate_payload_first_error:
  "length p = 63 \<Longrightarrow> validate_pin_config_payload p avail =
     (case first_error (payload_error p avail) [0..<30] of (r, g) \<Rightarrow> (r, g, p ! 2))"
  by (simp add: validate_pin_config_payload_def validate_gpios_first_error wire_defs
      del: upt_rec_numeral)

lemma gpio_error_codes: "gpio_error m prm a = Some r \<Longrightarrow> r \<noteq> RESULT_OK"
  by (auto simp: gpio_error_def wire_defs split: if_splits)

lemma first_error_OK:
  assumes "\<And>g r. err g = Some r \<Longrightarrow> r \<noteq> RESULT_OK"
  shows "fst (first_error err gs) = RESULT_OK \<longleftrightarrow> (\<forall>g \<in> set gs. err g = None)"
proof (induction gs)
  case Nil
  then show ?case by (simp add: first_error_def)
next
  case (Cons g gs)
  then show ?case using assms [of g] by (cases "err g") (auto simp: first_error_def)
qed

lemma first_error_cong:
  "(\<And>g. g \<in> set gs \<Longrightarrow> e g = f g) \<Longrightarrow> first_error e gs = first_error f gs"
  by (induction gs) (auto simp: first_error_def)

text \<open>The settings a board with the given GPIOs accepts.\<close>

definition setting_ok :: "bool \<Rightarrow> pin_setting \<Rightarrow> bool" where
  "setting_ok is_available s \<longleftrightarrow>
     (mode s = Unused \<longrightarrow> param s = 0) \<and> (mode s \<noteq> Unused \<longrightarrow> is_available) \<and>
     (mode s = Output \<longrightarrow> param s \<le> 1)"

definition config_ok :: "u32 \<Rightarrow> pin_config \<Rightarrow> bool" where
  "config_ok avail c \<longleftrightarrow> list_all (\<lambda>g. setting_ok (bit avail g) (c ! g)) [0..<30]"

lemma gpio_error_setting: "gpio_error (mode_u8 (mode s)) (param s) a = None \<longleftrightarrow> setting_ok a s"
  by (cases "mode s") (auto simp: gpio_error_def setting_ok_def mode_u8_def)

lemma config_ok_nth: "config_ok avail c \<longleftrightarrow> (\<forall>g < 30. setting_ok (bit avail g) (c ! g))"
  unfolding config_ok_def list_all_iff set_upt by auto

lemma validate_pin_config_first_error:
  assumes wf: "wf_config c"
  shows "validate_pin_config c avail = first_error
    (\<lambda>g. if g < 30 then gpio_error (mode_u8 (mode (c ! g))) (param (c ! g)) (bit avail g) else None)
    [0..<30]"
proof -
  let ?r = "\<lparr>pcr_result = RESULT_OK, result_gpio = RESULT_GPIO_NONE, request_id = 1, pcr_config = c\<rparr>"
  let ?e = "payload_error (encode_pin_config ?r) avail"
  let ?f = "\<lambda>g. if g < 30 then gpio_error (mode_u8 (mode (c ! g))) (param (c ! g)) (bit avail g) else None"
  have "first_error ?e [0..<30] = first_error ?f [0..<30]"
    using wf by (intro first_error_cong)
      (auto simp: payload_error_def nth_encode_pin_config(4,5) simp del: upt_rec_numeral)
  then show ?thesis
    by (simp add: validate_pin_config_def Let_def validate_payload_first_error
        del: upt_rec_numeral split: prod.split)
qed

lemma validate_pin_config_OK:
  assumes "wf_config c"
  shows "fst (validate_pin_config c avail) = RESULT_OK \<longleftrightarrow> config_ok avail c"
  unfolding validate_pin_config_first_error [OF assms]
  by (subst first_error_OK)
    (auto simp: config_ok_nth gpio_error_setting dest: gpio_error_codes split: if_splits
      simp del: upt_rec_numeral)

lemma validate_payload_decodable:
  assumes "fst (validate_pin_config_payload p avail) = RESULT_OK"
  shows "\<exists>r. decode_pin_config p = Inr r \<and> config_ok avail (pcr_config r)"
proof -
  have len: "length p = 63"
    using assms
    by (auto simp: validate_pin_config_payload_def Let_def wire_defs split: if_splits)
  have "fst (first_error (payload_error p avail) [0..<30]) = RESULT_OK"
    using assms by (simp add: validate_payload_first_error [OF len] split: prod.splits
        del: upt_rec_numeral)
  then have ok: "payload_error p avail g = None" if "g < 30" for g
    using that by (subst (asm) first_error_OK)
      (auto simp: payload_error_def dest: gpio_error_codes simp del: upt_rec_numeral)
  then have "\<forall>g < 30. p ! (3 + 2 * g) \<le> 4"
    by (force simp: payload_error_def gpio_error_def not_less split: if_splits)
  then obtain r where r: "decode_pin_config p = Inr r"
    using len decode_pin_config_defined by blast
  have "setting_ok (bit avail g) (pcr_config r ! g)" if "g < 30" for g
    using ok [OF that] mode_u8_of [OF decode_pin_config_fields(6) [OF r that]]
      decode_pin_config_fields(7) [OF r that]
    by (simp add: payload_error_def flip: gpio_error_setting)
  with r show ?thesis by (auto simp: config_ok_nth)
qed

lemma validate_request_id: "snd (snd (validate_pin_config_payload p avail)) =
    (if 2 < length p then p ! 2 else 0)"
  by (simp add: validate_pin_config_payload_def Let_def split: prod.split)

lemma validate_payload_config:
  assumes "wf_config (pcr_config r)"
  shows "validate_pin_config_payload (encode_pin_config r) avail =
    (case validate_pin_config (pcr_config r) avail of (res, g) \<Rightarrow> (res, g, request_id r))"
proof -
  let ?f = "\<lambda>r'. first_error (payload_error (encode_pin_config r') avail) [0..<30]"
  let ?r1 = "\<lparr>pcr_result = RESULT_OK, result_gpio = RESULT_GPIO_NONE, request_id = 1,
    pcr_config = pcr_config r\<rparr>"
  have "?f r = ?f ?r1"
    using assms by (intro first_error_cong)
      (auto simp: payload_error_def nth_encode_pin_config(4,5) simp del: upt_rec_numeral)
  then show ?thesis
    using assms
    by (simp add: validate_pin_config_def Let_def validate_payload_first_error
        nth_encode_pin_config(3) split: prod.split del: upt_rec_numeral)
qed

section \<open>The codecs meet the contract\<close>

interpretation pins: codec "\<lambda>r. Inr (encode_pin_config r)" decode_pin_config
  "\<lambda>r. wf_config (pcr_config r)" "\<lambda>p. length p = 63 \<and> (\<forall>g < 30. p ! (3 + 2 * g) \<le> 4)" 63
proof unfold_locales
  show "\<exists>r. decode_pin_config p = Inr r \<and> Inr (encode_pin_config r) = (Inr p :: bytes result)"
    if "length p = 63 \<and> (\<forall>g < 30. p ! (3 + 2 * g) \<le> 4)" for p
    using that decode_pin_config_defined encode_decode_pin_config by blast
qed (auto simp: decode_encode_pin_config dest: decode_pin_config_fields(1))

interpretation out: codec "\<lambda>(m, v). Inr (encode_output m v)" decode_output "\<lambda>_. True"
  "\<lambda>p. length p = 8" 8
proof unfold_locales
  show "\<exists>x. decode_output p = Inr x \<and> (case x of (m, v) \<Rightarrow> Inr (encode_output m v)) = (Inr p :: bytes result)"
    if p8: "length p = 8" for p
  proof -
    obtain m v where "decode_output p = Inr (m, v)"
      using p8 by (auto simp: decode_output_def wire_defs)
    then show ?thesis using encode_decode_output by auto
  qed
  show "length p = 8" if "decode_output p = Inr x" for p x
    using that by (auto simp: decode_output_def wire_defs split: if_splits)
qed (auto simp: decode_encode_output)

end
