(* ===== verification/Protocol_Theorems.thy ===== *)
theory Protocol_Theorems
  imports Protocol_Report
begin

text \<open>
  What the wire format promises, over the definitions of the protocol theories: each report
  is carried exactly, decoders reject everything else, and a configuration is accepted
  exactly when it is valid for the board. The proofs are the lemmas of the codecs, reached
  through their interpretations of the locale \<open>codec\<close>.
\<close>

section \<open>Reports are carried exactly\<close>

text \<open>C28: A status report that fits the format is encoded to 63 bytes that decode to it.\<close>

theorem status_roundtrip:
  assumes "status_encodable r"
  shows "\<exists>p. encode_status r = Inr p \<and> length p = 63 \<and> decode_status p = Inr r"
  using status.dec_enc [OF assms] status.enc_width by blast

definition sample_report :: status_report where
  "sample_report = \<lparr>seq = 7, sr_reason = LEVEL_CHANGED, sr_flags = 0, monitored = 3, outputs = 4,
     levels = 1, timestamp_us = 5000,
     events = [\<lparr>ev_gpio = 1, ev_level = False, age_us = 20000\<rparr>]\<rparr>"

lemma sample_encodable: "status_encodable sample_report"
  by (simp add: sample_report_def status_encodable_def wire_defs)

theorem status_roundtrip_witness:
  "\<exists>p. encode_status sample_report = Inr p \<and> length p = 63 \<and> decode_status p = Inr sample_report"
  by (rule status_roundtrip [OF sample_encodable])

text \<open>A payload is decoded exactly when it has 63 bytes and announces at most 7 events;
  then the report fits the format, so that it can be encoded again.\<close>

theorem status_decodable:
  "(\<exists>r. decode_status p = Inr r \<and> status_encodable r) \<longleftrightarrow> length p = 63 \<and> p ! 4 \<le> 7"
  using decode_status_encodable [of p]
  by (auto simp: decode_status_def wire_defs Let_def word_le_nat_alt split: if_splits)

text \<open>Two payloads without reserved bits that decode to the same status report are equal.\<close>

theorem status_decode_injective:
  assumes "status_canonical p" "status_canonical q" "decode_status p = decode_status q"
  shows "p = q"
  by (rule status.dec_inject [OF assms])

theorem status_decode_injective_witness:
  "replicate 63 0 = (replicate 63 0 :: bytes)"
proof (rule status_decode_injective)
  show "status_canonical (replicate 63 0)" "status_canonical (replicate 63 0)"
    unfolding status_canonical_def list_all_iff Ball_def set_upt atLeastLessThan_iff by simp_all
qed (rule refl)

text \<open>C29: The device information read back is the one sent; the board name is cut at its
  40 bytes, ends at the first 0, and has bytes outside ASCII replaced.\<close>

theorem device_info_roundtrip:
  "decode_device_info (encode_device_info i) =
     Inr (i\<lparr>sdk_board := ascii_lossy (takeWhile (\<lambda>b. b \<noteq> 0) (take 40 (as_bytes (sdk_board i))))\<rparr>)"
  by (rule decode_encode_device_info)

text \<open>C30: The decoder of the pin configuration report accepts exactly the encodings of the
  reports with 30 settings, and returns the report that was encoded.\<close>

theorem pin_config_codec:
  "decode_pin_config p = Inr r \<longleftrightarrow> wf_config (pcr_config r) \<and> p = encode_pin_config r"
  using decode_encode_pin_config encode_decode_pin_config decode_pin_config_fields(2) by metis

text \<open>The decoder of the output command accepts exactly the 8 byte encodings.\<close>

theorem output_codec: "decode_output p = Inr (m, v) \<longleftrightarrow> p = encode_output m v"
  using decode_encode_output encode_decode_output by metis

section \<open>Validation\<close>

text \<open>C31: Validation accepts a configuration exactly when every setting suits its GPIO: unused
  pins have no parameter, only available GPIOs are used, and an output starts at 0 or 1. It
  answers with the first GPIO that breaks a rule and the rule, in the order of the sources.\<close>

theorem validation_exact:
  assumes "wf_config c"
  shows "(fst (validate_pin_config c avail) = RESULT_OK \<longleftrightarrow> config_ok avail c) \<and>
    validate_pin_config c avail = first_error
      (\<lambda>g. if g < 30 then gpio_error (mode_u8 (mode (c ! g))) (param (c ! g)) (bit avail g)
           else None) [0..<30]"
  using validate_pin_config_OK [OF assms] validate_pin_config_first_error [OF assms] by blast

theorem validation_exact_witness:
  "fst (validate_pin_config unused_config 0) = RESULT_OK \<longleftrightarrow> config_ok 0 unused_config"
  using validation_exact [OF wf_unused] by blast

text \<open>C32: A payload the device accepts can be decoded, and what is decoded obeys the rules, so
  that the device's \<open>expect\<close> on the decoder cannot fail.\<close>

theorem accepted_payload_decodes:
  assumes "fst (validate_pin_config_payload p avail) = RESULT_OK"
  shows "\<exists>r. decode_pin_config p = Inr r \<and> config_ok avail (pcr_config r)"
  by (rule validate_payload_decodable [OF assms])

definition unused_report :: pin_config_report where
  "unused_report = \<lparr>pcr_result = RESULT_OK, result_gpio = RESULT_GPIO_NONE, request_id = 1,
     pcr_config = unused_config\<rparr>"

lemma unused_ok: "config_ok a unused_config"
  by (simp add: config_ok_nth setting_ok_def unused_setting_def)

theorem accepted_payload_decodes_witness:
  "\<exists>r. decode_pin_config (encode_pin_config unused_report) = Inr r \<and> config_ok 0 (pcr_config r)"
proof (rule accepted_payload_decodes)
  have "fst (validate_pin_config unused_config 0) = RESULT_OK"
    using validate_pin_config_OK [OF wf_unused] unused_ok by blast
  then show "fst (validate_pin_config_payload (encode_pin_config unused_report) 0) = RESULT_OK"
    by (cases "validate_pin_config unused_config 0")
      (simp add: validate_payload_config unused_report_def)
qed

text \<open>The configuration of a board without a host monitors exactly its GPIOs, drives
  none, and passes the board's own validation.\<close>

theorem default_config_valid:
  "fst (validate_pin_config (default_for a) a) = RESULT_OK \<and>
   monitored_mask (default_for a) = a AND ALL_GPIOS \<and> outputs_mask (default_for a) = 0"
proof (intro conjI)
  have "config_ok a (default_for a)"
    by (simp add: config_ok_nth nth_default setting_ok_def unused_setting_def pull_up_def)
  then show "fst (validate_pin_config (default_for a) a) = RESULT_OK"
    using validate_pin_config_OK [OF wf_default] by blast
  have all: "bit (ALL_GPIOS :: u32) n \<longleftrightarrow> n < 30" for n
    using bit_mask_iff [of 30 n, where 'a = u32]
    by (auto simp: ALL_GPIOS_eq mask_eq_exp_minus_1)
  show "monitored_mask (default_for a) = a AND ALL_GPIOS"
    by (rule bit_word_eqI)
      (auto simp: bit_monitored_mask nth_default bit_and_iff all is_monitored_def is_input_def
        unused_setting_def pull_up_def split: if_splits)
  show "outputs_mask (default_for a) = 0"
    by (rule bit_word_eqI)
      (auto simp: bit_outputs_mask nth_default is_output_def unused_setting_def pull_up_def
        split: if_splits)
qed

text \<open>Setting pins one after the other fails exactly when one of them is outside 0-29, and
  otherwise each pin has the last setting given for it and every other pin keeps its own.\<close>

theorem with_pins_result:
  assumes "wf_config c"
  shows "(case with_pins c ps of
      Inl e \<Rightarrow> \<exists>(g, s) \<in> set ps. 30 \<le> unat g
    | Inr c' \<Rightarrow> wf_config c' \<and> list_all (\<lambda>(g, s). unat g < 30) ps \<and>
        (\<forall>n < 30. c' ! n = (case map_of (rev ps) (word_of_nat n) of None \<Rightarrow> c ! n | Some s \<Rightarrow> s)))"
proof (cases "with_pins c ps")
  case (Inl e)
  then show ?thesis using with_pins_error [of c ps] by simp
next
  case (Inr c')
  then have "\<not> (\<exists>(g, s) \<in> set ps. 30 \<le> unat g)" using with_pins_error [of c ps] by simp
  then show ?thesis
    using Inr with_pins_wf [OF Inr assms] with_pins_nth [OF Inr assms] by (auto simp: list_all_iff)
qed

theorem with_pins_result_witness:
  "case with_pins unused_config [(3, output_setting True)] of
     Inl e \<Rightarrow> False | Inr c' \<Rightarrow> wf_config c'"
  using with_pins_result [OF wf_unused, of "[(3, output_setting True)]"]
  by (auto split: sum.splits)

end
