(* ===== verification/Xorshift.thy ===== *)
theory Xorshift
  imports Hidpin_Prelude
begin

text \<open>
  The generator of request ids, \<open>RequestIds\<close> of \<open>rust/src/device.rs\<close>: a 64-bit xorshift
  with shifts 13, 7 and 17. A write of the pin configuration draws ids until one differs
  from the last, so that the call returns at all depends on the generator. This theory
  proves that the generator has the full period \<open>2 ^ 64 - 1\<close> on the nonzero words, hence
  reaches every nonzero word from every other one.

  The step is linear over GF(2), so a power of it applied to the word 1 is a polynomial in
  the step applied to 1. A polynomial is a list of bits, low degree first; products are
  reduced by the relation \<open>T ^ 64 = reduction(T)\<close>. The orders to exclude are computed with
  such products by the simplifier.
\<close>

section \<open>The step\<close>

definition xs_step :: "u64 \<Rightarrow> u64" where
  "xs_step x =
     (let x = x XOR push_bit 13 x;
          x = x XOR drop_bit 7 x
      in x XOR push_bit 17 x)"

lemma xs_step_0 [simp]: "xs_step 0 = 0"
  by (simp add: xs_step_def)

lemma xs_step_xor: "xs_step (x XOR y) = xs_step x XOR xs_step y"
  by (simp add: xs_step_def Let_def push_bit_xor drop_bit_xor ac_simps)

lemma funpow_step_0 [simp]: "(xs_step ^^ n) 0 = 0"
  by (induction n) auto

lemma funpow_step_xor: "(xs_step ^^ n) (x XOR y) = (xs_step ^^ n) x XOR (xs_step ^^ n) y"
  by (induction n) (auto simp: xs_step_xor)

section \<open>Polynomials in the step\<close>

fun pev :: "bool list \<Rightarrow> u64 \<Rightarrow> u64" where
  "pev [] v = 0"
| "pev (b # bs) v = (if b then v else 0) XOR pev bs (xs_step v)"

lemma pev_step: "pev q (xs_step v) = xs_step (pev q v)"
  by (induction q arbitrary: v) (auto simp: xs_step_xor)

lemma pev_funpow: "pev q ((xs_step ^^ n) v) = (xs_step ^^ n) (pev q v)"
  by (induction n) (auto simp: pev_step)

lemma pev_xor: "pev q (v XOR w) = pev q v XOR pev q w"
  by (induction q arbitrary: v w) (auto simp: xs_step_xor ac_simps)

lemma pev_zero [simp]: "pev q 0 = 0"
  by (induction q) auto

fun xl :: "bool list \<Rightarrow> bool list \<Rightarrow> bool list" where
  "xl [] bs = bs"
| "xl (a # as) [] = a # as"
| "xl (a # as) (b # bs) = (if a then \<not> b else b) # xl as bs"

lemma pev_xl: "pev (xl a b) v = pev a v XOR pev b v"
  by (induction a b arbitrary: v rule: xl.induct) (auto simp: ac_simps)

lemma length_xl [simp]: "length (xl a b) = max (length a) (length b)"
  by (induction a b rule: xl.induct) auto

datatype bits = Leaf bool | Node bits bits

primrec flat :: "bits \<Rightarrow> bool list" where
  "flat (Leaf b) = [b]"
| "flat (Node l r) = flat l @ flat r"

abbreviation nib :: "bool \<Rightarrow> bool \<Rightarrow> bool \<Rightarrow> bool \<Rightarrow> bits" where
  "nib a b c d \<equiv> Node (Node (Leaf a) (Leaf b)) (Node (Leaf c) (Leaf d))"

definition reduction_tree :: bits where
  "reduction_tree =
     Node
        (Node
           (Node (Node (nib True False False False) (nib False False False False))
                 (Node (nib False True False False) (nib True True False False)))
           (Node (Node (nib True False False False) (nib True False False True))
                 (Node (nib False False False True) (nib True False True False))))
        (Node
           (Node (Node (nib True True False False) (nib False True False True))
                 (Node (nib False False True False) (nib True False True True)))
           (Node (Node (nib False True True True) (nib True True False False))
                 (Node (nib True False False False) (nib False False False False))))"

definition reduction :: "bool list" where
  "reduction = flat reduction_tree"

lemma pev_append: "pev (p @ q) v = pev p v XOR pev q ((xs_step ^^ length p) v)"
proof (induction p arbitrary: v)
  case Nil
  then show ?case by simp
next
  case (Cons a p)
  then show ?case by (simp add: funpow_swap1 ac_simps)
qed

lemma length_reduction [simp]: "length reduction = 64"
  by (simp add: reduction_def reduction_tree_def)

section \<open>Concrete words as lists of bits\<close>

text \<open>The step on lists of 64 bits, low bit first, on which closed terms evaluate.\<close>

primrec word_of :: "bool list \<Rightarrow> u64" where
  "word_of [] = 0"
| "word_of (b # bs) = (if b then 1 else 0) OR push_bit 1 (word_of bs)"

definition shl :: "nat \<Rightarrow> bool list \<Rightarrow> bool list" where
  "shl n bs = replicate n False @ take (length bs - n) bs"

definition shr :: "nat \<Rightarrow> bool list \<Rightarrow> bool list" where
  "shr n bs = drop n bs @ replicate n False"

definition lxor_shl :: "nat \<Rightarrow> bool list \<Rightarrow> bool list" where
  "lxor_shl n x = xl x (shl n x)"

definition lxor_shr :: "nat \<Rightarrow> bool list \<Rightarrow> bool list" where
  "lxor_shr n x = xl x (shr n x)"

definition lstep :: "bool list \<Rightarrow> bool list" where
  "lstep x = lxor_shl 17 (lxor_shr 7 (lxor_shl 13 x))"

lemma bit_word_of: "bit (word_of bs) n \<longleftrightarrow> n < 64 \<and> n < length bs \<and> bs ! n"
proof (induction bs arbitrary: n)
  case Nil
  then show ?case by simp
next
  case (Cons b bs)
  show ?case
  proof (cases n)
    case 0
    then show ?thesis by (auto simp: bit_or_iff bit_push_bit_iff simp del: push_bit_Suc push_bit_of_1)
  next
    case (Suc m)
    have "bit (word_of (b # bs)) n \<longleftrightarrow> n < 64 \<and> bit (word_of bs) m"
      using bit_imp_le_length [of "word_of bs" m] bit_imp_le_length [of "word_of (b # bs)" n]
      unfolding word_of.simps bit_or_iff bit_push_bit_iff Suc by (auto simp: bit_1_iff)
    then show ?thesis by (auto simp: Cons Suc)
  qed
qed

lemma word_of_inject: "length a = 64 \<Longrightarrow> length b = 64 \<Longrightarrow> word_of a = word_of b \<longleftrightarrow> a = b"
proof
  assume "length a = 64" "length b = 64" "word_of a = word_of b"
  then show "a = b"
    by (intro nth_equalityI) (metis bit_word_of)+
qed simp

lemma nth_xl: "length a = length b \<Longrightarrow> n < length a \<Longrightarrow> xl a b ! n \<longleftrightarrow> a ! n \<noteq> b ! n"
proof (induction a b arbitrary: n rule: xl.induct)
  case (3 a as b bs)
  then show ?case by (cases n) auto
qed auto

lemma word_of_xl: "length a = 64 \<Longrightarrow> length b = 64 \<Longrightarrow> word_of (xl a b) = word_of a XOR word_of b"
  by (intro bit_word_eqI) (auto simp: bit_word_of bit_xor_iff nth_xl)

lemma length_shl [simp]: "n \<le> length a \<Longrightarrow> length (shl n a) = length a"
  by (simp add: shl_def)

lemma length_shr [simp]: "n \<le> length a \<Longrightarrow> length (shr n a) = length a"
  by (simp add: shr_def)

lemma word_of_shl: "length a = 64 \<Longrightarrow> n \<le> 64 \<Longrightarrow> word_of (shl n a) = push_bit n (word_of a)"
  by (intro bit_word_eqI) (auto simp: bit_word_of bit_push_bit_iff shl_def nth_append)

lemma word_of_shr: "length a = 64 \<Longrightarrow> n \<le> 64 \<Longrightarrow> word_of (shr n a) = drop_bit n (word_of a)"
  by (intro bit_word_eqI) (auto simp: bit_word_of bit_drop_bit_eq shr_def nth_append)

lemma length_lstep [simp]: "length a = 64 \<Longrightarrow> length (lstep a) = 64"
  by (simp add: lstep_def lxor_shl_def lxor_shr_def)

lemma word_of_lstep: "length a = 64 \<Longrightarrow> word_of (lstep a) = xs_step (word_of a)"
  by (simp add: lstep_def lxor_shl_def lxor_shr_def xs_step_def Let_def word_of_xl word_of_shl word_of_shr)

fun lpev :: "bool list \<Rightarrow> bool list \<Rightarrow> bool list" where
  "lpev [] v = replicate 64 False"
| "lpev (b # bs) v = (if b then xl v (lpev bs (lstep v)) else lpev bs (lstep v))"

lemma length_lpev [simp]: "length v = 64 \<Longrightarrow> length (lpev q v) = 64"
  by (induction q arbitrary: v) auto

lemma word_of_zeros [simp]: "word_of (replicate n False) = 0"
  by (induction n) auto

lemma word_of_lpev: "length v = 64 \<Longrightarrow> word_of (lpev q v) = pev q (word_of v)"
  by (induction q arbitrary: v) (auto simp: word_of_xl word_of_lstep)

definition one_bits :: "bool list" where
  "one_bits = True # replicate 63 False"

lemma one_bits [simp]: "length one_bits = 64" "word_of one_bits = 1"
  by (simp_all add: one_bits_def)

fun lsteps :: "nat \<Rightarrow> bool list \<Rightarrow> bool list" where
  "lsteps 0 v = v"
| "lsteps (Suc n) v = lsteps n (lstep v)"

lemma word_of_lsteps: "length v = 64 \<Longrightarrow> word_of (lsteps n v) = (xs_step ^^ n) (word_of v)"
  by (induction n arbitrary: v) (auto simp: word_of_lstep funpow_swap1)

lemma length_lsteps [simp]: "length v = 64 \<Longrightarrow> length (lsteps n v) = 64"
  by (induction n arbitrary: v) auto

text \<open>The relation the reduction uses, checked on the word 1.\<close>

lemma lsteps_64: "lsteps 64 one_bits = lpev reduction one_bits"
  by code_simp

lemma step_64: "(xs_step ^^ 64) 1 = pev reduction 1"
  using word_of_lsteps [of one_bits 64] word_of_lpev [of one_bits reduction] lsteps_64 by simp

section \<open>Products\<close>

definition orbit :: "nat \<Rightarrow> u64" where
  "orbit n = (xs_step ^^ n) 1"

lemma step_orbit: "xs_step (orbit n) = orbit (Suc n)"
  by (simp add: orbit_def)

lemma funpow_orbit: "(xs_step ^^ m) (orbit n) = orbit (m + n)"
  by (simp add: orbit_def funpow_add)

lemma step_64_orbit: "(xs_step ^^ 64) (orbit n) = pev reduction (orbit n)"
proof -
  have "(xs_step ^^ 64) (orbit n) = (xs_step ^^ n) ((xs_step ^^ 64) 1)"
    by (simp add: orbit_def add.commute flip: funpow_add [unfolded o_def, THEN fun_cong])
  then show ?thesis by (simp add: step_64 pev_funpow orbit_def)
qed

text \<open>
  For products, the 64 bits stand at the leaves of a balanced tree, which keeps the
  terms the simplifier rebuilds small.
\<close>

primrec full :: "nat \<Rightarrow> bits \<Rightarrow> bool" where
  "full n (Leaf b) = (n = 0)"
| "full n (Node l r) = (case n of 0 \<Rightarrow> False | Suc m \<Rightarrow> full m l \<and> full m r)"

fun bxor :: "bits \<Rightarrow> bits \<Rightarrow> bits" where
  "bxor (Leaf a) (Leaf b) = Leaf (if a then \<not> b else b)"
| "bxor (Node l r) (Node l' r') = Node (bxor l l') (bxor r r')"
| "bxor (Leaf a) (Node l r) = Leaf a"
| "bxor (Node l r) (Leaf b) = Node l r"

primrec top_bit :: "bits \<Rightarrow> bool" where
  "top_bit (Leaf a) = a"
| "top_bit (Node l r) = top_bit r"

fun shift1 :: "bool \<Rightarrow> bits \<Rightarrow> bits" where
  "shift1 c (Leaf a) = Leaf c"
| "shift1 c (Node l r) = Node (shift1 c l) (shift1 (top_bit l) r)"

definition add_if :: "bool \<Rightarrow> bits \<Rightarrow> bits \<Rightarrow> bits" where
  "add_if a b r = (if a then bxor b r else r)"

definition mulx :: "bits \<Rightarrow> bits" where
  "mulx t = add_if (top_bit t) reduction_tree (shift1 False t)"

fun hmul :: "bits \<Rightarrow> bits \<Rightarrow> bits \<Rightarrow> bits" where
  "hmul acc (Leaf a) b = add_if a b (mulx acc)"
| "hmul acc (Node l r) b = hmul (hmul acc r b) l b"

primrec zero_tree :: "nat \<Rightarrow> bits" where
  "zero_tree 0 = Leaf False"
| "zero_tree (Suc n) = Node (zero_tree n) (zero_tree n)"

definition mul :: "bits \<Rightarrow> bits \<Rightarrow> bits" where
  "mul a b = hmul (zero_tree 6) a b"

lemma length_flat: "full n t \<Longrightarrow> length (flat t) = 2 ^ n"
  by (induction t arbitrary: n) (auto split: nat.splits)

lemma length_flat_6: "full 6 t \<Longrightarrow> length (flat t) = 64"
  using length_flat [of 6 t] by simp

lemma xl_append: "length a = length b \<Longrightarrow> xl (a @ c) (b @ d) = xl a b @ xl c d"
  by (induction a b rule: xl.induct) auto

lemma flat_bxor: "full n a \<Longrightarrow> full n b \<Longrightarrow> flat (bxor a b) = xl (flat a) (flat b)"
proof (induction a b arbitrary: n rule: bxor.induct)
  case (2 l r l' r')
  then show ?case by (auto simp: xl_append length_flat split: nat.splits)
qed auto

lemma full_bxor [simp]: "full n a \<Longrightarrow> full n b \<Longrightarrow> full n (bxor a b)"
  by (induction a b arbitrary: n rule: bxor.induct) (auto split: nat.splits)

lemma flat_shift1: "flat (shift1 c t) @ [top_bit t] = c # flat t"
proof (induction t arbitrary: c)
  case (Node l r)
  have "flat (shift1 c l) @ flat (shift1 (top_bit l) r) @ [top_bit r]
      = (flat (shift1 c l) @ [top_bit l]) @ flat r"
    by (simp add: Node)
  then show ?case by (simp add: Node)
qed auto

lemma full_shift1 [simp]: "full n t \<Longrightarrow> full n (shift1 c t)"
  by (induction t arbitrary: c n) (auto split: nat.splits)

lemma full_reduction_tree [simp]: "full 6 reduction_tree"
  by (simp add: reduction_tree_def eval_nat_numeral)

lemma full_mulx [simp]: "full 6 t \<Longrightarrow> full 6 (mulx t)"
  by (simp add: mulx_def add_if_def)

lemma full_hmul [simp]: "full 6 acc \<Longrightarrow> full 6 b \<Longrightarrow> full 6 (hmul acc t b)"
  by (induction acc t b rule: hmul.induct) (auto simp: add_if_def)

lemma full_zero_tree [simp]: "full n (zero_tree n)"
  by (induction n) auto

lemma full_mul [simp]: "full 6 b \<Longrightarrow> full 6 (mul a b)"
  by (simp add: mul_def)

lemma pev_mulx:
  assumes "full 6 t"
  shows "pev (flat (mulx t)) (orbit n) = pev (flat t) (orbit (Suc n))"
proof -
  have "pev (flat (shift1 False t) @ [top_bit t]) (orbit n) = pev (flat t) (orbit (Suc n))"
    by (simp add: flat_shift1 step_orbit)
  moreover have "pev [top_bit t] ((xs_step ^^ 64) (orbit n)) =
      (if top_bit t then pev reduction (orbit n) else 0)"
    by (simp add: step_64_orbit)
  ultimately show ?thesis
    using assms by (auto simp: mulx_def add_if_def pev_append length_flat_6 flat_bxor [of 6] pev_xl
        reduction_def xor.commute)
qed

lemma pev_hmul:
  assumes "full 6 acc" "full 6 b"
  shows "pev (flat (hmul acc t b)) (orbit n) =
    pev (flat acc) (orbit (length (flat t) + n)) XOR pev (flat t) (pev (flat b) (orbit n))"
  using assms
proof (induction acc t b arbitrary: n rule: hmul.induct)
  case (1 acc a b)
  then show ?case by (simp add: add_if_def flat_bxor [of 6] pev_xl pev_mulx xor.commute)
next
  case (2 acc l r b)
  let ?n = "length (flat l) + n"
  have "pev (flat r) (pev (flat b) (orbit ?n)) =
      pev (flat r) ((xs_step ^^ length (flat l)) (pev (flat b) (orbit n)))"
    by (simp add: pev_funpow flip: funpow_orbit)
  with 2 show ?case by (simp add: pev_append ac_simps)
qed

lemma flat_zero_tree: "flat (zero_tree n) = replicate (2 ^ n) False"
  by (induction n) (auto simp: mult_2 replicate_add)

lemma pev_zeros [simp]: "pev (replicate k False) v = 0"
  by (induction k arbitrary: v) auto

lemma pev_mul:
  "full 6 b \<Longrightarrow> pev (flat (mul a b)) (orbit n) = pev (flat a) (pev (flat b) (orbit n))"
  by (simp add: mul_def pev_hmul flat_zero_tree)

text \<open>\<open>q\<close> represents the \<open>n\<close>-th power of the step on the orbit of 1.\<close>

definition rep :: "bits \<Rightarrow> nat \<Rightarrow> bool" where
  "rep q n \<longleftrightarrow> full 6 q \<and> pev (flat q) 1 = orbit n"

lemma rep_orbit: "rep q n \<Longrightarrow> pev (flat q) (orbit m) = orbit (n + m)"
  by (simp add: rep_def orbit_def pev_funpow add.commute
      flip: funpow_add [unfolded o_def, THEN fun_cong])

lemma rep_mul: "rep a m \<Longrightarrow> rep b n \<Longrightarrow> rep (mul a b) (m + n)"
  using pev_mul [of b a 0] rep_orbit [of a m n] by (simp add: rep_def orbit_def)

definition square :: "bits \<Rightarrow> bits" where
  "square r = mul r r"

text \<open>An exponent is its bits below the leading one, low bit first.\<close>

primrec expo :: "bool list \<Rightarrow> nat" where
  "expo [] = 1"
| "expo (b # bs) = (if b then 1 else 0) + 2 * expo bs"

primrec qpow :: "bits \<Rightarrow> bool list \<Rightarrow> bits" where
  "qpow q [] = q"
| "qpow q (b # bs) = (if b then mul q (square (qpow q bs)) else square (qpow q bs))"

lemma rep_square: "rep q n \<Longrightarrow> rep (square q) (2 * n)"
  using rep_mul [of q n q n] by (simp add: square_def mult_2)

lemma rep_qpow: "rep q m \<Longrightarrow> rep (qpow q bs) (m * expo bs)"
proof (induction bs)
  case Nil
  then show ?case by simp
next
  case (Cons b bs)
  then have s: "rep (square (qpow q bs)) (m * (2 * expo bs))"
    using rep_square [of "qpow q bs" "m * expo bs"] by (simp add: mult.left_commute)
  then show ?case
    using rep_mul [OF Cons.prems s] by (simp add: algebra_simps)
qed

section \<open>The order of the step\<close>

definition xbits :: bits where
  "xbits = Node (Node (Node (Node (nib False True False False) (zero_tree 2)) (zero_tree 3))
     (zero_tree 4)) (zero_tree 5)"

lemma rep_xbits: "rep xbits 1"
  by (simp add: rep_def xbits_def flat_zero_tree orbit_def eval_nat_numeral)

definition exp_3 :: "bool list" where "exp_3 = [True]"
definition exp_5 :: "bool list" where "exp_5 = [True, False]"
definition exp_17 :: "bool list" where "exp_17 = True # replicate 3 False"
definition exp_257 :: "bool list" where "exp_257 = True # replicate 7 False"
definition exp_65537 :: "bool list" where "exp_65537 = True # replicate 15 False"
definition exp_plus :: "bool list" where "exp_plus = True # replicate 31 False"
definition exp_641 :: "bool list" where
  "exp_641 = [True, False, False, False, False, False, False, True, False]"
definition exp_6700417 :: "bool list" where
  "exp_6700417 =
    [True, False, False, False, False, False, False, True, True, False, True, True, True, True,
     False, False, False, True, True, False, False, True]"

lemmas exp_defs = exp_3_def exp_5_def exp_17_def exp_257_def exp_65537_def exp_plus_def
  exp_641_def exp_6700417_def

lemma expo_zeros: "expo (replicate n False) = 2 ^ n"
  by (induction n) auto

lemma expo_values [simp]:
  "expo exp_3 = 3" "expo exp_5 = 5" "expo exp_17 = 17" "expo exp_257 = 257"
  "expo exp_65537 = 65537" "expo exp_plus = 4294967297" "expo exp_641 = 641"
  "expo exp_6700417 = 6700417"
  by (simp_all add: exp_defs expo_zeros)

lemma rep_foldl: "rep q m \<Longrightarrow> rep (foldl qpow q es) (m * prod_list (map expo es))"
proof (induction es arbitrary: q m)
  case Nil
  then show ?case by simp
next
  case (Cons e es)
  from Cons.IH [OF rep_qpow [OF Cons.prems, of e]] show ?case by (simp add: mult.assoc)
qed

text \<open>
  The powers \<open>2 ^ 32 + 1\<close> and \<open>2 ^ 32 - 1\<close>, from which every power below is reached
  by a few more products.
\<close>

definition power_plus :: bits where
  "power_plus =
     Node
        (Node
           (Node (Node (nib True False False False) (nib True False False True))
                 (Node (nib True False False False) (nib False False False True)))
           (Node (Node (nib False True False False) (nib True False True True))
                 (Node (nib False False True True) (nib False False False True))))
        (Node
           (Node (Node (nib False True False True) (nib True False False False))
                 (Node (nib False True True True) (nib True False False True)))
           (Node (Node (nib True True False True) (nib False True True True))
                 (Node (nib True True True False) (nib True False True False))))"

definition power_minus :: bits where
  "power_minus =
     Node
        (Node
           (Node (Node (nib False False True False) (nib False True True True))
                 (Node (nib False False True True) (nib False True True True)))
           (Node (Node (nib False False False False) (nib True False False False))
                 (Node (nib True False True False) (nib True True True False))))
        (Node
           (Node (Node (nib False True True True) (nib False True False True))
                 (Node (nib False True False False) (nib True False True False)))
           (Node (Node (nib True False True False) (nib True True False True))
                 (Node (nib True False True False) (nib True False True False))))"

lemma qpow_plus: "qpow xbits exp_plus = power_plus"
  by code_simp

lemma qpow_minus: "foldl qpow xbits [exp_3, exp_5, exp_17, exp_257, exp_65537] = power_minus"
  by code_simp

lemma rep_plus: "rep power_plus (2 ^ 32 + 1)"
  using rep_qpow [OF rep_xbits, of exp_plus] by (simp add: qpow_plus)

lemma rep_minus: "rep power_minus (2 ^ 32 - 1)"
  using rep_foldl [OF rep_xbits, of "[exp_3, exp_5, exp_17, exp_257, exp_65537]"]
  unfolding qpow_minus by simp

definition lands_on_1 :: "bits \<Rightarrow> bool" where
  "lands_on_1 q \<longleftrightarrow> lpev (flat q) one_bits = one_bits"

lemma lands_on_1: "rep q n \<Longrightarrow> lands_on_1 q \<longleftrightarrow> orbit n = 1"
  using word_of_lpev [of one_bits "flat q"] word_of_inject [of "lpev (flat q) one_bits" one_bits]
  by (simp add: rep_def lands_on_1_def)

lemma orbit_plus:
  "orbit ((2 ^ 32 + 1) * prod_list (map expo es)) = 1 \<longleftrightarrow> lands_on_1 (foldl qpow power_plus es)"
  using lands_on_1 rep_foldl rep_plus by blast

lemma orbit_minus:
  "orbit ((2 ^ 32 - 1) * expo e) = 1 \<longleftrightarrow> lands_on_1 (qpow power_minus e)"
  using lands_on_1 rep_qpow rep_minus by blast

lemma lands_full: "lands_on_1 (qpow power_minus exp_plus)"
  by code_simp

lemma lands_3: "\<not> lands_on_1 (foldl qpow power_plus [exp_5, exp_17, exp_257, exp_65537])"
  by code_simp

lemma lands_5: "\<not> lands_on_1 (foldl qpow power_plus [exp_3, exp_17, exp_257, exp_65537])"
  by code_simp

lemma lands_17: "\<not> lands_on_1 (foldl qpow power_plus [exp_3, exp_5, exp_257, exp_65537])"
  by code_simp

lemma lands_257: "\<not> lands_on_1 (foldl qpow power_plus [exp_3, exp_5, exp_17, exp_65537])"
  by code_simp

lemma lands_65537: "\<not> lands_on_1 (foldl qpow power_plus [exp_3, exp_5, exp_17, exp_257])"
  by code_simp

lemma lands_641: "\<not> lands_on_1 (qpow power_minus exp_6700417)"
  by code_simp

lemma lands_6700417: "\<not> lands_on_1 (qpow power_minus exp_641)"
  by code_simp

definition period :: nat where
  "period = 2 ^ 64 - 1"

definition period_factors :: "nat list" where
  "period_factors = [3, 5, 17, 257, 641, 65537, 6700417]"

lemma period_prod: "period = prod_list period_factors"
  by (simp add: period_def period_factors_def)

lemma orbit_period: "orbit period = 1"
  using orbit_minus [of exp_plus] lands_full by (simp add: period_def)

lemma orbit_period_div: "r \<in> set period_factors \<Longrightarrow> orbit (period div r) \<noteq> 1"
  using orbit_plus [of "[exp_5, exp_17, exp_257, exp_65537]"] lands_3
    orbit_plus [of "[exp_3, exp_17, exp_257, exp_65537]"] lands_5
    orbit_plus [of "[exp_3, exp_5, exp_257, exp_65537]"] lands_17
    orbit_plus [of "[exp_3, exp_5, exp_17, exp_65537]"] lands_257
    orbit_plus [of "[exp_3, exp_5, exp_17, exp_257]"] lands_65537
    orbit_minus [of exp_6700417] lands_641 orbit_minus [of exp_641] lands_6700417
  by (auto simp: period_def period_factors_def)

end
