(* ===== verification/Request_Ids.thy ===== *)
theory Request_Ids
  imports Xorshift
begin

text \<open>
  \<open>RequestIds\<close> of \<open>rust/src/device.rs\<close> and the loop of \<open>Device::next_request_id\<close>, which
  draws until the id differs from the last one. The state of the generator is a nonzero word:
  \<open>new\<close> sets its lowest bit and \<open>next\<close> keeps it nonzero. That the loop ends on every such
  state follows from the full period of the generator.
\<close>

section \<open>The orbit of 1 is all nonzero words\<close>

lemma orbit_0 [simp]: "orbit 0 = 1"
  by (simp add: orbit_def)

lemma orbit_add_period: "orbit (n + period) = orbit n"
  using funpow_orbit [of n period] funpow_orbit [of n 0] by (simp add: orbit_period)

lemma orbit_mult: "orbit d = 1 \<Longrightarrow> orbit (n + d * k) = orbit n"
proof (induction k)
  case (Suc k)
  have "orbit (n + d * Suc k) = (xs_step ^^ (n + d * k)) (orbit d)"
    by (simp add: funpow_orbit algebra_simps)
  also have "\<dots> = orbit (n + d * k)" using Suc.prems by (simp add: orbit_def)
  finally show ?case using Suc by simp
qed simp

text \<open>
  The factors of the period are prime in the sense needed: only 1 and the number divide it.
  The largest, 6700417, is checked by trial division by the numbers prime to 30.
\<close>

definition only_trivial :: "nat \<Rightarrow> bool" where
  "only_trivial p \<longleftrightarrow> (\<forall>d. d dvd p \<longrightarrow> d = 1 \<or> d = p)"

lemma no_small_divisor:
  assumes "\<And>k. 1 < k \<Longrightarrow> k \<le> b \<Longrightarrow> \<not> k dvd p" "p < (b + 1) * (b + 1)" "0 < p"
  shows "only_trivial p"
  unfolding only_trivial_def
proof (intro allI impI)
  fix d
  assume d: "d dvd p"
  then obtain e where e: "p = d * e" by (rule dvdE)
  show "d = 1 \<or> d = p"
  proof (rule ccontr)
    assume n: "\<not> (d = 1 \<or> d = p)"
    have "d \<noteq> 0" "e \<noteq> 0" using e assms(3) by auto
    then have "1 < d" "1 < e" using n e by (auto simp: less_Suc_eq neq0_conv intro: Suc_lessI)
    then have "b + 1 \<le> d" "b + 1 \<le> e"
      using assms(1) [of d] assms(1) [of e] e by fastforce+
    then have "(b + 1) * (b + 1) \<le> d * e" by (rule mult_mono) auto
    then show False using assms(2) e by simp
  qed
qed

lemma coprime_30:
  fixes k :: int
  assumes "\<not> 2 dvd k" "\<not> 3 dvd k" "\<not> 5 dvd k"
  shows "k mod 30 \<in> {1, 7, 11, 13, 17, 19, 23, 29}"
proof -
  define x where "x = k mod 30"
  have "0 \<le> x" "x < 30" by (simp_all add: x_def)
  then have m: "x = 0 \<or> x = 1 \<or> x = 2 \<or> x = 3 \<or> x = 4 \<or> x = 5 \<or> x = 6 \<or> x = 7 \<or> x = 8 \<or> x = 9 \<or> x = 10 \<or> x = 11 \<or> x = 12 \<or> x = 13 \<or> x = 14 \<or>
      x = 15 \<or> x = 16 \<or> x = 17 \<or> x = 18 \<or> x = 19 \<or> x = 20 \<or> x = 21 \<or> x = 22 \<or> x = 23 \<or> x = 24 \<or> x = 25 \<or> x = 26 \<or> x = 27 \<or> x = 28 \<or> x = 29"
    by presburger
  have "\<not> 2 dvd x" "\<not> 3 dvd x" "\<not> 5 dvd x"
    using assms by (simp_all add: x_def dvd_mod_iff)
  with m have "x \<in> {1, 7, 11, 13, 17, 19, 23, 29}"
    by (elim disjE) simp_all
  then show ?thesis by (simp add: x_def)
qed

fun trial :: "int \<Rightarrow> nat \<Rightarrow> int \<Rightarrow> bool" where
  "trial p 0 k = True"
| "trial p (Suc n) k =
    (list_all (\<lambda>r. p mod (k + r) \<noteq> 0) [7, 11, 13, 17, 19, 23, 29, 31] \<and> trial p n (k + 30))"

lemma trial_spec: "trial p n (30 * m) \<Longrightarrow> j < int n \<Longrightarrow> 0 \<le> j \<Longrightarrow> r \<in> {7, 11, 13, 17, 19, 23, 29, 31}
  \<Longrightarrow> p mod (30 * (m + j) + r) \<noteq> 0"
proof (induction n arbitrary: m j)
  case (Suc n)
  show ?case
  proof (cases "j = 0")
    case True
    then show ?thesis using Suc.prems by auto
  next
    case False
    have "trial p n (30 * (m + 1))" using Suc.prems(1) by (simp add: algebra_simps)
    from Suc.IH [OF this, of "j - 1"] show ?thesis using Suc.prems False by simp
  qed
qed simp

lemma only_trivial_trial:
  assumes "trial (int p) n 0" "\<not> 2 dvd p" "\<not> 3 dvd p" "\<not> 5 dvd p"
    "p < (30 * n + 1) * (30 * n + 1)" "0 < p"
  shows "only_trivial p"
proof (rule no_small_divisor [where b = "30 * n"])
  fix k :: nat
  assume k: "1 < k" "k \<le> 30 * n"
  show "\<not> k dvd p"
  proof
    assume kd: "k dvd p"
    have "\<not> 2 dvd k" "\<not> 3 dvd k" "\<not> 5 dvd k"
      using dvd_trans [OF _ kd] assms(2-4) by blast+
    then have "\<not> 2 dvd int k" "\<not> 3 dvd int k" "\<not> 5 dvd int k"
      using int_dvd_int_iff [of 2 k] int_dvd_int_iff [of 3 k] int_dvd_int_iff [of 5 k] by auto
    then have r: "int k mod 30 \<in> {1, 7, 11, 13, 17, 19, 23, 29}" by (rule coprime_30)
    define q where "q = int k div 30"
    define m where "m = int k mod 30"
    have km: "int k = 30 * q + m" by (simp add: q_def m_def)
    define j where "j = (if m = 1 then q - 1 else q)"
    define s where "s = (if m = 1 then 31 else m)"
    have "int k = 30 * j + s" by (simp add: j_def s_def km)
    moreover have "s \<in> {7, 11, 13, 17, 19, 23, 29, 31}" using r by (auto simp: s_def m_def)
    moreover have "m \<in> {1, 7, 11, 13, 17, 19, 23, 29}" using r by (simp only: m_def)
    then have "0 \<le> j" "j < int n" using k km by (auto simp: j_def)
    ultimately have "int p mod int k \<noteq> 0"
      using trial_spec [of "int p" n 0 j s] assms(1) by simp
    then show False using kd by (simp flip: zmod_int)
  qed
qed (use assms in simp_all)

lemma trial_65537: "trial 65537 9 0"
  by code_simp

lemma trial_6700417: "trial 6700417 87 0"
  by code_simp

lemma only_trivial_list:
  assumes "list_all (\<lambda>k. \<not> k dvd p) [2..<Suc b]" "p < (b + 1) * (b + 1)" "0 < p"
  shows "only_trivial p"
  using assms(2,3)
proof (rule no_small_divisor [rotated])
  fix k
  assume "1 < k" "k \<le> b"
  then have "k \<in> set [2..<Suc b]" unfolding set_upt by simp
  then show "\<not> k dvd p" using assms(1) unfolding list_all_iff by blast
qed

lemma only_trivial_small: "only_trivial 3" "only_trivial 5" "only_trivial 17" "only_trivial 257"
  "only_trivial 641"
  by (rule only_trivial_list [of _ 1], simp_all)
    (rule only_trivial_list [of _ 2], simp_all,
     rule only_trivial_list [of _ 4], simp_all,
     rule only_trivial_list [of _ 16], simp_all,
     rule only_trivial_list [of _ 25], simp_all)

lemma only_trivial_large: "only_trivial 65537" "only_trivial 6700417"
  using only_trivial_trial [of 65537 9] trial_65537
    only_trivial_trial [of 6700417 87] trial_6700417 by simp_all

lemma only_trivial_factors: "r \<in> set period_factors \<Longrightarrow> only_trivial r"
  using only_trivial_small only_trivial_large by (auto simp: period_factors_def)


text \<open>The least \<open>n\<close> above 0 with \<open>orbit n = 1\<close> is the period.\<close>

lemma coprime_prod_list:
  "(\<And>r. r \<in> set rs \<Longrightarrow> coprime (e :: nat) r) \<Longrightarrow> coprime e (prod_list rs)"
  by (induction rs) (auto simp: coprime_mult_right_iff)

lemma orbit_least:
  assumes "0 < n" "n < period" shows "orbit n \<noteq> 1"
proof
  assume n: "orbit n = 1"
  define d where "d = (LEAST k. 0 < k \<and> orbit k = 1)"
  have d: "0 < d \<and> orbit d = 1" and le: "\<And>k. 0 < k \<and> orbit k = 1 \<Longrightarrow> d \<le> k"
    unfolding d_def using LeastI [of "\<lambda>k. 0 < k \<and> orbit k = 1" n] assms(1) n
    by (auto intro: Least_le)
  have "orbit (period mod d + d * (period div d)) = orbit (period mod d)"
    using d by (intro orbit_mult) simp
  then have "orbit (period mod d) = 1" by (simp add: orbit_period)
  then have "period mod d = 0"
    using le [of "period mod d"] d mod_less_divisor [of d period] by fastforce
  then obtain e where e: "period = d * e" by (metis mod_0_imp_dvd dvdE)
  have "d < period" using le [of n] assms n by simp
  then have "e \<noteq> 1" using e by auto
  have "\<exists>r \<in> set period_factors. \<not> coprime e r"
  proof (rule ccontr)
    assume "\<not> (\<exists>r \<in> set period_factors. \<not> coprime e r)"
    then have "coprime e period" unfolding period_prod by (auto intro: coprime_prod_list)
    moreover have "e dvd period" unfolding e by (rule dvd_triv_right)
    ultimately have "is_unit e" by (meson coprime_common_divisor dvd_refl)
    then show False using \<open>e \<noteq> 1\<close> by simp
  qed
  then obtain r where r: "r \<in> set period_factors" "gcd e r \<noteq> 1"
    by (auto simp: coprime_iff_gcd_eq_1)
  then have "gcd e r = r" using only_trivial_factors [of r] by (auto simp: only_trivial_def)
  then obtain k where k: "e = r * k" by (metis gcd_dvd1 dvdE)
  have "r > 0" using r(1) by (auto simp: period_factors_def)
  moreover have "period = r * (d * k)" using e k by (simp add: mult.left_commute)
  ultimately have "period div r = 0 + d * k"
    by (metis add_0 nonzero_mult_div_cancel_left not_gr_zero)
  then have "orbit (period div r) = 1" using orbit_mult [of d 0 k] d by simp
  then show False using orbit_period_div r(1) by blast
qed

lemma period_pos [simp]: "0 < period"
  by (simp add: period_def)

lemma inj_orbit: "inj_on orbit {0..<period}"
proof (rule linorder_inj_onI)
  fix i j
  assume ij: "i < j" "i \<in> {0..<period}" "j \<in> {0..<period}"
  show "orbit i \<noteq> orbit j"
  proof
    assume "orbit i = orbit j"
    then have "(xs_step ^^ (period - i)) (orbit i) = (xs_step ^^ (period - i)) (orbit j)" by simp
    moreover have "period - i + j = j - i + period" using ij by simp
    ultimately have "orbit (j - i) = 1"
      using ij orbit_add_period [of "j - i"] by (simp only: funpow_orbit) (simp add: orbit_period)
    then show False using orbit_least [of "j - i"] ij by (simp add: less_imp_diff_less)
  qed
qed auto

lemma orbit_nonzero: "orbit n \<noteq> 0"
proof
  assume "orbit n = 0"
  then have "orbit (n * period - n + n) = 0" using funpow_orbit [of "n * period - n" n] by simp
  moreover have "n * period - n + n = 0 + period * n" by (simp add: mult.commute Suc_leI)
  ultimately show False using orbit_mult [of period 0 n] by (simp add: orbit_period)
qed

lemma range_orbit: "orbit ` {0..<period} = UNIV - {0}"
proof (rule card_subset_eq)
  have "card (UNIV - {0} :: u64 set) = card (UNIV :: u64 set) - 1"
    by (simp add: card_Diff_singleton)
  also have "\<dots> = period" by (simp add: card_word period_def)
  finally show "card (orbit ` {0..<period}) = card (UNIV - {0} :: u64 set)"
    by (simp add: card_image [OF inj_orbit])
qed (auto simp: orbit_nonzero)

lemma steps_reach:
  assumes "x \<noteq> 0" "y \<noteq> 0"
  obtains n where "(xs_step ^^ Suc n) x = y"
proof -
  obtain i j where i: "x = orbit i" "i < period" and j: "y = orbit j"
    using range_orbit assms by (metis DiffI UNIV_I atLeastLessThan_iff imageE singletonD)
  have "(xs_step ^^ (period - i + j)) x = y"
    using i orbit_add_period [of j] by (simp add: funpow_orbit j add.commute)
  moreover obtain n where "period - i + j = Suc n" using i by (cases "period - i + j") auto
  ultimately show thesis using that by metis
qed

section \<open>Drawing ids\<close>

lemma xs_step_nonzero: "x \<noteq> 0 \<Longrightarrow> xs_step x \<noteq> 0"
  using range_orbit step_orbit orbit_nonzero by (metis DiffI UNIV_I imageE singletonD)

typedef request_ids = "{x :: u64. x \<noteq> 0}"
  morphisms ids_state Request_Ids by (rule exI [of _ 1]) simp

setup_lifting type_definition_request_ids

text \<open>
  \<open>RequestIds::new\<close>: \<open>nanos\<close> is the wall clock in nanoseconds, cut to 64 bits, or 1 before
  the epoch; \<open>pid\<close> is the process id.
\<close>

lift_definition ids_new :: "u64 \<Rightarrow> u32 \<Rightarrow> request_ids" is
  "\<lambda>nanos pid. (nanos XOR push_bit 32 (ucast pid)) OR 1"
proof -
  fix nanos :: u64 and pid :: u32
  have "bit ((nanos XOR push_bit 32 (ucast pid)) OR 1) 0" by (simp add: bit_or_iff)
  then show "(nanos XOR push_bit 32 (ucast pid)) OR 1 \<noteq> 0" by auto
qed

lift_definition ids_step :: "request_ids \<Rightarrow> request_ids" is xs_step
  by (rule xs_step_nonzero)

definition id_of :: "u64 \<Rightarrow> u8" where
  "id_of x = ucast (x mod 255) + 1"

text \<open>\<open>RequestIds::next\<close>.\<close>

definition ids_next :: "request_ids \<Rightarrow> u8 \<times> request_ids" where
  "ids_next r = (let r = ids_step r in (id_of (ids_state r), r))"

lemma ids_state_funpow: "ids_state ((ids_step ^^ n) r) = (xs_step ^^ n) (ids_state r)"
  by (induction n) (simp_all add: ids_step.rep_eq)

lemma draw_ends: "\<exists>n. id_of (ids_state ((ids_step ^^ Suc n) r)) \<noteq> lid"
proof -
  have s: "ids_state r \<noteq> 0" using ids_state [of r] by simp
  obtain m where m: "(xs_step ^^ Suc m) (ids_state r) = 1" using steps_reach [OF s, of 1] by auto
  obtain n where n: "(xs_step ^^ Suc n) (ids_state r) = 2" using steps_reach [OF s, of 2] by auto
  have "id_of 1 \<noteq> id_of 2" by (simp add: id_of_def)
  then have "id_of 1 \<noteq> lid \<or> id_of 2 \<noteq> lid" by auto
  then show ?thesis using m n by (metis ids_state_funpow)
qed

text \<open>The draws left until one differs from the last id, which bounds the loop.\<close>

definition draws :: "u8 \<Rightarrow> request_ids \<Rightarrow> nat" where
  "draws lid r = (LEAST n. id_of (ids_state ((ids_step ^^ Suc n) r)) \<noteq> lid)"

lemma draws_step:
  assumes "id_of (ids_state (ids_step r)) = lid"
  shows "draws lid (ids_step r) < draws lid r"
proof -
  let ?P = "\<lambda>n. id_of (ids_state ((ids_step ^^ Suc n) r)) \<noteq> lid"
  have P: "?P (draws lid r)" unfolding draws_def using draw_ends by (rule LeastI_ex)
  then obtain k where k: "draws lid r = Suc k" using assms by (cases "draws lid r") auto
  have "draws lid (ids_step r) \<le> k"
    unfolding draws_def
    by (rule Least_le) (use P k in \<open>simp add: funpow_swap1\<close>)
  then show ?thesis using k by simp
qed

text \<open>The loop of \<open>Device::next_request_id\<close>: draws until the id differs from the last one.\<close>

function draw_id :: "u8 \<Rightarrow> request_ids \<Rightarrow> u8 \<times> request_ids" where
  "draw_id lid r =
     (let (rid, r) = ids_next r in if rid \<noteq> lid then (rid, r) else draw_id lid r)"
  by pat_completeness auto

termination
  by (relation "measure (\<lambda>(lid, r). draws lid r)")
    (auto simp: ids_next_def Let_def draws_step)

declare draw_id.simps [simp del]

lemma id_of_pos: "id_of x \<noteq> 0"
proof -
  have "unat (x mod 255) < 255" by (simp add: unat_mod_distrib)
  then have "unat (ucast (x mod 255) :: u8) < 255" by (simp add: unsigned_ucast_eq take_bit_nat_eq_self)
  then have "unat (id_of x) = unat (ucast (x mod 255) :: u8) + 1"
    unfolding id_of_def by (subst unat_add_lem [THEN iffD1]) auto
  then show ?thesis by auto
qed

lemma draw_id_fresh:
  "draw_id lid r = (rid, r') \<Longrightarrow> rid \<noteq> lid \<and> rid \<noteq> 0"
proof (induction lid r rule: draw_id.induct)
  case (1 lid r)
  show ?case
  proof (cases "id_of (ids_state (ids_step r)) = lid")
    case True
    then have "draw_id lid (ids_step r) = (rid, r')"
      using "1.prems" by (subst (asm) draw_id.simps) (simp add: ids_next_def Let_def)
    then show ?thesis
      using "1.IH" True by (simp add: ids_next_def Let_def)
  next
    case False
    then show ?thesis
      using "1.prems" id_of_pos by (subst (asm) draw_id.simps) (auto simp: ids_next_def Let_def)
  qed
qed

end
