(* ===== verification/Transport.thy ===== *)
theory Transport
  imports Errors
begin

text \<open>
  What the library relies on outside itself, \<open>rust/src/transport.rs\<close> and the clocks: the
  traits \<open>Transport\<close> and \<open>Bus\<close> as a record of operations over an explicit world, and
  \<open>Duration\<close> and \<open>Instant\<close> with the range in which the standard library represents them on
  Linux. An operation that writes into \<open>&mut buf\<close> returns the bytes it wrote at its start;
  \<open>fill\<close> is the buffer afterwards, which keeps its length.
\<close>

section \<open>Time\<close>

text \<open>A duration in nanoseconds.\<close>

type_synonym duration = nat

definition from_secs :: "nat \<Rightarrow> duration" where "from_secs n = n * 1000000000"
definition from_millis :: "nat \<Rightarrow> duration" where "from_millis n = n * 1000000"
definition from_micros :: "nat \<Rightarrow> duration" where "from_micros n = n * 1000"

datatype instant = Instant (at_ns: int)

instantiation instant :: linorder
begin

definition less_eq_instant :: "instant \<Rightarrow> instant \<Rightarrow> bool" where
  "less_eq_instant s t \<longleftrightarrow> at_ns s \<le> at_ns t"

definition less_instant :: "instant \<Rightarrow> instant \<Rightarrow> bool" where
  "less_instant s t \<longleftrightarrow> at_ns s < at_ns t"

instance
  by standard (auto simp: less_eq_instant_def less_instant_def instant.expand)

end

lemmas instant_order = less_eq_instant_def less_instant_def

text \<open>The seconds of an \<open>Instant\<close> or \<open>SystemTime\<close> are an \<open>i64\<close>; the operators panic outside.\<close>

definition time_limit :: int where
  "time_limit = 2 ^ 63 * 1000000000"

definition in_time_range :: "int \<Rightarrow> bool" where
  "in_time_range t \<longleftrightarrow> - time_limit \<le> t \<and> t < time_limit"

text \<open>\<open>t + d\<close>; \<open>None\<close> is the panic.\<close>

definition instant_add :: "instant \<Rightarrow> duration \<Rightarrow> instant option" where
  "instant_add t d =
     (if in_time_range (at_ns t + int d) then Some (Instant (at_ns t + int d)) else None)"

definition instant_checked_sub :: "instant \<Rightarrow> duration \<Rightarrow> instant option" where
  "instant_checked_sub t d =
     (if in_time_range (at_ns t - int d) then Some (Instant (at_ns t - int d)) else None)"

text \<open>\<open>t - s\<close>, \<open>duration_since\<close> and \<open>saturating_duration_since\<close>: zero when \<open>s\<close> is later.\<close>

definition since :: "instant \<Rightarrow> instant \<Rightarrow> duration" where
  "since t s = nat (at_ns t - at_ns s)"

lemma since_0 [simp]: "t \<le> s \<Longrightarrow> since t s = 0"
  by (simp add: since_def instant_order)

text \<open>A point of the wall clock, in nanoseconds from the Unix epoch.\<close>

type_synonym system_time = int

definition system_add :: "system_time \<Rightarrow> int \<Rightarrow> system_time option" where
  "system_add t d = (if in_time_range (t + d) then Some (t + d) else None)"

section \<open>Devices and transports\<close>

record device_entry =
  de_path :: string
  de_serial :: string
  de_manufacturer :: string
  de_product :: string

type_synonym handle = nat

text \<open>
  The operations of \<open>Bus\<close> and of the transports it opens, which a handle names, and the
  clocks. \<open>e_read\<close> is \<open>None\<close> when it waits forever; every other operation returns.
\<close>

record 'w env =
  e_devices :: "'w \<Rightarrow> device_entry list result \<times> 'w"
  e_open :: "device_entry \<Rightarrow> 'w \<Rightarrow> handle result \<times> 'w"
  e_close :: "handle \<Rightarrow> 'w \<Rightarrow> 'w"
  e_read :: "handle \<Rightarrow> bytes \<Rightarrow> duration option \<Rightarrow> 'w \<Rightarrow> (nat io_result \<times> bytes \<times> 'w) option"
  e_write :: "handle \<Rightarrow> bytes \<Rightarrow> 'w \<Rightarrow> nat io_result \<times> 'w"
  e_get_feature :: "handle \<Rightarrow> bytes \<Rightarrow> 'w \<Rightarrow> nat io_result \<times> bytes \<times> 'w"
  e_send_feature :: "handle \<Rightarrow> bytes \<Rightarrow> 'w \<Rightarrow> nat io_result \<times> 'w"
  e_get_input :: "handle \<Rightarrow> bytes \<Rightarrow> 'w \<Rightarrow> nat io_result \<times> bytes \<times> 'w"
  e_now :: "'w \<Rightarrow> instant \<times> 'w"
  e_wall :: "'w \<Rightarrow> system_time \<times> 'w"
  e_pid :: u32

definition fill :: "'a list \<Rightarrow> 'a list \<Rightarrow> 'a list" where
  "fill buf data = take (length buf) data @ drop (length data) buf"

lemma length_fill [simp]: "length (fill buf data) = length buf"
  by (simp add: fill_def)

lemma fill_all: "length data = length buf \<Longrightarrow> fill buf data = data"
  by (simp add: fill_def)

lemma nth_fill: "i < length buf \<Longrightarrow> fill buf data ! i = (if i < length data then data ! i else buf ! i)"
  by (auto simp: fill_def nth_append)

end
