(* ===== verification/BTree.thy ===== *)
theory BTree
  imports Main
begin

text \<open>
  \<open>BTreeMap\<close> as the sources use it: insertion, lookup, \<open>retain\<close>, \<open>keys\<close> and collecting from
  an iterator. A map is the list of its entries in the order of the keys, which is the order
  in which the code iterates; lookup is \<open>map_of\<close>. Two ordered maps with the same lookups
  are the same list, so that equality of maps is equality of lists.
\<close>

type_synonym ('k, 'v) btree = "('k \<times> 'v) list"

fun bt_insert :: "'k::linorder \<Rightarrow> 'v \<Rightarrow> ('k, 'v) btree \<Rightarrow> ('k, 'v) btree" where
  "bt_insert k v [] = [(k, v)]"
| "bt_insert k v ((k', v') # m) =
     (if k < k' then (k, v) # (k', v') # m
      else if k = k' then (k, v) # m
      else (k', v') # bt_insert k v m)"

definition bt_retain :: "('k \<Rightarrow> bool) \<Rightarrow> ('k, 'v) btree \<Rightarrow> ('k, 'v) btree" where
  "bt_retain keep m = filter (\<lambda>(k, _). keep k) m"

definition bt_collect :: "('k::linorder \<times> 'v) list \<Rightarrow> ('k, 'v) btree" where
  "bt_collect xs = fold (\<lambda>(k, v). bt_insert k v) xs []"

definition bt_keys :: "('k, 'v) btree \<Rightarrow> 'k list" where
  "bt_keys m = map fst m"

definition bt_ordered :: "('k::linorder, 'v) btree \<Rightarrow> bool" where
  "bt_ordered m \<longleftrightarrow> sorted_wrt (<) (map fst m)"

lemma map_of_insert [simp]: "map_of (bt_insert k v m) = (map_of m)(k \<mapsto> v)"
  by (induction k v m rule: bt_insert.induct) (auto simp: fun_eq_iff)

lemma map_of_retain [simp]: "map_of (bt_retain keep m) k = (if keep k then map_of m k else None)"
  by (induction m) (auto simp: bt_retain_def)

lemma set_keys_insert [simp]: "fst ` set (bt_insert k v m) = insert k (fst ` set m)"
  by (induction k v m rule: bt_insert.induct) auto

lemma bt_ordered_Nil [simp]: "bt_ordered []"
  by (simp add: bt_ordered_def)

lemma bt_ordered_Cons:
  "bt_ordered ((k, v) # m) \<longleftrightarrow> (\<forall>k' \<in> fst ` set m. k < k') \<and> bt_ordered m"
  by (simp add: bt_ordered_def)

lemma insert_fst: "(a, b) \<in> set (bt_insert k v m) \<Longrightarrow> a = k \<or> a \<in> fst ` set m"
  by (metis fst_conv image_eqI insert_iff set_keys_insert)

lemma bt_ordered_insert [simp]: "bt_ordered m \<Longrightarrow> bt_ordered (bt_insert k v m)"
proof (induction k v m rule: bt_insert.induct)
  case (2 k v k' v' m)
  then show ?case
    by (fastforce simp: bt_ordered_Cons dest: insert_fst)
qed (simp add: bt_ordered_def)

lemma bt_ordered_retain [simp]: "bt_ordered m \<Longrightarrow> bt_ordered (bt_retain keep m)"
  by (induction m) (auto simp: bt_retain_def bt_ordered_Cons)

lemma insert_last:
  "\<forall>k' \<in> fst ` set m. k' < k \<Longrightarrow> bt_insert k v m = m @ [(k, v)]"
  by (induction k v m rule: bt_insert.induct) auto

lemma fold_insert_ordered:
  "bt_ordered (m @ xs) \<Longrightarrow> fold (\<lambda>(k, v). bt_insert k v) xs m = m @ xs"
proof (induction xs arbitrary: m)
  case (Cons x xs)
  obtain k v where x: "x = (k, v)" by (cases x)
  have "\<forall>k' \<in> fst ` set m. k' < k"
    using Cons.prems by (auto simp: bt_ordered_def x sorted_wrt_append)
  then have "bt_insert k v m = m @ [(k, v)]" by (rule insert_last)
  then show ?case using Cons.IH [of "m @ [(k, v)]"] Cons.prems by (simp add: x)
qed simp

text \<open>Collecting entries that are already in order changes nothing.\<close>

lemma collect_ordered: "bt_ordered xs \<Longrightarrow> bt_collect xs = xs"
  using fold_insert_ordered [of "[]" xs] by (simp add: bt_collect_def)

lemma bt_ordered_eq:
  assumes "bt_ordered m" "bt_ordered n" "map_of m = map_of n"
  shows "m = n"
  using assms
proof (induction m arbitrary: n)
  case Nil
  then show ?case by (cases n) (auto simp: fun_eq_iff split: if_splits)
next
  case (Cons x m)
  obtain k v where x: "x = (k, v)" by (cases x)
  obtain y n' where n: "n = y # n'" using Cons.prems(3) by (cases n) (auto simp: x fun_eq_iff split: if_splits)
  obtain l w where y: "y = (l, w)" by (cases y)
  have less: "map_of m i \<noteq> None \<Longrightarrow> k < i" "map_of n' i \<noteq> None \<Longrightarrow> l < i" for i
    using Cons.prems(1,2) by (auto simp: x n y bt_ordered_Cons map_of_eq_None_iff)
  have e: "(if i = k then Some v else map_of m i) = (if i = l then Some w else map_of n' i)" for i
    using fun_cong [OF Cons.prems(3), of i] by (simp add: x n y)
  have kl: "k = l"
  proof (rule ccontr)
    assume "k \<noteq> l"
    with e [of k] e [of l] have "map_of n' k = Some v" "map_of m l = Some w" by simp_all
    with less(1) [of l] less(2) [of k] show False by simp
  qed
  have "map_of m i = map_of n' i" for i
    using e [of i] less [of k] kl by (cases "i = k"; cases "map_of m k"; cases "map_of n' k") auto
  then have "m = n'" using Cons by (simp add: x n y bt_ordered_Cons fun_eq_iff)
  moreover have "v = w" using e [of k] kl by simp
  ultimately show ?case using kl by (simp add: x n y)
qed

end
