(* ===== verification/Device.thy ===== *)
theory Device
  imports Protocol_Report Request_Ids Transport BTree
begin

text \<open>
  One open device, \<open>Device\<close> of \<open>rust/src/device.rs\<close>. An operation takes the device and the
  world and returns its result with both as they are afterwards, whether it succeeds or fails;
  the transport is the record \<open>env\<close>. \<open>seq_op m f\<close> is the operator \<open>?\<close>: an error of \<open>m\<close>
  returns at once, with the changes made so far.
\<close>

record device =
  dev_handle :: handle
  dev_serial :: string
  dev_info :: "device_info option"
  dev_config :: "pin_config option"
  polarity :: "u8 \<rightharpoonup> bool"
  dev_request_ids :: request_ids
  last_request_id :: u8
  dev_last_seq :: "u16 option"
  dev_missed :: u64

type_synonym ('w, 'a) dev_op = "device \<Rightarrow> 'w \<Rightarrow> 'a result \<times> device \<times> 'w"

definition seq_op :: "('w, 'a) dev_op \<Rightarrow> ('a \<Rightarrow> ('w, 'b) dev_op) \<Rightarrow> ('w, 'b) dev_op" where
  "seq_op m f d w = (case m d w of
     (Inl e, d, w) \<Rightarrow> (Inl e, d, w)
   | (Inr x, d, w) \<Rightarrow> f x d w)"

definition return_op :: "'a result \<Rightarrow> ('w, 'a) dev_op" where
  "return_op r d w = (r, d, w)"

lemma seq_op_Inr: "seq_op m f d w = (Inr y, d', w') \<longleftrightarrow>
    (\<exists>x d1 w1. m d w = (Inr x, d1, w1) \<and> f x d1 w1 = (Inr y, d', w'))"
  by (auto simp: seq_op_def split: prod.splits sum.splits)

lemma seq_op_Inl: "seq_op m f d w = (Inl e, d', w') \<longleftrightarrow>
    m d w = (Inl e, d', w') \<or>
    (\<exists>x d1 w1. m d w = (Inr x, d1, w1) \<and> f x d1 w1 = (Inl e, d', w'))"
  by (auto simp: seq_op_def split: prod.splits sum.splits)

lemma return_op_eq [simp]: "return_op r d w = (r', d', w') \<longleftrightarrow> r = r' \<and> d = d' \<and> w = w'"
  by (simp add: return_op_def)

section \<open>Opening\<close>

text \<open>\<open>RequestIds::new\<close> with the clock and the process id of the environment.\<close>

definition fresh_ids :: "'w env \<Rightarrow> 'w \<Rightarrow> request_ids \<times> 'w" where
  "fresh_ids E w = (case e_wall E w of (t, w) \<Rightarrow>
     (ids_new (if 0 \<le> t then word_of_int t else 1) (e_pid E), w))"

definition device_new :: "'w env \<Rightarrow> handle \<Rightarrow> string \<Rightarrow> 'w \<Rightarrow> device \<times> 'w" where
  "device_new E h serial w = (case fresh_ids E w of (ids, w) \<Rightarrow>
     (\<lparr>dev_handle = h, dev_serial = serial, dev_info = None, dev_config = None,
       polarity = Map.empty, dev_request_ids = ids, last_request_id = 0,
       dev_last_seq = None, dev_missed = 0\<rparr>, w))"

section \<open>Feature reports\<close>

definition short_feature :: "u8 \<Rightarrow> nat \<Rightarrow> error" where
  "short_feature rid n = Malformed
     (''feature report '' @ show_word rid @ '' is only '' @ show_nat n @ '' bytes long'')"

definition wrong_feature :: "u8 \<Rightarrow> u8 \<Rightarrow> error" where
  "wrong_feature rid got = Malformed
     (''asked for feature report '' @ show_word rid @ '' but got report '' @ show_word got)"

text \<open>The buffer that asks for a report: 64 bytes, the report ID first.\<close>

definition request :: "u8 \<Rightarrow> bytes" where
  "request rid = (replicate REPORT_LEN 0)[0 := rid]"

lemma length_request [simp]: "length (request rid) = 64"
  by (simp add: request_def REPORT_LEN_eq)

definition get_feature :: "'w env \<Rightarrow> u8 \<Rightarrow> ('w, bytes) dev_op" where
  "get_feature E rid d w =
     (let buf = request rid in
      case e_get_feature E (dev_handle d) buf w of
        (Inl e, data, w) \<Rightarrow> (Inl (Io e), d, w)
      | (Inr n, data, w) \<Rightarrow>
          let buf = fill buf data in
          if n < REPORT_LEN then (Inl (short_feature rid n), d, w)
          else if buf ! 0 \<noteq> rid then (Inl (wrong_feature rid (buf ! 0)), d, w)
          else (Inr (drop 1 buf), d, w))"

definition info :: "'w env \<Rightarrow> ('w, device_info) dev_op" where
  "info E d w = (case dev_info d of
     Some i \<Rightarrow> (Inr i, d, w)
   | None \<Rightarrow>
       seq_op (get_feature E REPORT_ID_DEVICE_INFO) (\<lambda>payload.
       seq_op (return_op (decode_device_info payload)) (\<lambda>i d w.
         if protocol_version i \<noteq> PROTOCOL_VERSION
         then (Inl (ProtocolVersion (protocol_version i)), d, w)
         else (Inr i, d\<lparr>dev_info := Some i\<rparr>, w))) d w)"

definition open_on :: "'w env \<Rightarrow> handle \<Rightarrow> string \<Rightarrow> 'w \<Rightarrow> device result \<times> 'w" where
  "open_on E h serial w = (case device_new E h serial w of (d, w) \<Rightarrow>
     case info E d w of
       (Inl e, d, w) \<Rightarrow> (Inl e, e_close E h w)
     | (Inr _, d, w) \<Rightarrow> (Inr d, w))"

definition get_pin_config :: "'w env \<Rightarrow> ('w, pin_config_report) dev_op" where
  "get_pin_config E =
     seq_op (get_feature E REPORT_ID_PIN_CONFIG) (\<lambda>payload.
     seq_op (return_op (decode_pin_config payload)) (\<lambda>report d w.
       (Inr report, d\<lparr>dev_config := Some (pcr_config report)\<rparr>, w)))"

definition pin_config :: "'w env \<Rightarrow> ('w, pin_config) dev_op" where
  "pin_config E d w = (case dev_config d of
     Some config \<Rightarrow> (Inr config, d, w)
   | None \<Rightarrow> seq_op (get_pin_config E) (\<lambda>r. return_op (Inr (pcr_config r))) d w)"

definition next_request_id :: "('w, u8) dev_op" where
  "next_request_id d w = (case draw_id (last_request_id d) (dev_request_ids d) of
     (rid, ids) \<Rightarrow> (Inr rid, d\<lparr>dev_request_ids := ids, last_request_id := rid\<rparr>, w))"

definition send_feature :: "'w env \<Rightarrow> bytes \<Rightarrow> ('w, nat) dev_op" where
  "send_feature E report d w = (case e_send_feature E (dev_handle d) report w of
     (r, w) \<Rightarrow> (map_err Io r, d, w))"

text \<open>The checks of \<open>set_pin_config\<close> on the report read back after the write.\<close>

definition verify_config :: "pin_config \<Rightarrow> u8 \<Rightarrow> pin_config_report \<Rightarrow> pin_config_report result" where
  "verify_config config rid read =
     (if request_id read \<noteq> rid then Inl (PinConfigConflict rid (request_id read))
      else if pcr_result read \<noteq> RESULT_OK
        then Inl (PinConfigRejected (pcr_result read) (result_gpio read) False)
      else if pcr_config read \<noteq> config then Inl PinConfigMismatch
      else Inr read)"

definition set_pin_config :: "'w env \<Rightarrow> pin_config \<Rightarrow> ('w, pin_config_report) dev_op" where
  "set_pin_config E config =
     seq_op (info E) (\<lambda>i.
       case validate_pin_config config (available i) of (result, gpio) \<Rightarrow>
         if result \<noteq> RESULT_OK then return_op (Inl (PinConfigRejected result gpio True))
         else
           seq_op next_request_id (\<lambda>rid.
           seq_op (return_op (encode_pin_config_set config rid)) (\<lambda>payload.
           seq_op (send_feature E (REPORT_ID_PIN_CONFIG # payload)) (\<lambda>_.
           seq_op (get_pin_config E) (\<lambda>read.
             return_op (verify_config config rid read))))))"

definition update_pins :: "'w env \<Rightarrow> (u8 \<times> pin_setting) list \<Rightarrow> ('w, pin_config_report) dev_op" where
  "update_pins E settings =
     seq_op (get_pin_config E) (\<lambda>r.
     seq_op (return_op (with_pins (pcr_config r) settings)) (\<lambda>config.
       set_pin_config E config))"

section \<open>Status reports\<close>

definition request_status :: "'w env \<Rightarrow> ('w, status_report) dev_op" where
  "request_status E d w =
     (let buf = request REPORT_ID_STATUS in
      case e_get_input E (dev_handle d) buf w of
        (Inl e, data, w) \<Rightarrow> (Inl (Io e), d, w)
      | (Inr n, data, w) \<Rightarrow>
          let buf = fill buf data in
          if n < REPORT_LEN \<or> buf ! 0 \<noteq> REPORT_ID_STATUS
          then (Inl (Malformed ''could not read the status report''), d, w)
          else (decode_status (drop 1 buf), d, w))"

text \<open>\<open>read_raw\<close> returns the number of bytes and the buffer; \<open>None\<close> when it waits forever.\<close>

definition read_raw :: "'w env \<Rightarrow> bytes \<Rightarrow> duration option \<Rightarrow> device \<Rightarrow> 'w \<Rightarrow>
    ((nat \<times> bytes) result \<times> device \<times> 'w) option" where
  "read_raw E buf timeout d w = (case e_read E (dev_handle d) buf timeout w of
     None \<Rightarrow> None
   | Some (Inl e, data, w) \<Rightarrow> Some (Inl (Io e), d, w)
   | Some (Inr n, data, w) \<Rightarrow> Some (Inr (n, fill buf data), d, w))"

text \<open>The count of missed reports, kept from the reports that are not answers to a request.\<close>

definition note_seq :: "status_report \<Rightarrow> device \<Rightarrow> device" where
  "note_seq report d =
     (if flags_contains (sr_reason report) HOST_REQUEST then d
      else
        (let d = (case dev_last_seq d of
             Some last_seq \<Rightarrow> d\<lparr>dev_missed := dev_missed d + ucast (seq report - last_seq - 1)\<rparr>
           | None \<Rightarrow> d)
         in d\<lparr>dev_last_seq := Some (seq report)\<rparr>))"

definition read_status :: "'w env \<Rightarrow> duration option \<Rightarrow> device \<Rightarrow> 'w \<Rightarrow>
    (status_report option result \<times> device \<times> 'w) option" where
  "read_status E timeout d w =
    (case read_raw E (replicate REPORT_LEN 0) timeout d w of
      None \<Rightarrow> None
    | Some (Inl e, d, w) \<Rightarrow> Some (Inl e, d, w)
    | Some (Inr (n, buf), d, w) \<Rightarrow> Some (
        if n = 0 then (Inr None, d, w)
        else if buf ! 0 \<noteq> REPORT_ID_STATUS
          then (Inl (Malformed (''received an unexpected report ID '' @ show_word (buf ! 0))), d, w)
        else if n < REPORT_LEN
          then (Inl (Malformed (''status report is only '' @ show_nat n @ '' bytes long'')), d, w)
        else case decode_status (drop 1 buf) of
            Inl e \<Rightarrow> (Inl e, d, w)
          | Inr report \<Rightarrow> (Inr (Some report), note_seq report d, w)))"

definition missed_reports :: "device \<Rightarrow> u64" where
  "missed_reports d = dev_missed d"

section \<open>Outputs\<close>

definition write_outputs :: "'w env \<Rightarrow> u32 \<Rightarrow> u32 \<Rightarrow> ('w, unit) dev_op" where
  "write_outputs E m v d w =
     (case e_write E (dev_handle d) (REPORT_ID_OUTPUT # encode_output m v) w of
       (Inl e, w) \<Rightarrow> (Inl (Io e), d, w)
     | (Inr _, w) \<Rightarrow> (Inr (), d, w))"

text \<open>The loop of \<open>set_outputs\<close> that builds the mask and the values.\<close>

fun output_masks :: "(u8 \<times> bool) list \<Rightarrow> u32 \<Rightarrow> u32 \<Rightarrow> (u32 \<times> u32) result" where
  "output_masks [] m v = Inr (m, v)"
| "output_masks ((gpio, high) # rest) m v =
     (if unat gpio \<ge> GPIO_COUNT then Inl (gpio_out_of_range gpio)
      else output_masks rest (m OR push_bit (unat gpio) 1)
        (if high then v OR push_bit (unat gpio) 1 else v))"

definition set_outputs :: "'w env \<Rightarrow> (u8 \<times> bool) list \<Rightarrow> ('w, unit) dev_op" where
  "set_outputs E lvls =
     seq_op (return_op (output_masks lvls 0 0)) (\<lambda>(m, v). write_outputs E m v)"

section \<open>ON and OFF\<close>

definition set_polarity :: "u8 \<Rightarrow> bool \<Rightarrow> device \<Rightarrow> device" where
  "set_polarity gpio active_low d = d\<lparr>polarity := (polarity d)(gpio \<mapsto> active_low)\<rparr>"

text \<open>
  Whether LOW means ON: the override if there is one, otherwise whether the pin has the
  pull-up. \<open>None\<close> is the panic of indexing outside the configuration.
\<close>

definition active_low_in :: "(u8 \<rightharpoonup> bool) \<Rightarrow> pin_config \<Rightarrow> u8 \<Rightarrow> bool option" where
  "active_low_in overrides config gpio = (case overrides gpio of
     Some active_low \<Rightarrow> Some active_low
   | None \<Rightarrow> map_option (\<lambda>s. mode s = PullUp) (config_at config gpio))"

definition is_active_low :: "device \<Rightarrow> u8 \<Rightarrow> pin_config \<Rightarrow> bool option" where
  "is_active_low d gpio config = active_low_in (polarity d) config gpio"

fun on_off_entries :: "(u8 \<rightharpoonup> bool) \<Rightarrow> pin_config \<Rightarrow> status_report \<Rightarrow> u8 list \<Rightarrow>
    (u8 \<times> bool) list option" where
  "on_off_entries overrides config report [] = Some []"
| "on_off_entries overrides config report (gpio # rest) =
     (case active_low_in overrides config gpio of
       None \<Rightarrow> None
     | Some low \<Rightarrow> map_option (\<lambda>es. (gpio, sr_level report gpio \<noteq> low) # es)
         (on_off_entries overrides config report rest))"

definition on_off :: "device \<Rightarrow> status_report \<Rightarrow> pin_config \<Rightarrow> (u8, bool) btree option" where
  "on_off d report config = map_option bt_collect
     (on_off_entries (polarity d) config report (mask_to_gpios (monitored report)))"

section \<open>The end of a device\<close>

definition device_serial :: "device \<Rightarrow> string" where
  "device_serial d = dev_serial d"

text \<open>\<open>close\<close> drops the device, which closes its transport.\<close>

definition device_close :: "'w env \<Rightarrow> device \<Rightarrow> 'w \<Rightarrow> 'w" where
  "device_close E d w = e_close E (dev_handle d) w"

end
