(* ===== verification/Device_Theorems.thy ===== *)
theory Device_Theorems
  imports Device
begin

text \<open>
  What the operations of \<open>Device\<close> promise, for every transport: request ids are fresh, an
  invalid configuration is never sent, a write that reports success was read back from the
  device, every error of a write names its cause, lost reports are counted, output masks and
  ON/OFF are those of the pins. The locale \<open>config_port\<close> states what a device that follows
  the protocol adds: then a write of a valid configuration succeeds.
\<close>

section \<open>Lemmas on the operations\<close>

lemma get_feature_device: "get_feature E rid d w = (r, d', w') \<Longrightarrow> d' = d"
  by (auto simp: get_feature_def Let_def split: prod.splits sum.splits if_splits)

lemma get_feature_length: "get_feature E rid d w = (Inr p, d', w') \<Longrightarrow> length p = 63"
  by (auto simp: get_feature_def Let_def REPORT_LEN_eq split: prod.splits sum.splits if_splits)

definition link_error :: "error \<Rightarrow> bool" where
  "link_error e \<longleftrightarrow> (case e of Io _ \<Rightarrow> True | Malformed _ \<Rightarrow> True | ProtocolVersion _ \<Rightarrow> True | _ \<Rightarrow> False)"

lemma link_error_simps [simp]:
  "link_error (Io x)" "link_error (Malformed m)" "link_error (ProtocolVersion v)"
  "\<not> link_error (PinConfigRejected r g l)" "\<not> link_error (PinConfigConflict a b)"
  "\<not> link_error PinConfigMismatch"
  by (simp_all add: link_error_def)

lemma get_feature_error: "get_feature E rid d w = (Inl e, d', w') \<Longrightarrow> link_error e"
  by (auto simp: get_feature_def Let_def short_feature_def wrong_feature_def
      split: prod.splits sum.splits if_splits)

lemma decode_info_error: "decode_device_info p = Inl e \<Longrightarrow> link_error e"
  by (auto simp: decode_device_info_def bad_length_def Let_def split: if_splits)

lemma decode_settings_link_error: "decode_settings p gs c = Inl e \<Longrightarrow> link_error e"
proof (induction p gs c rule: decode_settings.induct)
  case (2 p gpio rest config)
  then show ?case
    by (cases "mode_of_u8 (p ! (PIN_CONFIG_OFFSET + 2 * gpio))") (auto simp: undefined_mode_def)
qed simp

lemma decode_pins_error: "decode_pin_config p = Inl e \<Longrightarrow> link_error e"
  using decode_settings_link_error
  by (cases "decode_settings p [0..<GPIO_COUNT] unused_config")
    (auto simp: decode_pin_config_def bad_length_def split: if_splits)

lemma info_error: "info E d w = (Inl e, d', w') \<Longrightarrow> link_error e \<and> d' = d"
  using get_feature_error decode_info_error get_feature_device
  by (fastforce simp: info_def seq_op_Inl split: option.splits if_splits)

lemma info_Inr: "info E d w = (Inr i, d', w') \<Longrightarrow>
    d' = d\<lparr>dev_info := Some i\<rparr> \<and> (dev_info d = None \<longrightarrow> protocol_version i = PROTOCOL_VERSION)"
  using get_feature_device
  by (fastforce simp: info_def seq_op_Inr split: option.splits if_splits)

lemma get_pin_config_Inr: "get_pin_config E d w = (Inr r, d', w') \<Longrightarrow>
    d' = d\<lparr>dev_config := Some (pcr_config r)\<rparr> \<and> wf_config (pcr_config r)"
  using get_feature_device decode_pin_config_fields(2)
  by (fastforce simp: get_pin_config_def seq_op_Inr)

lemma get_pin_config_error: "get_pin_config E d w = (Inl e, d', w') \<Longrightarrow> link_error e \<and> d' = d"
  using get_feature_error decode_pins_error get_feature_device
  by (fastforce simp: get_pin_config_def seq_op_Inl)

lemma send_feature_device: "send_feature E x d w = (r, d', w') \<Longrightarrow> d' = d"
  by (auto simp: send_feature_def split: prod.splits)

lemma send_feature_error: "send_feature E x d w = (Inl e, d', w') \<Longrightarrow> link_error e"
  by (cases "fst (e_send_feature E (dev_handle d) x w)")
    (auto simp: send_feature_def split: prod.splits)

lemma next_request_id_Inr:
  assumes "next_request_id d w = (Inr rid, d', w')"
  shows "rid \<noteq> last_request_id d \<and> rid \<noteq> 0 \<and> w' = w \<and>
    (\<exists>ids. d' = d\<lparr>dev_request_ids := ids, last_request_id := rid\<rparr>)"
proof -
  obtain r ids where "draw_id (last_request_id d) (dev_request_ids d) = (r, ids)" by force
  then show ?thesis using assms draw_id_fresh by (auto simp: next_request_id_def)
qed

lemma next_request_id_total: "next_request_id d w \<noteq> (Inl e, d', w')"
  by (auto simp: next_request_id_def split: prod.splits)

definition set_report :: "pin_config \<Rightarrow> u8 \<Rightarrow> pin_config_report" where
  "set_report config rid = \<lparr>pcr_result = RESULT_OK, result_gpio = RESULT_GPIO_NONE,
     request_id = rid, pcr_config = config\<rparr>"

lemma encode_set_Inr: "rid \<noteq> 0 \<Longrightarrow>
    encode_pin_config_set config rid = Inr (encode_pin_config (set_report config rid))"
  by (simp add: encode_pin_config_set_def set_report_def)

text \<open>The course of \<open>set_pin_config\<close> after the checks that need no report.\<close>

definition write_and_verify :: "'w env \<Rightarrow> pin_config \<Rightarrow> u8 \<Rightarrow> ('w, pin_config_report) dev_op" where
  "write_and_verify E config rid =
     seq_op (send_feature E (REPORT_ID_PIN_CONFIG # encode_pin_config (set_report config rid))) (\<lambda>_.
     seq_op (get_pin_config E) (\<lambda>read. return_op (verify_config config rid read)))"

lemma set_pin_config_unfold:
  assumes "info E d w = (Inr i, d1, w1)"
    and "fst (validate_pin_config config (available i)) = RESULT_OK"
    and "draw_id (last_request_id d1) (dev_request_ids d1) = (rid, ids)"
  shows "set_pin_config E config d w =
    write_and_verify E config rid (d1\<lparr>dev_request_ids := ids, last_request_id := rid\<rparr>) w1"
  using assms draw_id_fresh [OF assms(3)]
  by (simp add: set_pin_config_def seq_op_def [of "info E"] seq_op_def [of next_request_id]
      seq_op_def [of "return_op _"] next_request_id_def encode_set_Inr return_op_def
      write_and_verify_def fst_def split: prod.splits)

lemma set_pin_config_invalid:
  assumes "info E d w = (Inr i, d1, w1)" "validate_pin_config config (available i) = (res, g)"
    and "res \<noteq> RESULT_OK"
  shows "set_pin_config E config d w = (Inl (PinConfigRejected res g True), d1, w1)"
  using assms by (simp add: set_pin_config_def seq_op_def return_op_def)

lemma set_pin_config_no_info:
  assumes "info E d w = (Inl e, d1, w1)"
  shows "set_pin_config E config d w = (Inl e, d1, w1)"
  using assms by (simp add: set_pin_config_def seq_op_def)

lemma write_and_verify_Inr:
  assumes "write_and_verify E config rid d w = (Inr read, d', w')"
  shows "pcr_config read = config \<and> pcr_result read = RESULT_OK \<and> request_id read = rid \<and>
    d' = d\<lparr>dev_config := Some config\<rparr> \<and> wf_config config"
  using assms get_pin_config_Inr send_feature_device
  by (fastforce simp: write_and_verify_def seq_op_Inr verify_config_def split: if_splits)

lemma verify_config_error:
  assumes "verify_config config rid read = Inl e"
  shows "(request_id read \<noteq> rid \<and> e = PinConfigConflict rid (request_id read)) \<or>
    (request_id read = rid \<and> pcr_result read \<noteq> RESULT_OK \<and>
      e = PinConfigRejected (pcr_result read) (result_gpio read) False) \<or>
    (request_id read = rid \<and> pcr_result read = RESULT_OK \<and> pcr_config read \<noteq> config \<and>
      e = PinConfigMismatch)"
  using assms by (auto simp: verify_config_def split: if_splits)

lemma write_and_verify_Inl:
  assumes "write_and_verify E config rid d w = (Inl e, d', w')"
  shows "link_error e \<or> (\<exists>read d1 w1. get_pin_config E d1 w1 = (Inr read, d', w') \<and>
    verify_config config rid read = Inl e)"
  using assms send_feature_error get_pin_config_error
  by (fastforce simp: write_and_verify_def seq_op_Inl)

lemma write_and_verify_ids:
  assumes "write_and_verify E config rid d w = (r, d', w')"
  shows "last_request_id d' = last_request_id d \<and> dev_info d' = dev_info d \<and>
    dev_handle d' = dev_handle d"
proof (cases r)
  case (Inr read)
  then show ?thesis using write_and_verify_Inr assms by fastforce
next
  case (Inl e)
  with assms show ?thesis
    using get_pin_config_error send_feature_device
    by (fastforce simp: write_and_verify_def seq_op_Inl dest: get_pin_config_Inr)
qed

lemma set_pin_config_cases:
  assumes "set_pin_config E config d w = (r, d', w')"
  obtains (no_info) e where "info E d w = (Inl e, d', w')" "r = Inl e"
  | (invalid) i res g where "info E d w = (Inr i, d', w')"
      "validate_pin_config config (available i) = (res, g)" "res \<noteq> RESULT_OK"
      "r = Inl (PinConfigRejected res g True)"
  | (sent) i d1 w1 rid ids where "info E d w = (Inr i, d1, w1)"
      "fst (validate_pin_config config (available i)) = RESULT_OK"
      "draw_id (last_request_id d1) (dev_request_ids d1) = (rid, ids)"
      "write_and_verify E config rid (d1\<lparr>dev_request_ids := ids, last_request_id := rid\<rparr>) w1 =
        (r, d', w')"
proof -
  obtain x d1 w1 where info: "info E d w = (x, d1, w1)" by (metis prod_cases3)
  show thesis
  proof (cases x)
    case (Inl e)
    then show thesis using no_info [of e] info set_pin_config_no_info assms by fastforce
  next
    case (Inr i)
    obtain res g where v: "validate_pin_config config (available i) = (res, g)" by force
    obtain rid ids where dr: "draw_id (last_request_id d1) (dev_request_ids d1) = (rid, ids)"
      by force
    show thesis
    proof (cases "res = RESULT_OK")
      case True
      then show thesis using sent [of i d1 w1 rid ids] info Inr v dr assms set_pin_config_unfold
        by fastforce
    next
      case False
      then show thesis using invalid [of i res g] info Inr v assms set_pin_config_invalid by fastforce
    qed
  qed
qed

section \<open>Writing a configuration\<close>

text \<open>The request id is drawn in finitely many steps: it is the first of the generator's ids that
  differs from the last one used, and it is between 1 and 255.\<close>

lemma draw_id_spec:
  "\<exists>n. draw_id lid r = (id_of (ids_state ((ids_step ^^ Suc n) r)), (ids_step ^^ Suc n) r) \<and>
     id_of (ids_state ((ids_step ^^ Suc n) r)) \<noteq> lid \<and>
     list_all (\<lambda>k. id_of (ids_state ((ids_step ^^ Suc k) r)) = lid) [0..<n]"
proof (induction lid r rule: draw_id.induct)
  case (1 lid r)
  show ?case
  proof (cases "id_of (ids_state (ids_step r)) = lid")
    case True
    then obtain n where n:
      "draw_id lid (ids_step r) = (id_of (ids_state ((ids_step ^^ Suc (Suc n)) r)), (ids_step ^^ Suc (Suc n)) r)"
      "id_of (ids_state ((ids_step ^^ Suc (Suc n)) r)) \<noteq> lid"
      "\<And>k. k < n \<Longrightarrow> id_of (ids_state ((ids_step ^^ Suc (Suc k)) r)) = lid"
      using "1.IH" [of "ids_next r" "id_of (ids_state (ids_step r))" "ids_step r"]
      by (auto simp: ids_next_def Let_def list_all_iff funpow_swap1)
    have "id_of (ids_state ((ids_step ^^ Suc k) r)) = lid" if "k < Suc n" for k
      using that n(3) [of "k - 1"] True by (cases k) auto
    moreover have "draw_id lid r = draw_id lid (ids_step r)"
      using True by (subst draw_id.simps) (simp add: ids_next_def Let_def)
    ultimately show ?thesis
      using n(1,2) by (intro exI [of _ "Suc n"]) (simp add: list_all_iff del: funpow.simps)
  next
    case False
    then have "draw_id lid r = (id_of (ids_state (ids_step r)), ids_step r)"
      by (subst draw_id.simps) (simp add: ids_next_def Let_def)
    with False show ?thesis by (intro exI [of _ 0]) simp
  qed
qed

section \<open>Counting lost reports\<close>

lemma note_seq_next:
  assumes "\<not> flags_contains (sr_reason r) HOST_REQUEST" "dev_last_seq d = Some (word_of_nat m)"
    and "seq r = word_of_nat n" "m < n" "n \<le> m + 65536"
  shows "note_seq r d = d\<lparr>dev_missed := dev_missed d + word_of_nat (n - m - 1),
    dev_last_seq := Some (word_of_nat n)\<rparr>"
proof -
  obtain k where k: "n = Suc (m + k)" using assms(4) less_iff_Suc_add by auto
  then have "k < 65536" using assms(5) by simp
  have "(word_of_nat n :: u16) - word_of_nat m - 1 = word_of_nat k" by (simp add: k)
  then have "(ucast ((word_of_nat n :: u16) - word_of_nat m - 1) :: u64) = word_of_nat k"
    using \<open>k < 65536\<close> by (simp add: word_unat_eq_iff unsigned_ucast_eq unat_of_nat take_bit_nat_eq_self)
  then show ?thesis using assms(1-3) k by (simp add: note_seq_def)
qed

text \<open>\<open>numbered ns rs\<close>: the reports \<open>rs\<close> are those the device numbered \<open>ns\<close>, and none answers a
  request.\<close>

definition numbered :: "nat list \<Rightarrow> status_report list \<Rightarrow> bool" where
  "numbered ns rs \<longleftrightarrow>
     list_all2 (\<lambda>n r. seq r = word_of_nat n \<and> \<not> flags_contains (sr_reason r) HOST_REQUEST) ns rs"

fun gaps_ok :: "nat \<Rightarrow> nat list \<Rightarrow> bool" where
  "gaps_ok m [] = True"
| "gaps_ok m (n # ns) = (m < n \<and> n \<le> m + 65536 \<and> gaps_ok n ns)"

lemma gaps_ok_length: "gaps_ok m ns \<Longrightarrow> m + length ns \<le> last (m # ns)"
  by (induction m ns rule: gaps_ok.induct) auto

lemma missed_fold:
  assumes "numbered ns rs" "gaps_ok m ns" "dev_last_seq d = Some (word_of_nat m)"
  shows "dev_missed (fold note_seq rs d) =
    dev_missed d + word_of_nat (last (m # ns) - m - length ns)"
  using assms
proof (induction ns arbitrary: rs m d)
  case Nil
  then show ?case by (simp add: numbered_def)
next
  case (Cons n ns)
  then obtain r rs' where rs: "rs = r # rs'" by (auto simp: numbered_def list_all2_Cons1)
  have n: "m < n" "n \<le> m + 65536" "gaps_ok n ns" using Cons.prems by auto
  let ?d = "note_seq r d"
  have step: "?d = d\<lparr>dev_missed := dev_missed d + word_of_nat (n - m - 1),
      dev_last_seq := Some (word_of_nat n)\<rparr>"
    using Cons.prems n rs by (intro note_seq_next) (auto simp: numbered_def)
  have "dev_missed (fold note_seq rs' ?d) = dev_missed ?d + word_of_nat (last (n # ns) - n - length ns)"
    using Cons.prems n rs by (intro Cons.IH) (auto simp: numbered_def step)
  moreover have "last (m # n # ns) - m - length (n # ns) = (n - m - 1) + (last (n # ns) - n - length ns)"
    using gaps_ok_length [OF n(3)] n(1) by simp
  ultimately show ?case by (simp add: rs step)
qed

section \<open>Masks and ON/OFF\<close>

lemma output_masks_bits:
  "output_masks lv m0 v0 = Inr (m, v) \<Longrightarrow> n < 32 \<Longrightarrow>
     (bit m n \<longleftrightarrow> bit m0 n \<or> (\<exists>h. (word_of_nat n, h) \<in> set lv)) \<and>
     (bit v n \<longleftrightarrow> bit v0 n \<or> (word_of_nat n, True) \<in> set lv)"
proof (induction lv m0 v0 rule: output_masks.induct)
  case (1 m v)
  then show ?case by simp
next
  case (2 gpio high rest m0 v0)
  then have g: "unat gpio < 30" by (auto simp: GPIO_COUNT_def split: if_splits)
  have eq: "word_of_nat n = gpio \<longleftrightarrow> n = unat gpio"
    using \<open>n < 32\<close> by (auto simp: word_unat_eq_iff unat_of_nat)
  have b: "bit (w OR 2 ^ unat gpio :: u32) n \<longleftrightarrow> bit w n \<or> n = unat gpio" for w
    using \<open>n < 32\<close> by (auto simp: bit_or_iff bit_exp_iff)
  have "output_masks rest (m0 OR push_bit (unat gpio) 1)
      (if high then v0 OR push_bit (unat gpio) 1 else v0) = Inr (m, v)"
    using 2 g by (simp add: GPIO_COUNT_def)
  from "2.IH" [OF _ this \<open>n < 32\<close>] g show ?case
    by (auto simp: GPIO_COUNT_def b eq split: if_splits)
qed

lemma bit_word_beyond: "\<not> n < 32 \<Longrightarrow> \<not> bit (w :: u32) n"
  using bit_imp_le_length [of w n] by auto

lemma output_masks_error:
  "output_masks lv m v = Inl e \<longleftrightarrow>
     (\<exists>g. find (\<lambda>(g, _). 30 \<le> unat g) lv = Some g \<and> e = gpio_out_of_range (fst g))"
  by (induction lv m v rule: output_masks.induct) (auto simp: GPIO_COUNT_def)

lemma active_low_Some:
  "wf_config c \<Longrightarrow> unat g < 30 \<Longrightarrow> active_low_in p c g =
     Some (case p g of None \<Rightarrow> mode (c ! unat g) = PullUp | Some l \<Rightarrow> l)"
  by (simp add: active_low_in_def config_at_Some split: option.split)

lemma on_off_entries_Some:
  "wf_config c \<Longrightarrow> \<forall>g \<in> set gs. unat g < 30 \<Longrightarrow> on_off_entries p c r gs =
     Some (map (\<lambda>g. (g, sr_level r g \<noteq> the (active_low_in p c g))) gs)"
  by (induction gs) (auto simp: active_low_Some)

lemma map_of_map_pair: "map_of (map (\<lambda>g. (g, f g)) gs) g = (if g \<in> set gs then Some (f g) else None)"
  by (induction gs) auto

lemma on_off_Some:
  assumes "wf_config c"
  shows "map_option bt_collect (on_off_entries p c r (mask_to_gpios m)) =
    Some (map (\<lambda>g. (g, sr_level r g \<noteq> the (active_low_in p c g))) (mask_to_gpios m))"
proof -
  have "bt_ordered (map (\<lambda>g. (g, sr_level r g \<noteq> the (active_low_in p c g))) (mask_to_gpios m))"
    using sorted_mask_to_gpios [of m] by (simp add: bt_ordered_def comp_def)
  then show ?thesis
    using assms by (simp add: on_off_entries_Some set_mask_to_gpios collect_ordered)
qed

section \<open>A device that follows the protocol\<close>

lemma get_feature_full:
  assumes "e_get_feature E (dev_handle d) (request rid) w = (Inr 64, rid # p, w')" "length p = 63"
  shows "get_feature E rid d w = (Inr p, d, w')"
  using assms by (simp add: get_feature_def Let_def REPORT_LEN_eq fill_all)

locale config_port =
  fixes E :: "'w env" and h :: handle and avail :: u32 and good :: "'w \<Rightarrow> bool"
    and holds :: "pin_config \<Rightarrow> 'w \<Rightarrow> bool"
  assumes read_info: "good w \<Longrightarrow> \<exists>i w'.
      e_get_feature E h (request REPORT_ID_DEVICE_INFO) w =
        (Inr 64, REPORT_ID_DEVICE_INFO # encode_device_info i, w') \<and>
      protocol_version i = PROTOCOL_VERSION \<and> available i = avail \<and> good w'"
    and write_read: "good w \<Longrightarrow> wf_config c \<Longrightarrow> config_ok avail c \<Longrightarrow> rid \<noteq> 0 \<Longrightarrow> \<exists>n w1 w2.
      e_send_feature E h (REPORT_ID_PIN_CONFIG # encode_pin_config (set_report c rid)) w = (Inr n, w1) \<and>
      e_get_feature E h (request REPORT_ID_PIN_CONFIG) w1 =
        (Inr 64, REPORT_ID_PIN_CONFIG # encode_pin_config (set_report c rid), w2) \<and> good w2 \<and> holds c w2"
begin

lemma info_succeeds:
  assumes "good w" "dev_handle d = h" "\<forall>i. dev_info d = Some i \<longrightarrow> available i = avail"
  shows "\<exists>i w'. info E d w = (Inr i, d\<lparr>dev_info := Some i\<rparr>, w') \<and> available i = avail \<and> good w'"
proof (cases "dev_info d")
  case (Some i)
  then have "d\<lparr>dev_info := Some i\<rparr> = d" by simp
  then show ?thesis using assms Some by (auto simp: info_def)
next
  case None
  obtain i w' where r: "e_get_feature E h (request REPORT_ID_DEVICE_INFO) w =
      (Inr 64, REPORT_ID_DEVICE_INFO # encode_device_info i, w')"
    "protocol_version i = PROTOCOL_VERSION" "available i = avail" "good w'"
    using read_info [OF assms(1)] by blast
  then show ?thesis
    using assms None
    by (auto simp: info_def seq_op_def get_feature_full return_op_def decode_encode_device_info)
qed

lemma write_succeeds:
  assumes "good w" "dev_handle d = h" "\<forall>i. dev_info d = Some i \<longrightarrow> available i = avail"
    and c: "wf_config c" "config_ok avail c"
  shows "\<exists>read d' w'. set_pin_config E c d w = (Inr read, d', w') \<and> pcr_config read = c \<and> good w' \<and> holds c w'"
proof -
  obtain i w1 where i: "info E d w = (Inr i, d\<lparr>dev_info := Some i\<rparr>, w1)" "available i = avail" "good w1"
    using info_succeeds [OF assms(1-3)] by blast
  let ?d = "d\<lparr>dev_info := Some i\<rparr>"
  obtain rid ids where dr: "draw_id (last_request_id ?d) (dev_request_ids ?d) = (rid, ids)" by force
  then have "rid \<noteq> 0" using draw_id_fresh by blast
  then obtain n w2 w3 where wr:
    "e_send_feature E h (REPORT_ID_PIN_CONFIG # encode_pin_config (set_report c rid)) w1 = (Inr n, w2)"
    "e_get_feature E h (request REPORT_ID_PIN_CONFIG) w2 =
      (Inr 64, REPORT_ID_PIN_CONFIG # encode_pin_config (set_report c rid), w3)" "good w3" "holds c w3"
    using write_read [OF i(3) c] by blast
  have "fst (validate_pin_config c (available i)) = RESULT_OK"
    using validate_pin_config_OK [OF c(1)] c(2) i(2) by simp
  moreover have "decode_pin_config (encode_pin_config (set_report c rid)) = Inr (set_report c rid)"
    by (rule decode_encode_pin_config) (simp add: set_report_def c)
  ultimately show ?thesis
    using wr assms(2)
    by (simp add: set_pin_config_unfold [OF i(1) _ dr] write_and_verify_def seq_op_def send_feature_def
        get_pin_config_def get_feature_full return_op_def verify_config_def)
      (simp add: set_report_def)
qed

end

section \<open>Properties of the device\<close>

text \<open>C33: Drawing a request id ends: the id is the first of the generator's that differs from the
  last one, and it is never 0. The number of draws is finite because the generator visits
  every nonzero word.\<close>

theorem request_id_fresh:
  "\<exists>n. draw_id lid r = (id_of (ids_state ((ids_step ^^ Suc n) r)), (ids_step ^^ Suc n) r) \<and>
     fst (draw_id lid r) \<noteq> lid \<and> fst (draw_id lid r) \<noteq> 0 \<and>
     list_all (\<lambda>k. id_of (ids_state ((ids_step ^^ Suc k) r)) = lid) [0..<n]"
  using draw_id_spec [of lid r] id_of_pos by auto

text \<open>Asking for the information reads it if it is not known, and remembers it.\<close>

lemma info_reads_only:
  assumes "info E d w = (Inr i, d1, w1)"
  shows "d1 = d\<lparr>dev_info := Some i\<rparr> \<and> (if dev_info d = None
     then \<exists>r data. e_get_feature E (dev_handle d) (request REPORT_ID_DEVICE_INFO) w = (r, data, w1)
     else dev_info d = Some i \<and> w1 = w)"
proof (cases "dev_info d")
  case None
  then show ?thesis
    using assms by (auto simp: info_def seq_op_Inr get_feature_def Let_def return_op_def split: prod.splits sum.splits if_splits)
next
  case (Some j)
  then have "d1 = d" "w1 = w" "i = j" using assms by (simp_all add: info_def)
  then show ?thesis using Some by (cases d) simp
qed

text \<open>C34: A configuration that breaks a rule of the board is refused before anything is sent: at most the
  information of the device is read, if it was not known yet, and only that is remembered.\<close>

theorem invalid_config_not_sent:
  assumes "info E d w = (Inr i, d1, w1)" "wf_config c" "\<not> config_ok (available i) c"
  shows "\<exists>res g. set_pin_config E c d w = (Inl (PinConfigRejected res g True), d1, w1) \<and>
    validate_pin_config c (available i) = (res, g) \<and> res \<noteq> RESULT_OK \<and> d1 = d\<lparr>dev_info := Some i\<rparr> \<and>
    (if dev_info d = None
     then \<exists>r data. e_get_feature E (dev_handle d) (request REPORT_ID_DEVICE_INFO) w = (r, data, w1)
     else dev_info d = Some i \<and> w1 = w)"
proof -
  obtain res g where v: "validate_pin_config c (available i) = (res, g)" by force
  then have "res \<noteq> RESULT_OK" using validate_pin_config_OK [OF assms(2), of "available i"] assms(3) by simp
  then show ?thesis
    using set_pin_config_invalid [OF assms(1) v] info_reads_only [OF assms(1)] v by auto
qed

definition sample_info :: device_info where
  "sample_info = \<lparr>protocol_version = 1, firmware = (0, 1, 0), di_board = PICO, gpio_count = 30,
     periodic_interval_ms = 1000, available = 0, events_per_report = 7, event_queue_size = 32,
     di_chip = 0, chip_revision = 0, di_quirks = 0, sdk_board = []\<rparr>"

definition sample_device :: device where
  "sample_device = \<lparr>dev_handle = 0, dev_serial = [], dev_info = Some sample_info, dev_config = None,
     polarity = Map.empty, dev_request_ids = ids_new 0 1, last_request_id = 0,
     dev_last_seq = Some 0, dev_missed = 0\<rparr>"

text \<open>An environment in which every report fails.\<close>

definition dead_error :: io_error where
  "dead_error = Io_Error NotConnected ''gone''"

definition dead_env :: "nat env" where
  "dead_env = \<lparr>e_devices = (\<lambda>w. (Inr [], w)), e_open = (\<lambda>_ w. (Inl UnsupportedPlatform, w)),
     e_close = (\<lambda>_ w. w), e_read = (\<lambda>_ _ _ w. Some (Inl dead_error, [], Suc w)),
     e_write = (\<lambda>_ _ w. (Inl dead_error, Suc w)),
     e_get_feature = (\<lambda>_ _ w. (Inl dead_error, [], Suc w)),
     e_send_feature = (\<lambda>_ _ w. (Inl dead_error, Suc w)),
     e_get_input = (\<lambda>_ _ w. (Inl dead_error, [], Suc w)),
     e_now = (\<lambda>w. (Instant 0, w)), e_wall = (\<lambda>w. (0, w)), e_pid = 1\<rparr>"

definition one_output :: pin_config where
  "one_output = unused_config[3 := output_setting True]"

lemma one_output_wf: "wf_config one_output"
  by (simp add: one_output_def)

lemma one_output_not_ok: "\<not> config_ok 0 one_output"
proof -
  have "\<not> setting_ok (bit (0 :: u32) 3) (one_output ! 3)"
    by (simp add: one_output_def setting_ok_def output_setting_def wf_config_length [OF wf_unused])
  moreover have "(3 :: nat) < 30" by simp
  ultimately show ?thesis unfolding config_ok_nth by blast
qed

text \<open>A device that answers with its information and fails at everything else.\<close>

definition info_env :: "nat env" where
  "info_env = dead_env\<lparr>e_get_feature := (\<lambda>_ _ w. (Inr 64, REPORT_ID_DEVICE_INFO # encode_device_info sample_info, Suc w))\<rparr>"

lemma info_env_info:
  "info info_env (sample_device\<lparr>dev_info := None\<rparr>) 0 = (Inr sample_info, sample_device, 1)"
proof -
  let ?p = "encode_device_info sample_info"
  have p: "decode_device_info ?p = Inr sample_info" "length ?p = 63" by code_simp+
  have "get_feature info_env REPORT_ID_DEVICE_INFO (sample_device\<lparr>dev_info := None\<rparr>) 0 =
      (Inr ?p, sample_device\<lparr>dev_info := None\<rparr>, 1)"
    using p(2) by (simp add: get_feature_def info_env_def fill_def REPORT_LEN_eq Let_def)
  then show ?thesis
    using p(1) by (simp add: info_def seq_op_def return_op_def sample_device_def sample_info_def PROTOCOL_VERSION_def)
qed

theorem invalid_config_not_sent_witness:
  "\<exists>res g. set_pin_config info_env one_output (sample_device\<lparr>dev_info := None\<rparr>) 0 =
     (Inl (PinConfigRejected res g True), sample_device, 1)"
proof -
  have "available sample_info = 0" by (simp add: sample_info_def)
  then show ?thesis
    using invalid_config_not_sent [OF info_env_info one_output_wf] one_output_not_ok by metis
qed

text \<open>C14: A write that returns a report was confirmed by the device: the report carries the id
  drawn for this write, the result 0 and the very configuration that was asked for, which is
  valid for the board and is what the device remembers.\<close>

theorem applied_config_verified:
  assumes "set_pin_config E c d w = (Inr read, d', w')"
  shows "pcr_config read = c \<and> pcr_result read = RESULT_OK \<and> request_id read = last_request_id d' \<and>
    last_request_id d' \<noteq> last_request_id d \<and> last_request_id d' \<noteq> 0 \<and>
    dev_config d' = Some c \<and> wf_config c \<and>
    (\<exists>i. dev_info d' = Some i \<and> config_ok (available i) c)"
  using assms
proof (cases rule: set_pin_config_cases)
  case (sent i d1 w1 rid ids)
  note wv = write_and_verify_Inr [OF sent(4)] write_and_verify_ids [OF sent(4)]
  have d1: "d1 = d\<lparr>dev_info := Some i\<rparr>" using info_Inr [OF sent(1)] by simp
  have "config_ok (available i) c" using validate_pin_config_OK sent(2) wv by blast
  then show ?thesis
    using wv draw_id_fresh [OF sent(3)] by (simp add: d1)
qed simp_all

text \<open>C35: The errors of a write say what happened: a local rejection is the validation's answer,
  a conflict is another id read back, a rejection by the device and a mismatch are only
  reported when the id read back is the one that was sent; anything else is an error of the
  link.\<close>

theorem write_errors_named:
  assumes "set_pin_config E c d w = (Inl e, d', w')"
  shows "link_error e \<or>
    (\<exists>i res g. e = PinConfigRejected res g True \<and> dev_info d' = Some i \<and>
      validate_pin_config c (available i) = (res, g) \<and> res \<noteq> RESULT_OK) \<or>
    (\<exists>read d1 w1. get_pin_config E d1 w1 = (Inr read, d', w') \<and>
      (if request_id read \<noteq> last_request_id d'
       then e = PinConfigConflict (last_request_id d') (request_id read)
       else if pcr_result read \<noteq> RESULT_OK
       then e = PinConfigRejected (pcr_result read) (result_gpio read) False
       else pcr_config read \<noteq> c \<and> e = PinConfigMismatch))"
  using assms
proof (cases rule: set_pin_config_cases)
  case (no_info e')
  then show ?thesis using info_error by fastforce
next
  case (invalid i res g)
  then show ?thesis using info_Inr [OF invalid(1)] by auto
next
  case (sent i d1 w1 rid ids)
  have "last_request_id d' = rid" using write_and_verify_ids [OF sent(4)] by simp
  then show ?thesis
    using write_and_verify_Inl [OF sent(4)] verify_config_error [of c rid] by metis
qed

theorem write_errors_named_witness:
  "\<exists>e d' w'. set_pin_config dead_env unused_config sample_device 0 = (Inl e, d', w') \<and>
     (link_error e \<or> is_rejected e \<or> is_conflict e \<or> e = PinConfigMismatch)"
proof -
  have no: "set_pin_config dead_env c sample_device 0 \<noteq> (Inr r, d', w')" for c r d' w'
  proof
    assume "set_pin_config dead_env c sample_device 0 = (Inr r, d', w')"
    then show False
    proof (cases rule: set_pin_config_cases)
      case (sent i d1 w1 rid ids)
      then show False
        by (auto simp: write_and_verify_def seq_op_Inr send_feature_def dead_env_def)
    qed simp_all
  qed
  obtain r d' w' where s: "set_pin_config dead_env unused_config sample_device 0 = (r, d', w')"
    by (metis prod_cases3)
  then obtain e where e: "r = Inl e" using no by (cases r) auto
  have "link_error e \<or> is_rejected e \<or> is_conflict e \<or> e = PinConfigMismatch"
    using write_errors_named [OF s [unfolded e]] by (fastforce split: if_splits)
  with s e show ?thesis by blast
qed

text \<open>The device information is accepted only with the protocol version of the library, and
  is read once: later calls return it without touching the device.\<close>

theorem info_checked_once:
  assumes "info E d w = (Inr i, d', w')"
  shows "info E d' w2 = (Inr i, d', w2) \<and>
    (dev_info d = None \<longrightarrow> protocol_version i = PROTOCOL_VERSION)"
  using info_Inr [OF assms] by (auto simp: info_def)

theorem info_checked_once_witness:
  "info dead_env sample_device 5 = (Inr sample_info, sample_device, 5)"
  using info_checked_once [of dead_env sample_device 0 sample_info sample_device 0 5]
  by (simp add: info_def sample_device_def)

text \<open>C36: The counter of missed reports grows by the number of reports the device numbered and
  the host did not read, across the wrap of the 16-bit number, as long as no gap is longer
  than 65535 reports.\<close>

theorem missed_reports_exact:
  assumes "numbered ns rs" "gaps_ok m ns" "dev_last_seq d = Some (word_of_nat m)"
  shows "missed_reports (fold note_seq rs d) =
    missed_reports d + word_of_nat (last (m # ns) - m - length ns)"
  using missed_fold [OF assms] by (simp add: missed_reports_def)

definition quiet_report :: "u16 \<Rightarrow> status_report" where
  "quiet_report n = \<lparr>seq = n, sr_reason = LEVEL_CHANGED, sr_flags = 0, monitored = 0, outputs = 0,
     levels = 0, timestamp_us = 0, events = []\<rparr>"

theorem missed_reports_exact_witness:
  "missed_reports (fold note_seq [quiet_report 2, quiet_report 5] sample_device) = 3"
  using missed_reports_exact [of "[2, 5]" "[quiet_report 2, quiet_report 5]" 0 sample_device]
  by (simp add: numbered_def quiet_report_def flags_contains_def wire_defs sample_device_def
      missed_reports_def)

text \<open>Driving outputs sends one report whose mask is exactly the pins named and whose values
  are exactly those set HIGH; a GPIO outside 0-29 is an error and nothing is sent.\<close>

theorem outputs_sent_exactly:
  "set_outputs E lv d w =
     (case find (\<lambda>(g, _). 30 \<le> unat g) lv of
        Some (g, _) \<Rightarrow> (Inl (gpio_out_of_range g), d, w)
      | None \<Rightarrow> write_outputs E (fst (projr (output_masks lv 0 0))) (snd (projr (output_masks lv 0 0))) d w) \<and>
   (find (\<lambda>(g, _). 30 \<le> unat g) lv = None \<longrightarrow>
     (\<exists>m v. output_masks lv 0 0 = Inr (m, v) \<and>
       (\<forall>n. bit m n \<longleftrightarrow> n < 32 \<and> (\<exists>h. (word_of_nat n, h) \<in> set lv)) \<and>
       (\<forall>n. bit v n \<longleftrightarrow> n < 32 \<and> (word_of_nat n, True) \<in> set lv)))"
proof (cases "output_masks lv 0 0")
  case (Inl e)
  then show ?thesis
    using output_masks_error [of lv 0 0 e] by (auto simp: set_outputs_def seq_op_def return_op_def)
next
  case (Inr mv)
  obtain m v where mv: "mv = (m, v)" by (cases mv)
  have none: "find (\<lambda>(g, _). 30 \<le> unat g) lv = None"
    using output_masks_error [of lv 0 0] Inr by (cases "find (\<lambda>(g, _). 30 \<le> unat g) lv") auto
  have "bit m n \<longleftrightarrow> n < 32 \<and> (\<exists>h. (word_of_nat n, h) \<in> set lv)"
    "bit v n \<longleftrightarrow> n < 32 \<and> (word_of_nat n, True) \<in> set lv" for n
    using output_masks_bits [OF Inr [unfolded mv], of n]
    by (cases "n < 32"; simp add: bit_word_beyond)+
  then show ?thesis using Inr none by (simp add: mv set_outputs_def seq_op_def return_op_def)
qed

theorem outputs_sent_exactly_witness:
  "\<exists>m v. output_masks [(3, True)] 0 0 = Inr (m, v) \<and> bit m 3 \<and> bit v 3"
  using outputs_sent_exactly [of dead_env "[(3, True)]" sample_device 0] by force

text \<open>The ON/OFF map of a report has exactly its monitored pins, in order, each ON when its
  level differs from the level that means OFF; no pin of a report makes it panic.\<close>

theorem on_off_exact:
  assumes "wf_config c"
  shows "\<exists>m. on_off d r c = Some m \<and> bt_ordered m \<and>
    (\<forall>g. map_of m g = (if unat g < 30 \<and> sr_is_monitored r g
       then Some (sr_level r g \<noteq> (case polarity d g of None \<Rightarrow> mode (c ! unat g) = PullUp | Some l \<Rightarrow> l))
       else None))"
proof -
  let ?m = "map (\<lambda>g. (g, sr_level r g \<noteq> the (active_low_in (polarity d) c g))) (mask_to_gpios (monitored r))"
  have "on_off d r c = Some ?m"
    using on_off_Some [OF assms, of "polarity d" r "monitored r"] by (simp add: on_off_def)
  moreover have "bt_ordered ?m"
    using sorted_mask_to_gpios [of "monitored r"] by (simp add: bt_ordered_def comp_def)
  moreover have "map_of ?m g = (if unat g < 30 \<and> sr_is_monitored r g
       then Some (sr_level r g \<noteq> (case polarity d g of None \<Rightarrow> mode (c ! unat g) = PullUp | Some l \<Rightarrow> l))
       else None)" for g
    using active_low_Some [OF assms, of g "polarity d"]
    by (simp add: map_of_map_pair set_mask_to_gpios sr_is_monitored_def)
  ultimately show ?thesis by blast
qed

theorem on_off_exact_witness: "\<exists>m. on_off sample_device (quiet_report 0) unused_config = Some m \<and> bt_ordered m"
  using on_off_exact [OF wf_unused, of sample_device "quiet_report 0"] by blast

text \<open>C37: Changing some pins keeps every other pin as the device had it: the configuration applied
  is the one read first with the last setting given for each pin.\<close>

theorem update_keeps_other_pins:
  assumes "update_pins E ps d w = (Inr read, d', w')"
  shows "\<exists>before d1 w1. get_pin_config E d w = (Inr before, d1, w1) \<and>
    (\<forall>n < 30. pcr_config read ! n =
      (case map_of (rev ps) (word_of_nat n) of None \<Rightarrow> pcr_config before ! n | Some s \<Rightarrow> s))"
proof -
  obtain before d1 w1 c where b: "get_pin_config E d w = (Inr before, d1, w1)"
    "with_pins (pcr_config before) ps = Inr c" "set_pin_config E c d1 w1 = (Inr read, d', w')"
    using assms by (auto simp: update_pins_def seq_op_Inr)
  have "pcr_config read = c"
    using b(3)
  proof (cases rule: set_pin_config_cases)
    case (sent i d2 w2 rid ids)
    then show ?thesis using write_and_verify_Inr [OF sent(4)] by simp
  qed simp_all
  then show ?thesis using b(1) with_pins_nth [OF b(2)] get_pin_config_Inr [OF b(1)] by simp
qed

end
