(* ===== verification/Fake_Board.thy ===== *)
theory Fake_Board
  imports Device
begin

text \<open>
  The simulated board of \<open>rust/src/testing.rs\<close>: the state of a \<open>FakeBoard\<close> and what happens
  to it. The queues of the open handles, which the sources share by \<open>Arc\<close>, are a list; a
  handle is its index, so that identity of an \<open>Arc\<close> is equality of indices. \<open>None\<close> is a panic:
  an index outside the 30 GPIOs, or one of the \<open>expect\<close> calls.
\<close>

section \<open>State\<close>

definition PICO_AVAILABLE :: u32 where "PICO_AVAILABLE = 0x1C7FFFFF"
definition QUEUE_LEN :: nat where "QUEUE_LEN = 64"

text \<open>The queue of a handle, and the board it belongs to.\<close>

record fake_handle =
  fh_board :: nat
  reports :: "bytes list"
  closed :: bool
  gone_away :: bool

record board_state =
  b_path :: string
  powered :: bool
  open_error :: "io_kind option"
  b_info :: device_info
  b_config :: pin_config
  b_result :: result_code
  b_result_gpio :: u8
  b_request_id :: u8
  inputs :: u32
  b_levels :: u32
  next_seq :: u16
  last_seq :: u16
  clock_us :: u64
  b_overflow :: bool
  handles :: "handle list"

record fake_board =
  fb_serial :: string
  fb_state :: board_state

definition pico_info :: device_info where
  "pico_info = \<lparr>protocol_version = PROTOCOL_VERSION, firmware = (0, 1, 0), di_board = PICO,
     gpio_count = word_of_nat GPIO_COUNT, periodic_interval_ms = 1000, available = PICO_AVAILABLE,
     events_per_report = word_of_nat EVENTS_PER_REPORT, event_queue_size = 32, di_chip = 0,
     chip_revision = 0, di_quirks = 0, sdk_board = []\<rparr>"

definition new_state :: board_state where
  "new_state = \<lparr>b_path = [], powered = False, open_error = None, b_info = pico_info,
     b_config = default_for PICO_AVAILABLE, b_result = RESULT_OK, b_result_gpio = RESULT_GPIO_NONE,
     b_request_id = 0, inputs = PICO_AVAILABLE, b_levels = 0, next_seq = 0, last_seq = 0,
     clock_us = 0, b_overflow = False, handles = []\<rparr>"

definition fake_board_new :: "string \<Rightarrow> fake_board" where
  "fake_board_new serial = \<lparr>fb_serial = serial, fb_state = new_state\<rparr>"

text \<open>The state of a board together with all handles; an operation of a board.\<close>

type_synonym board_op = "board_state \<Rightarrow> fake_handle list \<Rightarrow> (board_state \<times> fake_handle list) option"

text \<open>\<open>1u32 << gpio\<close>, with the shift amount taken modulo the width.\<close>

definition gpio_bit :: "u8 \<Rightarrow> u32" where
  "gpio_bit gpio = push_bit (unat gpio mod 32) 1"

definition with_bit :: "u32 \<Rightarrow> u32 \<Rightarrow> u32 \<Rightarrow> u32" where
  "with_bit m b v = (m AND NOT b) OR v"

section \<open>Status reports\<close>

definition fake_status :: "board_state \<Rightarrow> reason \<Rightarrow> edge_event list \<Rightarrow> u16 \<Rightarrow> status_flags \<Rightarrow> status_report" where
  "fake_status s r evs n flags = \<lparr>seq = n, sr_reason = r, sr_flags = flags,
     monitored = monitored_mask (b_config s), outputs = outputs_mask (b_config s),
     levels = b_levels s, timestamp_us = clock_us s, events = evs\<rparr>"

text \<open>A handle keeps 64 reports; later ones are dropped.\<close>

definition push_report :: "bytes \<Rightarrow> handle \<Rightarrow> fake_handle list \<Rightarrow> fake_handle list" where
  "push_report data h hs = hs[h :=
     (if length (reports (hs ! h)) < QUEUE_LEN
      then (hs ! h)\<lparr>reports := reports (hs ! h) @ [data]\<rparr> else hs ! h)]"

definition send :: "reason \<Rightarrow> edge_event list \<Rightarrow> board_op" where
  "send r evs s hs =
     (let s = s\<lparr>clock_us := clock_us s + 1000\<rparr>;
          flags = (if b_overflow s then OVERFLOW else 0);
          s = s\<lparr>b_overflow := False\<rparr>;
          report = fake_status s r evs (next_seq s) flags;
          s = s\<lparr>last_seq := next_seq s, next_seq := next_seq s + 1\<rparr>
      in case encode_status report of
        Inl _ \<Rightarrow> None
      | Inr payload \<Rightarrow> Some (s, fold (push_report (REPORT_ID_STATUS # payload)) (handles s) hs))"

section \<open>Power and handles\<close>

definition plug_board :: "string \<Rightarrow> board_state \<Rightarrow> board_state" where
  "plug_board path s =
     (let s = s\<lparr>b_path := path\<rparr> in
      if powered s then s
      else let config = default_for (available (b_info s)) in
        s\<lparr>powered := True, b_config := config, b_result := RESULT_OK,
          b_result_gpio := RESULT_GPIO_NONE, b_request_id := 0,
          b_levels := inputs s AND monitored_mask config, next_seq := 0, last_seq := 0,
          clock_us := 5000000, b_overflow := False\<rparr>)"

definition fail_handle :: "handle \<Rightarrow> fake_handle list \<Rightarrow> fake_handle list" where
  "fail_handle h hs = hs[h := (hs ! h)\<lparr>gone_away := True\<rparr>]"

definition fail_handles :: "board_state \<Rightarrow> fake_handle list \<Rightarrow> board_state \<times> fake_handle list" where
  "fail_handles s hs = (s\<lparr>handles := []\<rparr>, fold fail_handle (handles s) hs)"

definition unplug_board :: "board_state \<Rightarrow> fake_handle list \<Rightarrow> board_state \<times> fake_handle list" where
  "unplug_board s hs = (case fail_handles s hs of (s, hs) \<Rightarrow> (s\<lparr>powered := False, b_path := []\<rparr>, hs))"

text \<open>The texts the standard library prints for the kinds of \<open>io::Error\<close>.\<close>

definition kind_text :: "io_kind \<Rightarrow> string" where
  "kind_text k = (case k of
     NotConnected \<Rightarrow> ''not connected'' | PermissionDenied \<Rightarrow> ''permission denied''
   | NotFound \<Rightarrow> ''entity not found'' | InvalidInput \<Rightarrow> ''invalid input parameter''
   | OtherKind text \<Rightarrow> text)"

definition open_board :: "nat \<Rightarrow> board_state \<Rightarrow> fake_handle list \<Rightarrow>
    handle result \<times> board_state \<times> fake_handle list" where
  "open_board b s hs = (case open_error s of
     Some kind \<Rightarrow> (Inl (Open (b_path s) (Io_Error kind (kind_text kind))), s, hs)
   | None \<Rightarrow> (Inr (length hs), s\<lparr>handles := handles s @ [length hs]\<rparr>,
       hs @ [\<lparr>fh_board = b, reports = [], closed = False, gone_away = False\<rparr>]))"

definition set_open_error :: "io_kind option \<Rightarrow> board_state \<Rightarrow> board_state" where
  "set_open_error kind s = s\<lparr>open_error := kind\<rparr>"

definition set_protocol_version :: "u8 \<Rightarrow> board_state \<Rightarrow> board_state" where
  "set_protocol_version v s = s\<lparr>b_info := (b_info s)\<lparr>protocol_version := v\<rparr>\<rparr>"

section \<open>Pins\<close>

definition set_input :: "u8 \<Rightarrow> bool \<Rightarrow> board_op" where
  "set_input gpio high s hs =
     (let b = gpio_bit gpio; s = s\<lparr>inputs := with_bit (inputs s) b (if high then b else 0)\<rparr>
      in if \<not> powered s then Some (s, hs)
         else case config_at (b_config s) gpio of
           None \<Rightarrow> None
         | Some c \<Rightarrow>
             if \<not> is_monitored c \<or> b_levels s AND b = inputs s AND b then Some (s, hs)
             else send LEVEL_CHANGED
               [\<lparr>ev_gpio = gpio, ev_level = high, age_us = ucast (param c) * 1000\<rparr>]
               (s\<lparr>b_levels := with_bit (b_levels s) b (inputs s AND b)\<rparr>) hs)"

definition lose_input :: "u8 \<Rightarrow> bool \<Rightarrow> board_op" where
  "lose_input gpio high s hs =
     (let b = gpio_bit gpio; s = s\<lparr>inputs := with_bit (inputs s) b (if high then b else 0)\<rparr>
      in map_option (\<lambda>c. (if is_monitored c
           then s\<lparr>b_levels := with_bit (b_levels s) b (inputs s AND b), b_overflow := True\<rparr>
           else s, hs)) (config_at (b_config s) gpio))"

definition periodic :: board_op where
  "periodic = send PERIODIC []"

definition skip_reports :: "u16 \<Rightarrow> board_state \<Rightarrow> board_state" where
  "skip_reports n s = s\<lparr>next_seq := next_seq s + n, last_seq := next_seq s + n - 1\<rparr>"

text \<open>The loop of \<open>reset_outputs\<close>, whose index is inside the configuration.\<close>

definition reset_levels :: "pin_config \<Rightarrow> u32 \<Rightarrow> u32" where
  "reset_levels c lv = fold (\<lambda>gpio lv. with_bit lv (gpio_bit gpio)
       (if param (c ! unat gpio) \<noteq> 0 then gpio_bit gpio else 0))
     (mask_to_gpios (outputs_mask c)) lv"

definition reset_outputs :: "board_state \<Rightarrow> bool \<times> board_state" where
  "reset_outputs s = (outputs_mask (b_config s) \<noteq> 0,
     s\<lparr>b_levels := reset_levels (b_config s) (b_levels s)\<rparr>)"

definition suspend :: board_op where
  "suspend s hs = (case reset_outputs s of (any, s) \<Rightarrow>
     if any then send OUTPUT_RESET [] s hs else Some (s, hs))"

definition reenumerate :: "board_state \<Rightarrow> fake_handle list \<Rightarrow> board_state \<times> fake_handle list" where
  "reenumerate s hs = (case fail_handles s hs of (s, hs) \<Rightarrow> (snd (reset_outputs s), hs))"

section \<open>Writing the pin configuration\<close>

text \<open>The level of one GPIO after the configuration changed.\<close>

definition level_after :: "pin_config \<Rightarrow> pin_config \<Rightarrow> u32 \<Rightarrow> nat \<Rightarrow> u32 \<Rightarrow> u32" where
  "level_after prev new ins n lv =
     (let p = prev ! n; s = new ! n; b = push_bit n 1 in
      if p = s \<or> is_monitored p \<and> is_monitored s \<and> mode p = mode s then lv
      else if is_monitored s then with_bit lv b (ins AND b)
      else if is_output s then with_bit lv b (if param s \<noteq> 0 then b else 0)
      else lv AND NOT b)"

definition levels_after :: "pin_config \<Rightarrow> pin_config \<Rightarrow> u32 \<Rightarrow> u32 \<Rightarrow> u32" where
  "levels_after prev new ins lv = fold (level_after prev new ins) [0..<GPIO_COUNT] lv"

definition write_config :: "bytes \<Rightarrow> board_op" where
  "write_config payload s hs =
     (case validate_pin_config_payload payload (available (b_info s)) of (result, gpio, rid) \<Rightarrow>
      let s = s\<lparr>b_result := result, b_result_gpio := gpio, b_request_id := rid\<rparr> in
      if result \<noteq> RESULT_OK then Some (s, hs)
      else case decode_pin_config payload of
        Inl _ \<Rightarrow> None
      | Inr r \<Rightarrow>
          if pcr_config r = b_config s then Some (s, hs)
          else send CONFIG_CHANGED []
            (s\<lparr>b_levels := levels_after (b_config s) (pcr_config r) (inputs s) (b_levels s),
               b_config := pcr_config r\<rparr>) hs)"

text \<open>\<open>write_pin_config\<close>: another program writes, with the request id 1.\<close>

definition write_pin_config :: "pin_config \<Rightarrow> board_state \<Rightarrow> fake_handle list \<Rightarrow>
    (result_code \<times> board_state \<times> fake_handle list) option" where
  "write_pin_config config s hs = (case encode_pin_config_set config 1 of
     Inl _ \<Rightarrow> None
   | Inr payload \<Rightarrow> map_option (\<lambda>(s, hs). (b_result s, s, hs)) (write_config payload s hs))"

definition board_level :: "board_state \<Rightarrow> u8 \<Rightarrow> bool" where
  "board_level s gpio \<longleftrightarrow> mask_bit (b_levels s) gpio"

definition open_count :: "board_state \<Rightarrow> nat" where
  "open_count s = length (handles s)"

text \<open>What an output command does to the levels.\<close>

definition drive_outputs :: "u32 \<Rightarrow> u32 \<Rightarrow> board_op" where
  "drive_outputs m v s hs =
     (let m = m AND outputs_mask (b_config s) in
      send OUTPUT_APPLIED [] (s\<lparr>b_levels := with_bit (b_levels s) m (v AND m)\<rparr>) hs)"

text \<open>What a test can ask of a board.\<close>

definition board_serial :: "fake_board \<Rightarrow> string" where
  "board_serial board = fb_serial board"

definition board_pin_config :: "board_state \<Rightarrow> pin_config" where
  "board_pin_config s = b_config s"

end
