(* ===== verification/Fake_Bus.thy ===== *)
theory Fake_Bus
  imports Fake_Board
begin

text \<open>
  The simulated bus and the transports of \<open>rust/src/testing.rs\<close>: \<open>FakeBus\<close>, \<open>FakeHandle\<close> and
  what a test does to them, over a world that holds every board and handle ever made and the
  clock of the host. \<open>fake_env\<close> is the environment the device and the watcher run on.
\<close>

section \<open>The world\<close>

record fake_world =
  fw_boards :: "fake_board list"
  fw_handles :: "fake_handle list"
  bus_boards :: "nat list"
  bus_nodes :: nat
  fw_time :: nat

text \<open>The clock of the host, in nanoseconds; it stops 73 years after it started.\<close>

definition CLOCK_END :: nat where "CLOCK_END = 2 ^ 61 * 1000000000"

definition fake_now :: "fake_world \<Rightarrow> instant" where
  "fake_now w = Instant (int (min (fw_time w) CLOCK_END))"

definition empty_world :: fake_world where
  "empty_world = \<lparr>fw_boards = [], fw_handles = [], bus_boards = [], bus_nodes = 0, fw_time = 0\<rparr>"

definition state_of :: "nat \<Rightarrow> fake_world \<Rightarrow> board_state" where
  "state_of b w = fb_state (fw_boards w ! b)"

definition set_board :: "nat \<Rightarrow> board_state \<Rightarrow> fake_handle list \<Rightarrow> fake_world \<Rightarrow> fake_world" where
  "set_board b s hs w =
     w\<lparr>fw_boards := (fw_boards w)[b := (fw_boards w ! b)\<lparr>fb_state := s\<rparr>], fw_handles := hs\<rparr>"

text \<open>\<open>FakeBoard::new\<close> and an operation of a board, in the world.\<close>

definition make_board :: "string \<Rightarrow> fake_world \<Rightarrow> fake_world" where
  "make_board serial w = w\<lparr>fw_boards := fw_boards w @ [fake_board_new serial]\<rparr>"

definition on_board :: "nat \<Rightarrow> board_op \<Rightarrow> fake_world \<Rightarrow> fake_world option" where
  "on_board b f w = (case f (state_of b w) (fw_handles w) of
     None \<Rightarrow> None | Some (s, hs) \<Rightarrow> Some (set_board b s hs w))"

section \<open>The bus\<close>

definition plug :: "nat \<Rightarrow> fake_world \<Rightarrow> fake_world" where
  "plug b w =
     (let w = set_board b (plug_board (''/dev/hidraw'' @ show_nat (bus_nodes w)) (state_of b w))
           (fw_handles w) w
      in w\<lparr>bus_nodes := bus_nodes w + 1, bus_boards := bus_boards w @ [b]\<rparr>)"

definition unplug :: "nat \<Rightarrow> fake_world \<Rightarrow> fake_world" where
  "unplug b w = (case unplug_board (state_of b w) (fw_handles w) of (s, hs) \<Rightarrow>
     set_board b s hs (w\<lparr>bus_boards := filter (\<lambda>b'. b' \<noteq> b) (bus_boards w)\<rparr>))"

definition bus_new :: "nat list \<Rightarrow> fake_world \<Rightarrow> fake_world" where
  "bus_new bs w = fold plug bs (w\<lparr>bus_boards := [], bus_nodes := 0\<rparr>)"

definition bus_entry :: "fake_board \<Rightarrow> device_entry" where
  "bus_entry board = \<lparr>de_path = b_path (fb_state board), de_serial = fb_serial board,
     de_manufacturer = ''yukke.org'', de_product = ''hidpin''\<rparr>"

definition bus_devices :: "fake_world \<Rightarrow> device_entry list result \<times> fake_world" where
  "bus_devices w = (Inr (map (\<lambda>b. bus_entry (fw_boards w ! b)) (bus_boards w)), w)"

definition bus_open :: "device_entry \<Rightarrow> fake_world \<Rightarrow> handle result \<times> fake_world" where
  "bus_open entry w = (case find (\<lambda>b. b_path (state_of b w) = de_path entry) (bus_boards w) of
     Some b \<Rightarrow> (case open_board b (state_of b w) (fw_handles w) of (r, s, hs) \<Rightarrow> (r, set_board b s hs w))
   | None \<Rightarrow> (Inl (Open (de_path entry) (Io_Error NotFound ''no such device'')), w))"

section \<open>The handles\<close>

definition gone :: io_error where
  "gone = Io_Error NotConnected ''the device is gone''"

definition is_gone :: "error \<Rightarrow> bool" where
  "is_gone e = (case e of Io source \<Rightarrow> io_kind source = NotConnected | _ \<Rightarrow> False)"

definition handle_check :: "handle \<Rightarrow> fake_world \<Rightarrow> unit io_result" where
  "handle_check h w = (let q = fw_handles w ! h in
     if closed q then Inl (Io_Error (OtherKind ''other error'') ''the handle is closed'')
     else if gone_away q then Inl gone else Inr ())"

text \<open>A call that returns, waits forever, or panics.\<close>

datatype 'a call = Returns 'a | Waits | Panics

text \<open>
  \<open>read\<close>. Nothing arrives while it waits in this model: a wait takes the whole timeout, and
  what happens to the board happens between calls.
\<close>

definition handle_read :: "handle \<Rightarrow> bytes \<Rightarrow> duration option \<Rightarrow> fake_world \<Rightarrow>
    (nat io_result \<times> bytes \<times> fake_world) call" where
  "handle_read h buf timeout w =
     (let q = fw_handles w ! h;
          result =
            (if gone_away q then Some (Inl gone, [], w)
             else case reports q of
               report # rest \<Rightarrow>
                 (let n = min (length report) (length buf) in
                  Some (Inr n, take n report, w\<lparr>fw_handles := (fw_handles w)[h := q\<lparr>reports := rest\<rparr>]\<rparr>))
             | [] \<Rightarrow> None)
      in case timeout of
        None \<Rightarrow> (case result of Some r \<Rightarrow> Returns r | None \<Rightarrow> Waits)
      | Some t \<Rightarrow> (case instant_add (fake_now w) t of
            None \<Rightarrow> Panics
          | Some _ \<Rightarrow> (case result of Some r \<Rightarrow> Returns r
              | None \<Rightarrow> Returns (Inr 0, [], w\<lparr>fw_time := fw_time w + t\<rparr>))))"

definition bad_output :: io_error where
  "bad_output = Io_Error InvalidInput ''unexpected output report''"

definition bad_feature :: io_error where
  "bad_feature = Io_Error InvalidInput ''unexpected feature report''"

definition handle_write :: "handle \<Rightarrow> bytes \<Rightarrow> fake_world \<Rightarrow> (nat io_result \<times> fake_world) option" where
  "handle_write h report w = (case handle_check h w of
     Inl e \<Rightarrow> Some (Inl e, w)
   | Inr _ \<Rightarrow>
       if report = [] \<or> hd report \<noteq> REPORT_ID_OUTPUT then Some (Inl bad_output, w)
       else case decode_output (tl report) of
         Inl _ \<Rightarrow> Some (Inr (length report), w)
       | Inr (m, v) \<Rightarrow> map_option (\<lambda>w. (Inr (length report), w))
           (on_board (fh_board (fw_handles w ! h)) (drive_outputs m v) w))"

text \<open>The bytes a report puts into a buffer: the report ID is there, \<open>payload\<close> follows.\<close>

definition reply_bytes :: "u8 \<Rightarrow> bytes \<Rightarrow> bytes \<Rightarrow> nat io_result \<times> bytes" where
  "reply_bytes rid payload buf =
     (let n = min (length payload) (length buf - 1) in (Inr (n + 1), rid # take n payload))"

definition config_report :: "board_state \<Rightarrow> pin_config_report" where
  "config_report s = \<lparr>pcr_result = b_result s, result_gpio = b_result_gpio s,
     request_id = b_request_id s, pcr_config = b_config s\<rparr>"

text \<open>\<open>buf[0]\<close> and \<open>buf.len() - 1\<close> need a buffer that is not empty.\<close>

definition handle_get_feature :: "handle \<Rightarrow> bytes \<Rightarrow> fake_world \<Rightarrow> (nat io_result \<times> bytes \<times> fake_world) option" where
  "handle_get_feature h buf w = (case handle_check h w of
     Inl e \<Rightarrow> Some (Inl e, [], w)
   | Inr _ \<Rightarrow>
       (let s = state_of (fh_board (fw_handles w ! h)) w in
        case buf of
          [] \<Rightarrow> None
        | rid # _ \<Rightarrow>
            if rid = REPORT_ID_DEVICE_INFO
            then (case reply_bytes rid (encode_device_info (b_info s)) buf of (r, data) \<Rightarrow> Some (r, data, w))
            else if rid = REPORT_ID_PIN_CONFIG
            then (case reply_bytes rid (encode_pin_config (config_report s)) buf of (r, data) \<Rightarrow> Some (r, data, w))
            else Some (Inl bad_feature, [], w)))"

definition handle_send_feature :: "handle \<Rightarrow> bytes \<Rightarrow> fake_world \<Rightarrow> (nat io_result \<times> fake_world) option" where
  "handle_send_feature h report w = (case handle_check h w of
     Inl e \<Rightarrow> Some (Inl e, w)
   | Inr _ \<Rightarrow>
       if report = [] \<or> hd report \<noteq> REPORT_ID_PIN_CONFIG then Some (Inl bad_feature, w)
       else map_option (\<lambda>w. (Inr (length report), w))
         (on_board (fh_board (fw_handles w ! h)) (write_config (tl report)) w))"

definition handle_get_input :: "handle \<Rightarrow> bytes \<Rightarrow> fake_world \<Rightarrow> (nat io_result \<times> bytes \<times> fake_world) option" where
  "handle_get_input h buf w = (case handle_check h w of
     Inl e \<Rightarrow> Some (Inl e, [], w)
   | Inr _ \<Rightarrow>
       (let s = state_of (fh_board (fw_handles w ! h)) w in
        case encode_status (fake_status s HOST_REQUEST [] (last_seq s) 0) of
          Inl _ \<Rightarrow> None
        | Inr payload \<Rightarrow>
            if buf = [] then None
            else (case reply_bytes REPORT_ID_STATUS payload buf of (r, data) \<Rightarrow> Some (r, data, w))))"

text \<open>Dropping a handle closes it.\<close>

definition handle_drop :: "handle \<Rightarrow> fake_world \<Rightarrow> fake_world" where
  "handle_drop h w =
     (let q = fw_handles w ! h; b = fh_board q; s = state_of b w in
      set_board b (s\<lparr>handles := filter (\<lambda>h'. h' \<noteq> h) (handles s)\<rparr>)
        ((fw_handles w)[h := q\<lparr>closed := True\<rparr>]) w)"

section \<open>The environment\<close>

text \<open>
  A call that panics leaves the thread dead, like one that waits forever; the theorems show
  that no call of the library does.
\<close>

definition or_stuck :: "'a \<Rightarrow> 'a option \<Rightarrow> 'a" where
  "or_stuck x y = (case y of None \<Rightarrow> x | Some z \<Rightarrow> z)"

definition fake_env :: "fake_world env" where
  "fake_env = \<lparr>e_devices = bus_devices, e_open = bus_open, e_close = handle_drop,
     e_read = (\<lambda>h buf t w. case handle_read h buf t w of Returns r \<Rightarrow> Some r | _ \<Rightarrow> None),
     e_write = (\<lambda>h r w. or_stuck (Inl gone, w) (handle_write h r w)),
     e_get_feature = (\<lambda>h buf w. or_stuck (Inl gone, [], w) (handle_get_feature h buf w)),
     e_send_feature = (\<lambda>h r w. or_stuck (Inl gone, w) (handle_send_feature h r w)),
     e_get_input = (\<lambda>h buf w. or_stuck (Inl gone, [], w) (handle_get_input h buf w)),
     e_now = (\<lambda>w. (fake_now w, w)), e_wall = (\<lambda>w. (at_ns (fake_now w), w)), e_pid = 1\<rparr>"

end
