(* ===== verification/Fake_Levels.thy ===== *)
theory Fake_Levels
  imports Fake_Bus Device_Theorems
begin

text \<open>
  The levels of the simulated board, bit by bit, and the reports it sends. \<open>board_ok\<close> is the
  invariant of a board: a valid configuration, levels only on monitored and output pins, the
  level of a monitored pin of a powered board equal to its input.
\<close>

section \<open>Levels, bit by bit\<close>

lemma bit_gpio_bit: "bit (gpio_bit g) n \<longleftrightarrow> n = unat g mod 32"
  by (auto simp: gpio_bit_def bit_exp_iff)

lemma bit_with_bit: "n < 32 \<Longrightarrow> bit (with_bit m b v) n \<longleftrightarrow> \<not> bit b n \<and> bit m n \<or> bit v n"
  by (auto simp: with_bit_def bit_or_iff bit_and_iff bit_not_iff)

text \<open>A fold whose steps each change one bit of their own.\<close>

lemma fold_own_bits:
  assumes "\<And>g lv. g \<in> set gs \<Longrightarrow> bit (f g lv) n = (if pos g = n then v (bit lv n) else bit lv n)"
    and "distinct (map pos gs)"
  shows "bit (fold f gs lv :: u32) n = (if n \<in> pos ` set gs then v (bit lv n) else bit lv n)"
  using assms
proof (induction gs arbitrary: lv)
  case (Cons g gs)
  have "bit (fold f gs (f g lv)) n =
      (if n \<in> pos ` set gs then v (bit (f g lv) n) else bit (f g lv) n)"
    using Cons by simp
  moreover have "bit (f g lv) n = (if pos g = n then v (bit lv n) else bit lv n)"
    using Cons.prems(1) by simp
  ultimately show ?case using Cons.prems(2) by auto
qed simp

lemma bit_reset_levels:
  assumes "wf_config c" "n < 32"
  shows "bit (reset_levels c lv) n =
    (if n < 30 \<and> is_output (c ! n) then param (c ! n) \<noteq> 0 else bit lv n)"
proof -
  let ?gs = "mask_to_gpios (outputs_mask c)"
  have "bit (reset_levels c lv) n =
      (if n \<in> unat ` set ?gs then param (c ! n) \<noteq> 0 else bit lv n)"
    unfolding reset_levels_def
    using \<open>n < 32\<close> distinct_mask_to_gpios [of "outputs_mask c"]
    by (subst fold_own_bits [where pos = unat and v = "\<lambda>_. param (c ! n) \<noteq> 0"])
      (auto simp: bit_with_bit bit_gpio_bit set_mask_to_gpios distinct_map inj_on_def word_unat_eq_iff)
  moreover have "n \<in> unat ` set ?gs \<longleftrightarrow> n < 30 \<and> is_output (c ! n)"
  proof
    assume "n < 30 \<and> is_output (c ! n)"
    then have "word_of_nat n \<in> set ?gs" "unat (word_of_nat n :: u8) = n"
      using bit_outputs_mask [OF assms(1), of n] by (simp_all add: set_mask_to_gpios unat_of_nat)
    then show "n \<in> unat ` set ?gs" by (metis image_eqI)
  qed (auto simp: set_mask_to_gpios bit_outputs_mask [OF assms(1)])
  ultimately show ?thesis by simp
qed

text \<open>What a new configuration makes of the level of pin \<open>n\<close>.\<close>

definition new_level :: "pin_setting \<Rightarrow> pin_setting \<Rightarrow> bool \<Rightarrow> bool \<Rightarrow> bool" where
  "new_level p s inp lv =
     (if p = s \<or> is_monitored p \<and> is_monitored s \<and> mode p = mode s then lv
      else if is_monitored s then inp
      else is_output s \<and> param s \<noteq> 0)"

lemma bit_level_after:
  assumes "n < 32" "g < 30"
  shows "bit (level_after prev new ins g lv) n =
    (if g = n then new_level (prev ! n) (new ! n) (bit ins n) (bit lv n) else bit lv n)"
proof -
  have b: "bit (push_bit g 1 :: u32) n \<longleftrightarrow> g = n" using assms by (auto simp: bit_exp_iff)
  have w: "bit (with_bit lv (push_bit g 1) v) n \<longleftrightarrow> g \<noteq> n \<and> bit lv n \<or> bit v n" for v
    using assms by (simp only: bit_with_bit b)
  have "bit (ins AND push_bit g 1) n \<longleftrightarrow> g = n \<and> bit ins n"
    "bit (lv AND NOT (push_bit g 1)) n \<longleftrightarrow> g \<noteq> n \<and> bit lv n"
    using assms by (auto simp only: bit_and_iff bit_not_iff b) (simp add: possible_bit_def)
  then show ?thesis
    by (auto simp only: level_after_def new_level_def Let_def w b if_distrib [of "\<lambda>v. bit v n"] bit_0_eq
        split: if_splits)
qed

lemma bit_levels_after:
  assumes "n < 32"
  shows "bit (levels_after prev new ins lv) n =
    (if n < 30 then new_level (prev ! n) (new ! n) (bit ins n) (bit lv n) else bit lv n)"
  unfolding levels_after_def
  by (subst fold_own_bits [where pos = "\<lambda>g. g" and v = "new_level (prev ! n) (new ! n) (bit ins n)"])
    (auto simp: bit_level_after [OF assms] GPIO_COUNT_def)

section \<open>Sending\<close>

definition after_send :: "board_state \<Rightarrow> board_state" where
  "after_send s = s\<lparr>clock_us := clock_us s + 1000, b_overflow := False, last_seq := next_seq s,
     next_seq := next_seq s + 1\<rparr>"

definition sent_report :: "board_state \<Rightarrow> reason \<Rightarrow> edge_event list \<Rightarrow> status_report" where
  "sent_report s r evs = fake_status (s\<lparr>clock_us := clock_us s + 1000\<rparr>) r evs (next_seq s)
     (if b_overflow s then OVERFLOW else 0)"

text \<open>\<open>expect("at most one event")\<close> never panics: up to seven events are encoded.\<close>

lemma send_Some:
  assumes "length evs \<le> 7"
  shows "\<exists>p. encode_status (sent_report s r evs) = Inr p \<and> length p = 63 \<and>
    send r evs s hs = Some (after_send s, fold (push_report (REPORT_ID_STATUS # p)) (handles s) hs)"
proof -
  have "events (sent_report s r evs) = evs" by (simp add: sent_report_def fake_status_def)
  then obtain p where p: "encode_status (sent_report s r evs) = Inr p"
    using assms by (auto simp: encode_status_def wire_defs)
  moreover have "send r evs s hs = Some (after_send s, fold (push_report (REPORT_ID_STATUS # p)) (handles s) hs)"
    using p by (simp add: send_def Let_def sent_report_def fake_status_def after_send_def)
  ultimately show ?thesis using encode_status_length by blast
qed

lemma nth_push_report:
  "h < length hs \<Longrightarrow> push_report d k hs ! h =
    (if h = k \<and> length (reports (hs ! h)) < 64 then (hs ! h)\<lparr>reports := reports (hs ! h) @ [d]\<rparr>
     else hs ! h)"
  by (simp add: push_report_def QUEUE_LEN_def)

lemma length_push_report [simp]: "length (push_report d k hs) = length hs"
  by (simp add: push_report_def)

lemma length_push [simp]: "length (fold (push_report d) ks hs) = length hs"
  by (induction ks arbitrary: hs) simp_all

lemma nth_push:
  assumes "distinct ks" "h < length hs"
  shows "fold (push_report d) ks hs ! h =
    (if h \<in> set ks \<and> length (reports (hs ! h)) < 64 then (hs ! h)\<lparr>reports := reports (hs ! h) @ [d]\<rparr>
     else hs ! h)"
  using assms
proof (induction ks arbitrary: hs)
  case (Cons k ks)
  then show ?case
    using Cons.IH [of "push_report d k hs"] by (cases "h = k") (auto simp: nth_push_report)
qed simp

section \<open>The invariant of a board\<close>

definition level_ok :: "board_state \<Rightarrow> nat \<Rightarrow> bool" where
  "level_ok s n \<longleftrightarrow>
     (bit (b_levels s) n \<longrightarrow> n < 30 \<and> (is_monitored (b_config s ! n) \<or> is_output (b_config s ! n))) \<and>
     (powered s \<and> n < 30 \<and> is_monitored (b_config s ! n) \<longrightarrow> bit (b_levels s) n = bit (inputs s) n)"

definition board_ok :: "board_state \<Rightarrow> bool" where
  "board_ok s \<longleftrightarrow> wf_config (b_config s) \<and> config_ok (available (b_info s)) (b_config s) \<and>
     (\<forall>n. level_ok s n) \<and> (last_seq s = next_seq s - 1 \<or> next_seq s = 0 \<and> last_seq s = 0)"

lemma board_okD:
  assumes "board_ok s"
  shows "wf_config (b_config s)" "config_ok (available (b_info s)) (b_config s)" "level_ok s n"
    "last_seq s = next_seq s - 1 \<or> next_seq s = 0 \<and> last_seq s = 0"
  using assms by (auto simp: board_ok_def)

lemma level_ok_cong:
  "b_levels s' = b_levels s \<Longrightarrow> b_config s' = b_config s \<Longrightarrow> powered s' = powered s \<Longrightarrow>
    inputs s' = inputs s \<Longrightarrow> level_ok s' n = level_ok s n"
  by (simp add: level_ok_def)

lemma level_beyond: "level_ok s n \<Longrightarrow> bit (b_levels s) n \<Longrightarrow> n < 30"
  by (simp add: level_ok_def)

lemma default_ok: "config_ok a (default_for a)"
  by (auto simp: config_ok_nth nth_default setting_ok_def pull_up_def unused_setting_def)

lemma ok_new: "board_ok new_state"
  using default_ok [of PICO_AVAILABLE] by (simp add: board_ok_def level_ok_def new_state_def pico_info_def)

lemma ok_plug:
  assumes "board_ok s"
  shows "board_ok (plug_board path s)"
proof (cases "powered s")
  case True
  then show ?thesis using assms by (simp add: plug_board_def board_ok_def level_ok_def)
next
  case False
  then show ?thesis using default_ok [of "available (b_info s)"]
    by (auto simp: plug_board_def Let_def board_ok_def level_ok_def bit_and_iff bit_monitored_mask)
qed

lemma ok_unplug: "board_ok s \<Longrightarrow> board_ok (fst (unplug_board s hs))"
  by (simp add: unplug_board_def fail_handles_def board_ok_def level_ok_def)

lemma ok_irrelevant [simp]:
  "board_ok (s\<lparr>open_error := x1\<rparr>) = board_ok s" "board_ok (s\<lparr>handles := x2\<rparr>) = board_ok s"
  "board_ok (s\<lparr>b_path := x3\<rparr>) = board_ok s" "board_ok (s\<lparr>b_result := x4\<rparr>) = board_ok s"
  "board_ok (s\<lparr>b_result_gpio := x5\<rparr>) = board_ok s" "board_ok (s\<lparr>b_request_id := x6\<rparr>) = board_ok s"
  "board_ok (s\<lparr>clock_us := x7\<rparr>) = board_ok s" "board_ok (s\<lparr>b_overflow := x8\<rparr>) = board_ok s"
  by (simp_all add: board_ok_def level_ok_def)

lemma ok_version: "board_ok s \<Longrightarrow> board_ok (set_protocol_version v s)"
  by (simp add: board_ok_def level_ok_def set_protocol_version_def)

lemma ok_skip: "board_ok s \<Longrightarrow> board_ok (skip_reports n s)"
  by (simp add: board_ok_def level_ok_def skip_reports_def)

lemma ok_after_send: "board_ok s \<Longrightarrow> board_ok (after_send s)"
  by (simp add: board_ok_def level_ok_def after_send_def)

text \<open>Replacing the levels keeps the invariant when it does so pin by pin.\<close>

lemma ok_levels:
  assumes "board_ok s" "\<And>n. level_ok (s\<lparr>b_levels := lv\<rparr>) n"
  shows "board_ok (s\<lparr>b_levels := lv\<rparr>)"
  using assms by (simp add: board_ok_def)

lemma ok_reset:
  assumes "board_ok s"
  shows "board_ok (snd (reset_outputs s))"
proof -
  let ?lv = "reset_levels (b_config s) (b_levels s)"
  have "level_ok (s\<lparr>b_levels := ?lv\<rparr>) n" for n
  proof (cases "n < 32")
    case True
    then show ?thesis
      using board_okD(3) [OF assms, of n] is_monitored_not_output [of "b_config s ! n"]
        bit_reset_levels [OF board_okD(1) [OF assms] True, of "b_levels s"]
      by (cases "n < 30 \<and> is_output (b_config s ! n)") (auto simp: level_ok_def)
  qed (use bit_word_beyond in \<open>simp add: level_ok_def\<close>)
  then show ?thesis using ok_levels [OF assms, of ?lv] by (simp add: reset_outputs_def)
qed

lemma ok_write_levels:
  assumes "board_ok s" "wf_config c" "config_ok (available (b_info s)) c"
  shows "board_ok (s\<lparr>b_levels := levels_after (b_config s) c (inputs s) (b_levels s), b_config := c\<rparr>)"
proof -
  let ?s = "s\<lparr>b_levels := levels_after (b_config s) c (inputs s) (b_levels s), b_config := c\<rparr>"
  have "level_ok ?s n" for n
  proof (cases "n < 30")
    case True
    then show ?thesis
      using board_okD(3) [OF assms(1), of n] bit_levels_after [of n "b_config s" c "inputs s" "b_levels s"]
      by (auto simp: level_ok_def new_level_def is_monitored_def is_output_def split: if_splits)
  next
    case False
    then show ?thesis
      using board_okD(3) [OF assms(1), of n] bit_levels_after [of n "b_config s" c "inputs s" "b_levels s"]
        bit_word_beyond [of n]
      by (cases "n < 32") (auto simp: level_ok_def)
  qed
  then show ?thesis using assms board_okD(4) [OF assms(1)] by (simp add: board_ok_def)
qed

lemma ok_drive:
  assumes "board_ok s"
  shows "board_ok (s\<lparr>b_levels := with_bit (b_levels s) (m AND outputs_mask (b_config s))
    (v AND (m AND outputs_mask (b_config s)))\<rparr>)"
proof -
  let ?m = "m AND outputs_mask (b_config s)"
  let ?lv = "with_bit (b_levels s) ?m (v AND ?m)"
  have "level_ok (s\<lparr>b_levels := ?lv\<rparr>) n" for n
  proof (cases "n < 32")
    case True
    have "bit ?lv n \<longleftrightarrow>
        (if bit m n \<and> n < 30 \<and> is_output (b_config s ! n) then bit v n else bit (b_levels s) n)"
      using True by (auto simp: bit_with_bit bit_and_iff bit_outputs_mask [OF board_okD(1) [OF assms]])
    then show ?thesis
      using board_okD(3) [OF assms, of n] is_monitored_not_output [of "b_config s ! n"]
      by (cases "bit m n \<and> n < 30 \<and> is_output (b_config s ! n)") (auto simp: level_ok_def)
  qed (use bit_word_beyond in \<open>simp add: level_ok_def\<close>)
  then show ?thesis using ok_levels [OF assms, of ?lv] by simp
qed

text \<open>Changing an input: the level of a monitored pin follows.\<close>

definition moved :: "u8 \<Rightarrow> bool \<Rightarrow> board_state \<Rightarrow> board_state" where
  "moved g high s = s\<lparr>inputs := with_bit (inputs s) (gpio_bit g) (if high then gpio_bit g else 0)\<rparr>"

definition followed :: "u8 \<Rightarrow> bool \<Rightarrow> board_state \<Rightarrow> board_state" where
  "followed g high s = (moved g high s)\<lparr>b_levels :=
     with_bit (b_levels s) (gpio_bit g) (inputs (moved g high s) AND gpio_bit g)\<rparr>"

lemma bit_moved:
  "unat g < 30 \<Longrightarrow> n < 32 \<Longrightarrow> bit (inputs (moved g high s)) n = (if n = unat g then high else bit (inputs s) n)"
  by (auto simp: moved_def bit_with_bit bit_gpio_bit)

lemma bit_followed:
  "unat g < 30 \<Longrightarrow> n < 32 \<Longrightarrow> bit (b_levels (followed g high s)) n = (if n = unat g then high else bit (b_levels s) n)"
  by (auto simp: followed_def bit_with_bit bit_gpio_bit bit_and_iff bit_moved)

lemma moved_simps [simp]:
  "b_config (moved g high s) = b_config s" "b_levels (moved g high s) = b_levels s"
  "powered (moved g high s) = powered s" "b_info (moved g high s) = b_info s"
  "b_config (followed g high s) = b_config s" "powered (followed g high s) = powered s"
  "b_info (followed g high s) = b_info s" "inputs (followed g high s) = inputs (moved g high s)"
  "last_seq (moved g high s) = last_seq s" "next_seq (moved g high s) = next_seq s"
  "last_seq (followed g high s) = last_seq s" "next_seq (followed g high s) = next_seq s"
  "handles (moved g high s) = handles s" "handles (followed g high s) = handles s"
  by (simp_all add: moved_def followed_def)

lemma ok_moved:
  assumes "board_ok s" "unat g < 30"
    and "powered s \<Longrightarrow> is_monitored (b_config s ! unat g) \<Longrightarrow> bit (b_levels s) (unat g) = high"
  shows "board_ok (moved g high s)"
proof -
  have "level_ok (moved g high s) n" for n
    using board_okD(3) [OF assms(1), of n] bit_moved [OF assms(2), of n high s] assms(2,3)
    by (cases "n = unat g"; cases "n < 30") (auto simp: level_ok_def)
  then show ?thesis using board_okD [OF assms(1)] by (simp add: board_ok_def)
qed

lemma ok_followed:
  assumes "board_ok s" "unat g < 30" "is_monitored (b_config s ! unat g)"
  shows "board_ok (followed g high s)"
proof -
  have "level_ok (followed g high s) n" for n
  proof (cases "n < 32")
    case True
    then show ?thesis
      using board_okD(3) [OF assms(1), of n] bit_moved [OF assms(2), of n high s]
        bit_followed [OF assms(2), of n high s] assms(2,3)
      by (cases "n = unat g") (simp_all add: level_ok_def)
  qed (use bit_word_beyond in \<open>simp add: level_ok_def\<close>)
  then show ?thesis using board_okD [OF assms(1)] by (simp add: board_ok_def)
qed

lemma level_differs:
  assumes "unat g < 30"
  shows "b_levels s AND gpio_bit g = inputs (moved g high s) AND gpio_bit g \<longleftrightarrow>
    bit (b_levels s) (unat g) = high"
proof
  assume "b_levels s AND gpio_bit g = inputs (moved g high s) AND gpio_bit g"
  then have "bit (b_levels s AND gpio_bit g) (unat g) = bit (inputs (moved g high s) AND gpio_bit g) (unat g)"
    by simp
  then show "bit (b_levels s) (unat g) = high"
    using assms by (simp add: bit_and_iff bit_gpio_bit bit_moved)
next
  assume "bit (b_levels s) (unat g) = high"
  then show "b_levels s AND gpio_bit g = inputs (moved g high s) AND gpio_bit g"
    using assms by (intro bit_word_eqI) (auto simp: bit_and_iff bit_gpio_bit bit_moved)
qed

lemma set_input_eq:
  assumes "wf_config (b_config s)" "unat g < 30"
  shows "set_input g high s hs =
    (if powered s \<and> is_monitored (b_config s ! unat g) \<and> bit (b_levels s) (unat g) \<noteq> high
     then send LEVEL_CHANGED [\<lparr>ev_gpio = g, ev_level = high,
         age_us = ucast (param (b_config s ! unat g)) * 1000\<rparr>] (followed g high s) hs
     else Some (moved g high s, hs))"
  using level_differs [OF assms(2), of s high] config_at_Some [OF assms]
  by (auto simp: set_input_def Let_def moved_def followed_def)

lemma lose_input_eq:
  assumes "wf_config (b_config s)" "unat g < 30"
  shows "lose_input g high s hs = Some
    (if is_monitored (b_config s ! unat g) then (followed g high s)\<lparr>b_overflow := True\<rparr>
     else moved g high s, hs)"
  using config_at_Some [OF assms] by (auto simp: lose_input_def Let_def moved_def followed_def)

end
