(* ===== verification/Fake_World.thy ===== *)
theory Fake_World
  imports Fake_Levels
begin

text \<open>
  The invariant of the simulated world: every board is \<open>board_ok\<close>, its list of handles is
  exactly the handles open on it, and every queue holds at most 64 status reports that decode.
  Every operation of a test, of the bus and of a handle keeps it, and none of them panics.
\<close>

section \<open>The invariant\<close>

definition report_ok :: "bytes \<Rightarrow> bool" where
  "report_ok data \<longleftrightarrow> length data = 64 \<and> data ! 0 = REPORT_ID_STATUS \<and>
     (\<exists>r. decode_status (drop 1 data) = Inr r)"

definition queue_ok :: "fake_handle \<Rightarrow> bool" where
  "queue_ok q \<longleftrightarrow> length (reports q) \<le> 64 \<and> list_all report_ok (reports q)"

definition handle_live :: "fake_handle \<Rightarrow> bool" where
  "handle_live q \<longleftrightarrow> \<not> closed q \<and> \<not> gone_away q"

definition world_ok :: "fake_world \<Rightarrow> bool" where
  "world_ok w \<longleftrightarrow>
     (\<forall>b < length (fw_boards w). board_ok (state_of b w) \<and> distinct (handles (state_of b w)) \<and>
        (\<forall>h \<in> set (handles (state_of b w)). h < length (fw_handles w) \<and> fh_board (fw_handles w ! h) = b)) \<and>
     (\<forall>h < length (fw_handles w). queue_ok (fw_handles w ! h) \<and>
        fh_board (fw_handles w ! h) < length (fw_boards w) \<and>
        (handle_live (fw_handles w ! h) \<longleftrightarrow>
          h \<in> set (handles (state_of (fh_board (fw_handles w ! h)) w)))) \<and>
     (\<forall>b \<in> set (bus_boards w). b < length (fw_boards w))"

lemma world_boardD:
  assumes "world_ok w" "b < length (fw_boards w)"
  shows "board_ok (state_of b w)" "distinct (handles (state_of b w))"
    "h \<in> set (handles (state_of b w)) \<Longrightarrow> h < length (fw_handles w) \<and> fh_board (fw_handles w ! h) = b"
  using assms by (auto simp: world_ok_def)

lemma world_handleD:
  assumes "world_ok w" "h < length (fw_handles w)"
  shows "queue_ok (fw_handles w ! h)" "fh_board (fw_handles w ! h) < length (fw_boards w)"
    "handle_live (fw_handles w ! h) \<longleftrightarrow> h \<in> set (handles (state_of (fh_board (fw_handles w ! h)) w))"
  using assms by (auto simp: world_ok_def)

lemma state_of_set_board: "b < length (fw_boards w) \<Longrightarrow>
    state_of b' (set_board b s hs w) = (if b' = b then s else state_of b' w)"
  by (simp add: state_of_def set_board_def)

lemma set_board_simps [simp]:
  "length (fw_boards (set_board b s hs w)) = length (fw_boards w)"
  "fw_handles (set_board b s hs w) = hs" "bus_boards (set_board b s hs w) = bus_boards w"
  by (simp_all add: set_board_def)

text \<open>The handles after an operation: those of other boards are untouched.\<close>

definition handles_ok :: "nat \<Rightarrow> nat \<Rightarrow> handle list \<Rightarrow> fake_handle list \<Rightarrow> fake_handle list \<Rightarrow> bool" where
  "handles_ok n b ks hs hs' \<longleftrightarrow> length hs \<le> length hs' \<and> distinct ks \<and>
     (\<forall>k \<in> set ks. k < length hs' \<and> fh_board (hs' ! k) = b) \<and>
     (\<forall>h < length hs'. queue_ok (hs' ! h) \<and> fh_board (hs' ! h) < n \<and>
        (h < length hs \<longrightarrow> fh_board (hs' ! h) = fh_board (hs ! h)) \<and>
        (if fh_board (hs' ! h) = b then handle_live (hs' ! h) \<longleftrightarrow> h \<in> set ks
         else h < length hs \<and> handle_live (hs' ! h) = handle_live (hs ! h)))"

lemma world_ok_set:
  assumes "world_ok w" "b < length (fw_boards w)" "board_ok s"
    and "handles_ok (length (fw_boards w)) b (handles s) (fw_handles w) hs"
  shows "world_ok (set_board b s hs w)"
proof -
  have boards: "board_ok (state_of b' (set_board b s hs w)) \<and> distinct (handles (state_of b' (set_board b s hs w))) \<and>
      (\<forall>h \<in> set (handles (state_of b' (set_board b s hs w))). h < length hs \<and> fh_board (hs ! h) = b')"
    if "b' < length (fw_boards w)" for b'
  proof (cases "b' = b")
    case True
    then show ?thesis using assms(2-4) by (simp add: state_of_set_board handles_ok_def)
  next
    case False
    have le: "length (fw_handles w) \<le> length hs" using assms(4) by (simp add: handles_ok_def)
    have same: "fh_board (hs ! h) = fh_board (fw_handles w ! h)" if "h < length (fw_handles w)" for h
      using assms(4) le that by (simp add: handles_ok_def)
    have "h < length hs \<and> fh_board (hs ! h) = b'" if "h \<in> set (handles (state_of b' w))" for h
      using world_boardD(3) [OF assms(1) \<open>b' < _\<close> that] same le by simp
    then show ?thesis
      using world_boardD(1,2) [OF assms(1) that] assms(2) False by (simp add: state_of_set_board)
  qed
  have handle: "queue_ok (hs ! h) \<and> fh_board (hs ! h) < length (fw_boards w) \<and>
      (handle_live (hs ! h) \<longleftrightarrow> h \<in> set (handles (state_of (fh_board (hs ! h)) (set_board b s hs w))))"
    if "h < length hs" for h
  proof (cases "fh_board (hs ! h) = b")
    case True
    then show ?thesis using assms(2,4) that by (auto simp: state_of_set_board handles_ok_def)
  next
    case False
    then have "h < length (fw_handles w)" using assms(4) that by (auto simp: handles_ok_def)
    then show ?thesis
      using world_handleD [OF assms(1)] assms(2,4) that False by (auto simp: state_of_set_board handles_ok_def)
  qed
  show ?thesis using boards handle assms(1) by (auto simp: world_ok_def)
qed

text \<open>The handles of a world are fine as they are.\<close>

lemma handles_same:
  assumes "world_ok w" "b < length (fw_boards w)"
  shows "handles_ok (length (fw_boards w)) b (handles (state_of b w)) (fw_handles w) (fw_handles w)"
  using world_boardD [OF assms] world_handleD [OF assms(1)] by (auto simp: handles_ok_def)

section \<open>Operations that send at most one report\<close>

definition push_all :: "bytes list \<Rightarrow> handle list \<Rightarrow> fake_handle list \<Rightarrow> fake_handle list" where
  "push_all ds ks hs = fold (\<lambda>d. fold (push_report d) ks) ds hs"

lemma length_push_all [simp]: "length (push_all ds ks hs) = length hs"
  unfolding push_all_def by (induction ds arbitrary: hs) simp_all

text \<open>A safe operation returns, keeps the board in order and sends only reports that decode.\<close>

definition safe_op :: "board_op \<Rightarrow> bool" where
  "safe_op f \<longleftrightarrow> (\<forall>s hs. board_ok s \<longrightarrow> (\<exists>s' ds. f s hs = Some (s', push_all ds (handles s) hs) \<and>
     board_ok s' \<and> handles s' = handles s \<and> b_info s' = b_info s \<and> list_all report_ok ds))"

lemma safeI:
  assumes "\<And>s hs. board_ok s \<Longrightarrow> \<exists>s' ds. f s hs = Some (s', push_all ds (handles s) hs) \<and>
    board_ok s' \<and> handles s' = handles s \<and> b_info s' = b_info s \<and> list_all report_ok ds"
  shows "safe_op f"
  using assms by (auto simp: safe_op_def)

lemma after_send_simps [simp]:
  "handles (after_send s) = handles s" "b_info (after_send s) = b_info s"
  "b_config (after_send s) = b_config s" "b_levels (after_send s) = b_levels s"
  "inputs (after_send s) = inputs s" "powered (after_send s) = powered s"
  "b_result (after_send s) = b_result s" "b_result_gpio (after_send s) = b_result_gpio s"
  "b_request_id (after_send s) = b_request_id s"
  by (simp_all add: after_send_def)

lemma send_safe:
  assumes "board_ok s" "length evs \<le> 7" "\<forall>e \<in> set evs. unat (ev_gpio e) < 32"
  shows "\<exists>s' ds. send r evs s hs = Some (s', push_all ds (handles s) hs) \<and>
    board_ok s' \<and> handles s' = handles s \<and> b_info s' = b_info s \<and> list_all report_ok ds"
proof -
  obtain p where p: "encode_status (sent_report s r evs) = Inr p" "length p = 63"
    "send r evs s hs = Some (after_send s, fold (push_report (REPORT_ID_STATUS # p)) (handles s) hs)"
    using send_Some [OF assms(2)] by blast
  have "status_encodable (sent_report s r evs)"
    using assms(2,3) by (simp add: status_encodable_def sent_report_def fake_status_def)
  then have "report_ok (REPORT_ID_STATUS # p)"
    using decode_encode_status p(1,2) by (fastforce simp: report_ok_def)
  then show ?thesis
    using p(3) ok_after_send [OF assms(1)]
    by (intro exI [of _ "after_send s"] exI [of _ "[REPORT_ID_STATUS # p]"]) (simp add: push_all_def)
qed

lemma no_report_safe:
  assumes "f s hs = Some (s', hs)" "board_ok s'" "handles s' = handles s" "b_info s' = b_info s"
  shows "\<exists>s' ds. f s hs = Some (s', push_all ds (handles s) hs) \<and>
    board_ok s' \<and> handles s' = handles s \<and> b_info s' = b_info s \<and> list_all report_ok ds"
  using assms by (intro exI [of _ s'] exI [of _ "[] :: bytes list"]) (simp add: push_all_def)

lemma safe_periodic: "safe_op periodic"
  unfolding periodic_def by (intro safeI send_safe) simp_all

lemma safe_drive: "safe_op (drive_outputs m v)"
proof (rule safeI)
  fix s hs
  assume "board_ok s"
  then show "\<exists>s' ds. drive_outputs m v s hs = Some (s', push_all ds (handles s) hs) \<and>
      board_ok s' \<and> handles s' = handles s \<and> b_info s' = b_info s \<and> list_all report_ok ds"
    using send_safe [OF ok_drive, of s "[]"] by (fastforce simp: drive_outputs_def Let_def)
qed

lemma safe_set_input:
  assumes "unat g < 30"
  shows "safe_op (set_input g high)"
proof (rule safeI)
  fix s hs
  assume ok: "board_ok s"
  note eq = set_input_eq [OF board_okD(1) [OF ok] assms, of high hs]
  show "\<exists>s' ds. set_input g high s hs = Some (s', push_all ds (handles s) hs) \<and>
      board_ok s' \<and> handles s' = handles s \<and> b_info s' = b_info s \<and> list_all report_ok ds"
  proof (cases "powered s \<and> is_monitored (b_config s ! unat g) \<and> bit (b_levels s) (unat g) \<noteq> high")
    case True
    then show ?thesis
      using send_safe [OF ok_followed [OF ok assms], of "[\<lparr>ev_gpio = g, ev_level = high,
         age_us = ucast (param (b_config s ! unat g)) * 1000\<rparr>]"] assms by (simp add: eq)
  next
    case False
    then show ?thesis
      using ok_moved [OF ok assms, of high] by (intro no_report_safe [of _ _ _ "moved g high s"]) (auto simp: eq moved_def)
  qed
qed

lemma safe_lose_input:
  assumes "unat g < 30"
  shows "safe_op (lose_input g high)"
proof (rule safeI)
  fix s hs
  assume ok: "board_ok s"
  note eq = lose_input_eq [OF board_okD(1) [OF ok] assms, of high hs]
  let ?s = "if is_monitored (b_config s ! unat g) then (followed g high s)\<lparr>b_overflow := True\<rparr> else moved g high s"
  show "\<exists>s' ds. lose_input g high s hs = Some (s', push_all ds (handles s) hs) \<and>
      board_ok s' \<and> handles s' = handles s \<and> b_info s' = b_info s \<and> list_all report_ok ds"
    by (rule no_report_safe [of _ _ _ ?s])
      (use ok_followed [OF ok assms] ok_moved [OF ok assms] in \<open>auto simp: eq\<close>)
qed

lemma safe_suspend: "safe_op suspend"
proof (rule safeI)
  fix s hs
  assume ok: "board_ok s"
  show "\<exists>s' ds. suspend s hs = Some (s', push_all ds (handles s) hs) \<and>
      board_ok s' \<and> handles s' = handles s \<and> b_info s' = b_info s \<and> list_all report_ok ds"
    using ok_reset [OF ok] send_safe [OF ok_reset [OF ok], of "[]" OUTPUT_RESET hs]
      no_report_safe [of suspend s hs "snd (reset_outputs s)"]
    by (cases "outputs_mask (b_config s) = 0") (simp_all add: suspend_def reset_outputs_def)
qed

text \<open>\<open>expect("validated")\<close> never panics: what validation accepts can be decoded.\<close>

lemma safe_write_config: "safe_op (write_config payload)"
proof (rule safeI)
  fix s hs
  assume ok: "board_ok s"
  obtain res g rid where v: "validate_pin_config_payload payload (available (b_info s)) = (res, g, rid)"
    by (metis prod_cases3)
  let ?s = "s\<lparr>b_result := res, b_result_gpio := g, b_request_id := rid\<rparr>"
  have ok': "board_ok ?s" using ok by simp
  show "\<exists>s' ds. write_config payload s hs = Some (s', push_all ds (handles s) hs) \<and>
      board_ok s' \<and> handles s' = handles s \<and> b_info s' = b_info s \<and> list_all report_ok ds"
  proof (cases "res = RESULT_OK")
    case False
    then show ?thesis using ok' by (intro no_report_safe [of _ _ _ ?s]) (auto simp: write_config_def v)
  next
    case True
    then obtain r where r: "decode_pin_config payload = Inr r" "config_ok (available (b_info s)) (pcr_config r)"
      using validate_payload_decodable [of payload "available (b_info s)"] v by auto
    show ?thesis
    proof (cases "pcr_config r = b_config s")
      case True
      then show ?thesis
        using ok' r v \<open>res = RESULT_OK\<close>
        by (intro no_report_safe [of _ _ _ ?s]) (auto simp: write_config_def)
    next
      case False
      have "board_ok (?s\<lparr>b_levels := levels_after (b_config s) (pcr_config r) (inputs s) (b_levels s),
          b_config := pcr_config r\<rparr>)"
        using ok_write_levels [OF ok', of "pcr_config r"] decode_pin_config_fields(2) [OF r(1)] r(2) by simp
      from send_safe [OF this, of "[]" CONFIG_CHANGED hs] show ?thesis
        using r(1) v \<open>res = RESULT_OK\<close> False by (simp add: write_config_def)
    qed
  qed
qed

section \<open>Operations in the world\<close>

lemma handles_ok_push:
  assumes "handles_ok n b ks hs0 hs" "report_ok d"
  shows "handles_ok n b ks hs0 (fold (push_report d) ks hs)"
proof -
  have nth: "fold (push_report d) ks hs ! h = (if h \<in> set ks \<and> length (reports (hs ! h)) < 64
      then (hs ! h)\<lparr>reports := reports (hs ! h) @ [d]\<rparr> else hs ! h)" if "h < length hs" for h
    using nth_push that assms(1) by (auto simp: handles_ok_def)
  have "queue_ok (fold (push_report d) ks hs ! h) \<and>
      fh_board (fold (push_report d) ks hs ! h) = fh_board (hs ! h) \<and>
      handle_live (fold (push_report d) ks hs ! h) = handle_live (hs ! h)" if "h < length hs" for h
    using assms that by (auto simp: nth handles_ok_def queue_ok_def handle_live_def)
  then show ?thesis using assms(1) by (simp add: handles_ok_def)
qed

lemma handles_ok_push_all:
  "handles_ok n b ks hs0 hs \<Longrightarrow> list_all report_ok ds \<Longrightarrow> handles_ok n b ks hs0 (push_all ds ks hs)"
  unfolding push_all_def by (induction ds arbitrary: hs) (simp_all add: handles_ok_push)

lemma safe_op_world:
  assumes "safe_op f" "world_ok w" "b < length (fw_boards w)"
  shows "\<exists>s ds. on_board b f w = Some (set_board b s (push_all ds (handles (state_of b w)) (fw_handles w)) w) \<and>
    world_ok (set_board b s (push_all ds (handles (state_of b w)) (fw_handles w)) w) \<and>
    handles s = handles (state_of b w) \<and> b_info s = b_info (state_of b w)"
proof -
  obtain s ds where f: "f (state_of b w) (fw_handles w) =
      Some (s, push_all ds (handles (state_of b w)) (fw_handles w))"
    "board_ok s" "handles s = handles (state_of b w)" "b_info s = b_info (state_of b w)"
    "list_all report_ok ds"
    using assms(1) world_boardD(1) [OF assms(2,3)] unfolding safe_op_def by blast
  have "world_ok (set_board b s (push_all ds (handles (state_of b w)) (fw_handles w)) w)"
    using world_ok_set [OF assms(2,3) f(2)] handles_ok_push_all [OF handles_same [OF assms(2,3)] f(5)]
    by (simp add: f(3))
  then show ?thesis using f by (auto simp: on_board_def)
qed

lemma world_ok_state:
  assumes "world_ok w" "b < length (fw_boards w)" "board_ok s" "handles s = handles (state_of b w)"
  shows "world_ok (set_board b s (fw_handles w) w)"
  using world_ok_set [OF assms(1-3)] handles_same [OF assms(1,2)] by (simp add: assms(4))

lemma world_ok_bus [simp]:
  "set bs \<subseteq> {..<length (fw_boards w)} \<Longrightarrow> world_ok w \<Longrightarrow> world_ok (w\<lparr>bus_boards := bs\<rparr>)"
  "world_ok (w\<lparr>bus_nodes := n\<rparr>) = world_ok w" "world_ok (w\<lparr>fw_time := t\<rparr>) = world_ok w"
  by (auto simp: world_ok_def state_of_def)

lemma world_ok_empty: "world_ok empty_world"
  by (simp add: world_ok_def empty_world_def)

lemma world_ok_make:
  assumes "world_ok w"
  shows "world_ok (make_board serial w)"
proof -
  have st: "state_of b (make_board serial w) =
      (if b < length (fw_boards w) then state_of b w else new_state)"
    if "b < Suc (length (fw_boards w))" for b
    using that by (auto simp: state_of_def make_board_def nth_append fake_board_new_def)
  have len: "length (fw_boards (make_board serial w)) = Suc (length (fw_boards w))"
    "fw_handles (make_board serial w) = fw_handles w" "bus_boards (make_board serial w) = bus_boards w"
    by (simp_all add: make_board_def)
  have "board_ok (state_of b (make_board serial w)) \<and> distinct (handles (state_of b (make_board serial w))) \<and>
      (\<forall>h \<in> set (handles (state_of b (make_board serial w))).
        h < length (fw_handles w) \<and> fh_board (fw_handles w ! h) = b)" if "b < Suc (length (fw_boards w))" for b
    using world_boardD [OF assms, of b] ok_new st [OF that] by (auto simp: new_state_def)
  moreover have "queue_ok (fw_handles w ! h) \<and> fh_board (fw_handles w ! h) < Suc (length (fw_boards w)) \<and>
      handle_live (fw_handles w ! h) = (h \<in> set (handles (state_of (fh_board (fw_handles w ! h)) (make_board serial w))))"
    if "h < length (fw_handles w)" for h
    using world_handleD [OF assms that] st by simp
  ultimately show ?thesis using assms by (auto simp: world_ok_def len)
qed

lemma nth_fail:
  "h < length hs \<Longrightarrow> fold fail_handle ks hs ! h = (if h \<in> set ks then (hs ! h)\<lparr>gone_away := True\<rparr> else hs ! h)"
proof (induction ks arbitrary: hs)
  case (Cons k ks)
  then show ?case by (cases "h = k") (simp_all add: fail_handle_def)
qed simp

lemma length_fail [simp]: "length (fold fail_handle ks hs) = length hs"
  by (induction ks arbitrary: hs) (simp_all add: fail_handle_def)

lemma handles_fail:
  assumes "world_ok w" "b < length (fw_boards w)"
  shows "handles_ok (length (fw_boards w)) b [] (fw_handles w)
    (fold fail_handle (handles (state_of b w)) (fw_handles w))"
  using world_boardD(3) [OF assms] world_handleD [OF assms(1)]
  by (auto simp: handles_ok_def nth_fail queue_ok_def handle_live_def)

lemma world_ok_plug:
  assumes "world_ok w" "b < length (fw_boards w)"
  shows "world_ok (plug b w)"
proof -
  let ?s = "plug_board (''/dev/hidraw'' @ show_nat (bus_nodes w)) (state_of b w)"
  have "world_ok (set_board b ?s (fw_handles w) w)"
    using ok_plug [OF world_boardD(1) [OF assms]]
    by (intro world_ok_state assms) (simp_all add: plug_board_def Let_def)
  moreover have "set (bus_boards w @ [b]) \<subseteq> {..<length (fw_boards w)}"
    using assms by (auto simp: world_ok_def)
  ultimately show ?thesis by (simp add: plug_def Let_def)
qed

lemma world_ok_unplug:
  assumes "world_ok w" "b < length (fw_boards w)"
  shows "world_ok (unplug b w)"
proof -
  let ?w = "w\<lparr>bus_boards := filter (\<lambda>b'. b' \<noteq> b) (bus_boards w)\<rparr>"
  have w: "world_ok ?w" using assms(1) by (intro world_ok_bus) (auto simp: world_ok_def)
  have "world_ok (set_board b (fst (unplug_board (state_of b w) (fw_handles w)))
      (fold fail_handle (handles (state_of b w)) (fw_handles w)) ?w)"
    using world_ok_set [OF w, of b] handles_fail [OF assms] assms
      ok_unplug [OF world_boardD(1) [OF assms], of "fw_handles w"]
    by (simp add: unplug_board_def fail_handles_def)
  then show ?thesis by (simp add: unplug_def unplug_board_def fail_handles_def)
qed

lemma world_ok_reenumerate:
  assumes "world_ok w" "b < length (fw_boards w)"
  shows "world_ok (case reenumerate (state_of b w) (fw_handles w) of (s, hs) \<Rightarrow> set_board b s hs w)"
proof -
  have "board_ok (snd (reset_outputs ((state_of b w)\<lparr>handles := []\<rparr>)))"
    using world_boardD(1) [OF assms] by (intro ok_reset) simp
  then show ?thesis
    using world_ok_set [OF assms, of "snd (reset_outputs ((state_of b w)\<lparr>handles := []\<rparr>))"]
      handles_fail [OF assms]
    by (simp add: reenumerate_def fail_handles_def reset_outputs_def)
qed

lemma world_ok_open:
  assumes "world_ok w" "bus_open entry w = (r, w')"
  shows "world_ok w' \<and> (\<forall>h. r = Inr h \<longrightarrow> h = length (fw_handles w) \<and> length (fw_handles w') = Suc h \<and>
    handle_live (fw_handles w' ! h))"
proof (cases "find (\<lambda>b. b_path (state_of b w) = de_path entry) (bus_boards w)")
  case None
  then show ?thesis using assms by (auto simp: bus_open_def)
next
  case (Some b)
  then have b: "b < length (fw_boards w)"
    using assms(1) by (auto simp: find_Some_iff world_ok_def)
  let ?s = "(state_of b w)\<lparr>handles := handles (state_of b w) @ [length (fw_handles w)]\<rparr>"
  let ?hs = "fw_handles w @ [\<lparr>fh_board = b, reports = [], closed = False, gone_away = False\<rparr>]"
  have "handles_ok (length (fw_boards w)) b (handles ?s) (fw_handles w) ?hs"
    using world_boardD [OF assms(1) b] world_handleD [OF assms(1)] b
    by (auto simp: handles_ok_def nth_append queue_ok_def handle_live_def less_Suc_eq)
  then have "world_ok (set_board b ?s ?hs w)"
    using world_ok_set [OF assms(1) b, of ?s ?hs] world_boardD(1) [OF assms(1) b] by simp
  then show ?thesis
    using assms world_ok_state [OF assms(1) b, of "state_of b w"] world_boardD(1) [OF assms(1) b] Some
    by (auto simp: bus_open_def open_board_def handle_live_def split: option.splits)
qed

lemma world_ok_drop:
  assumes "world_ok w" "h < length (fw_handles w)"
  shows "world_ok (handle_drop h w)"
proof -
  let ?b = "fh_board (fw_handles w ! h)"
  note b = world_handleD(2) [OF assms]
  let ?s = "(state_of ?b w)\<lparr>handles := filter (\<lambda>h'. h' \<noteq> h) (handles (state_of ?b w))\<rparr>"
  let ?hs = "(fw_handles w)[h := (fw_handles w ! h)\<lparr>closed := True\<rparr>]"
  have "handles_ok (length (fw_boards w)) ?b (handles ?s) (fw_handles w) ?hs"
    using world_boardD [OF assms(1) b] world_handleD [OF assms(1)] assms(2)
    by (auto simp: handles_ok_def nth_list_update queue_ok_def handle_live_def)
  then show ?thesis
    using world_ok_set [OF assms(1) b, of ?s ?hs] world_boardD(1) [OF assms(1) b]
    by (simp add: handle_drop_def Let_def)
qed

lemma world_ok_queue:
  assumes "world_ok w" "h < length (fw_handles w)" "queue_ok q"
    and "fh_board q = fh_board (fw_handles w ! h)" "handle_live q = handle_live (fw_handles w ! h)"
  shows "world_ok (w\<lparr>fw_handles := (fw_handles w)[h := q]\<rparr>)"
  using assms by (auto simp: world_ok_def state_of_def nth_list_update)

end
