(* ===== verification/Watch_Clock.thy ===== *)
theory Watch_Clock
  imports Transport
begin

text \<open>
  \<open>DeviceClock\<close> of \<open>rust/src/watch.rs\<close>, which converts device times to host times: samples of
  both clocks are kept for two windows of 30 seconds, and the one with the smallest
  host-minus-device difference is trusted, since a report only ever arrives late.
\<close>

type_synonym sample = "instant \<times> u64"

record device_clock =
  clk_cur :: "sample option"
  clk_prev :: "sample option"
  cur_start :: "instant option"

definition CLOCK_WINDOW :: duration where
  "CLOCK_WINDOW = from_secs 30"

definition empty_clock :: device_clock where
  "empty_clock = \<lparr>clk_cur = None, clk_prev = None, cur_start = None\<rparr>"

text \<open>Whether sample \<open>a\<close> has a smaller host-minus-device difference than sample \<open>b\<close>.\<close>

definition closer :: "sample \<Rightarrow> sample \<Rightarrow> bool" where
  "closer a b =
     (let host = (if fst b \<le> fst a then int (since (fst a) (fst b)) else - int (since (fst b) (fst a)));
          device = (uint (snd a) - uint (snd b)) * 1000
      in host < device)"

text \<open>\<open>None\<close> is the overflow panic of \<open>base + delta\<close>.\<close>

definition offset :: "instant \<Rightarrow> int \<Rightarrow> instant option" where
  "offset base micros =
     (let delta = from_micros (nat \<bar>micros\<bar> mod 2 ^ 64)
      in if 0 \<le> micros then instant_add base delta
         else Some (case instant_checked_sub base delta of Some t \<Rightarrow> t | None \<Rightarrow> base))"

definition clock_add :: "device_clock \<Rightarrow> instant \<Rightarrow> u64 \<Rightarrow> device_clock" where
  "clock_add c host device_us =
     (let sample = (host, device_us);
          fresh = c\<lparr>clk_prev := clk_cur c, clk_cur := Some sample, cur_start := Some host\<rparr>
      in case (clk_cur c, cur_start c) of
        (Some cur, Some start) \<Rightarrow>
          if since host start < CLOCK_WINDOW
          then (if closer sample cur then c\<lparr>clk_cur := Some sample\<rparr> else c)
          else fresh
      | _ \<Rightarrow> fresh)"

text \<open>The sample \<open>instant_at\<close> trusts.\<close>

definition best_sample :: "device_clock \<Rightarrow> sample option" where
  "best_sample c = (case clk_cur c of
     None \<Rightarrow> None
   | Some cur \<Rightarrow> (case clk_prev c of
        Some prev \<Rightarrow> Some (if closer prev cur then prev else cur)
      | None \<Rightarrow> Some cur))"

definition instant_at :: "device_clock \<Rightarrow> u64 \<Rightarrow> instant option" where
  "instant_at c device_us = (case best_sample c of
     None \<Rightarrow> None
   | Some best \<Rightarrow> offset (fst best) (uint device_us - uint (snd best)))"

definition clock_at :: "'w env \<Rightarrow> device_clock \<Rightarrow> u64 \<Rightarrow> 'w \<Rightarrow> (system_time \<times> 'w) option" where
  "clock_at E c device_us w = (case instant_at c device_us of
     None \<Rightarrow> None
   | Some at \<Rightarrow> (case e_now E w of (now, w) \<Rightarrow> case e_wall E w of (wall, w) \<Rightarrow>
       map_option (\<lambda>t. (t, w))
         (if at \<le> now then system_add wall (- int (since now at))
          else system_add wall (int (since at now)))))"

section \<open>The sample with the smallest difference\<close>

definition drift :: "sample \<Rightarrow> int" where
  "drift s = at_ns (fst s) - 1000 * uint (snd s)"

lemma closer_drift: "closer a b \<longleftrightarrow> drift a < drift b"
  by (auto simp: closer_def drift_def since_def instant_order Let_def algebra_simps)

text \<open>A clock after some samples: those of the current window and those of the one before.\<close>

definition tracks :: "device_clock \<Rightarrow> sample list \<Rightarrow> sample list \<Rightarrow> bool" where
  "tracks c cur prev \<longleftrightarrow>
     (case clk_cur c of None \<Rightarrow> cur = [] \<and> prev = [] | Some s \<Rightarrow> s \<in> set cur \<and> (\<forall>t \<in> set cur. drift s \<le> drift t)) \<and>
     (case clk_prev c of None \<Rightarrow> prev = [] | Some s \<Rightarrow> s \<in> set prev \<and> (\<forall>t \<in> set prev. drift s \<le> drift t)) \<and>
     (clk_cur c = None \<longleftrightarrow> cur_start c = None)"

text \<open>The samples of the two windows after one more sample.\<close>

definition windows_add :: "instant option \<Rightarrow> sample \<Rightarrow> sample list \<times> sample list \<Rightarrow> sample list \<times> sample list" where
  "windows_add start s w = (case start of
     Some t \<Rightarrow> if since (fst s) t < CLOCK_WINDOW then (fst w @ [s], snd w) else ([s], fst w)
   | None \<Rightarrow> ([s], fst w))"

lemma tracks_empty: "tracks empty_clock [] []"
  by (simp add: tracks_def empty_clock_def)

lemma tracks_add:
  assumes "tracks c cur prev"
  shows "case windows_add (cur_start c) (host, us) (cur, prev) of (cur', prev') \<Rightarrow>
    tracks (clock_add c host us) cur' prev'"
  using assms
  by (fastforce simp: tracks_def clock_add_def windows_add_def Let_def closer_drift
      split: option.splits if_splits)

lemma best_sample_least:
  assumes "tracks c cur prev" "best_sample c = Some s" "t \<in> set cur \<union> set prev"
  shows "drift s \<le> drift t \<and> s \<in> set cur \<union> set prev"
  using assms
  by (fastforce simp: tracks_def best_sample_def closer_drift split: option.splits if_splits)

lemma offset_ok:
  assumes "0 \<le> at_ns base" "at_ns base \<le> 2 ^ 62 * 1000000000" "\<bar>micros\<bar> < 2 ^ 64"
  shows "\<exists>t. offset base micros = Some t \<and> \<bar>at_ns t - at_ns base\<bar> \<le> 1000 * 2 ^ 64"
proof -
  have "nat \<bar>micros\<bar> mod 2 ^ 64 = nat \<bar>micros\<bar>" using assms(3) by simp
  then show ?thesis
    using assms
    by (auto simp: offset_def Let_def from_micros_def instant_add_def instant_checked_sub_def
        in_time_range_def time_limit_def split: option.splits)
qed

end
