(* ===== verification/Watch_State.thy ===== *)
theory Watch_State
  imports Device Watch_Clock
begin

text \<open>
  The state of the watcher thread, \<open>WatchLoop\<close> of \<open>rust/src/watch.rs\<close>, its events, and the
  shape of its operations. An operation takes the state and the world and either returns a
  value, stops the watcher with an error (the sources' \<open>Fatal\<close>), panics, or waits forever in
  a read. \<open>bind\<close> runs one operation after another, with \<open>?\<close> on \<open>Fatal\<close>; \<open>wp\<close> is the weakest
  precondition of an outcome, in which a panic is never allowed.
\<close>

section \<open>Constants\<close>

definition DEFAULT_SCAN_INTERVAL :: duration where "DEFAULT_SCAN_INTERVAL = from_secs 1"
definition READ_POLL :: duration where "READ_POLL = from_millis 50"
definition RESTORE_INTERVAL :: duration where "RESTORE_INTERVAL = from_secs 1"
definition SETTLE_TIMEOUT :: duration where "SETTLE_TIMEOUT = from_secs 1"
definition OUT_CAPACITY :: nat where "OUT_CAPACITY = 16"

section \<open>Events\<close>

datatype output_reset_cause = Suspend | Reconnect | PinConfigWrite

definition cause_description :: "output_reset_cause \<Rightarrow> string" where
  "cause_description c = (case c of
     Suspend \<Rightarrow> ''USB suspend or bus reset''
   | Reconnect \<Rightarrow> ''reconnected''
   | PinConfigWrite \<Rightarrow> ''pin configuration written'')"

record on_off_change =
  oc_gpio :: u8
  oc_on :: bool
  oc_level :: bool
  oc_time :: "system_time option"
  oc_device_us :: "u64 option"
  oc_inferred :: bool

definition has_time :: "on_off_change \<Rightarrow> bool" where
  "has_time c \<longleftrightarrow> oc_device_us c \<noteq> None"

datatype event =
    Connected string string device_info pin_config bool
  | Disconnected error
  | ConnectFailed error
  | StatusReceived status_report u64 "(u8, bool) btree"
  | InitialOnOff "(u8, bool) btree"
  | OnOffChange on_off_change
  | OutputsReset "u8 list" output_reset_cause
  | PinConfigChanged pin_config
  | PinConfigRestored pin_config u64

section \<open>The state of the thread\<close>

record connection =
  c_device :: device
  c_clock :: device_clock
  c_last_seq :: "u16 option"
  snapshot_seq :: "u16 option"
  awaiting_config :: bool

record watch_loop =
  wl_serial :: "string option"
  target :: "pin_config option"
  active_low :: "(u8, bool) btree"
  interval :: duration
  pending :: "event list"
  wl_info :: "device_info option"
  config :: pin_config
  known :: "(u8, bool) btree"
  ever_connected :: bool
  conn :: "connection option"
  failure :: string
  failures :: u32
  restore_count :: u64
  last_restore :: "instant option"
  scan_at :: "instant option"
  restore_at :: "instant option"
  settle_at :: "instant option"

definition due :: "instant option \<Rightarrow> instant \<Rightarrow> bool" where
  "due at now = (case at of None \<Rightarrow> False | Some t \<Rightarrow> t \<le> now)"

section \<open>Outcomes\<close>

datatype ('w, 'a) outcome =
    Ret 'a watch_loop 'w
  | Fatal error watch_loop 'w
  | Panic
  | Blocks

type_synonym ('w, 'a) loop_op = "watch_loop \<Rightarrow> 'w \<Rightarrow> ('w, 'a) outcome"

definition ret :: "'a \<Rightarrow> ('w, 'a) loop_op" where
  "ret x l w = Ret x l w"

definition fatal :: "error \<Rightarrow> ('w, 'a) loop_op" where
  "fatal e l w = Fatal e l w"

definition bind :: "('w, 'a) loop_op \<Rightarrow> ('a \<Rightarrow> ('w, 'b) loop_op) \<Rightarrow> ('w, 'b) loop_op" where
  "bind m f l w = (case m l w of
     Ret x l w \<Rightarrow> f x l w
   | Fatal e l w \<Rightarrow> Fatal e l w
   | Panic \<Rightarrow> Panic
   | Blocks \<Rightarrow> Blocks)"

definition also_do :: "('w, unit) loop_op \<Rightarrow> ('w, 'b) loop_op \<Rightarrow> ('w, 'b) loop_op" where
  "also_do m n = bind m (\<lambda>_. n)"

text \<open>\<open>let _ = m\<close> where \<open>m\<close> may stop the watcher: the error is dropped.\<close>

definition ignore_fatal :: "('w, unit) loop_op \<Rightarrow> ('w, unit) loop_op" where
  "ignore_fatal m l w = (case m l w of Fatal e l w \<Rightarrow> Ret () l w | r \<Rightarrow> r)"

definition change :: "(watch_loop \<Rightarrow> watch_loop) \<Rightarrow> ('w, unit) loop_op" where
  "change f l w = Ret () (f l) w"

definition look :: "(watch_loop \<Rightarrow> 'a) \<Rightarrow> ('w, 'a) loop_op" where
  "look f l w = Ret (f l) l w"

definition or_panic :: "'a option \<Rightarrow> ('w, 'a) loop_op" where
  "or_panic x l w = (case x of None \<Rightarrow> Panic | Some y \<Rightarrow> Ret y l w)"

definition now :: "'w env \<Rightarrow> ('w, instant) loop_op" where
  "now E l w = (case e_now E w of (t, w) \<Rightarrow> Ret t l w)"

text \<open>\<open>Instant::now() + d\<close>.\<close>

definition now_plus :: "'w env \<Rightarrow> duration \<Rightarrow> ('w, instant) loop_op" where
  "now_plus E d = bind (now E) (\<lambda>t. or_panic (instant_add t d))"

text \<open>\<open>self.conn.as_mut().expect("connected")\<close>, and an operation of its device.\<close>

definition the_conn :: "('w, connection) loop_op" where
  "the_conn l w = (case conn l of None \<Rightarrow> Panic | Some c \<Rightarrow> Ret c l w)"

definition change_conn :: "(connection \<Rightarrow> connection) \<Rightarrow> ('w, unit) loop_op" where
  "change_conn f l w = (case conn l of
     None \<Rightarrow> Panic | Some c \<Rightarrow> Ret () (l\<lparr>conn := Some (f c)\<rparr>) w)"

definition on_device :: "('w, 'a) dev_op \<Rightarrow> ('w, 'a result) loop_op" where
  "on_device m l w = (case conn l of
     None \<Rightarrow> Panic
   | Some c \<Rightarrow> (case m (c_device c) w of
       (r, d, w) \<Rightarrow> Ret r (l\<lparr>conn := Some (c\<lparr>c_device := d\<rparr>)\<rparr>) w))"

definition emit :: "event \<Rightarrow> ('w, unit) loop_op" where
  "emit e = change (\<lambda>l. l\<lparr>pending := pending l @ [e]\<rparr>)"

section \<open>Running operations\<close>

lemma bind_Ret: "m l w = Ret x l' w' \<Longrightarrow> bind m f l w = f x l' w'"
  by (simp add: bind_def)

lemma also_Ret: "m l w = Ret () l' w' \<Longrightarrow> also_do m n l w = n l' w'"
  by (simp add: also_do_def bind_def)

lemma the_conn_Ret: "conn l = Some c \<Longrightarrow> the_conn l w = Ret c l w"
  and change_conn_Ret: "conn l = Some c \<Longrightarrow> change_conn f l w = Ret () (l\<lparr>conn := Some (f c)\<rparr>) w"
  by (simp_all add: the_conn_def change_conn_def)

lemmas run_simps = bind_Ret also_Ret the_conn_Ret change_conn_Ret ret_def change_def look_def

section \<open>Weakest preconditions\<close>

definition wp :: "('w, 'a) outcome \<Rightarrow> ('a \<Rightarrow> watch_loop \<Rightarrow> 'w \<Rightarrow> bool) \<Rightarrow>
    (error \<Rightarrow> watch_loop \<Rightarrow> 'w \<Rightarrow> bool) \<Rightarrow> bool" where
  "wp r Q F = (case r of Ret x l w \<Rightarrow> Q x l w | Fatal e l w \<Rightarrow> F e l w | Panic \<Rightarrow> False | Blocks \<Rightarrow> True)"

named_theorems wp_rules \<open>weakest preconditions of the basic operations\<close>

lemma wp_outcome [simp]:
  "wp (Ret x l w) Q F = Q x l w" "wp (Fatal e l w) Q F = F e l w"
  "wp Panic Q F = False" "wp Blocks Q F = True"
  by (simp_all add: wp_def)

lemma wp_mono:
  assumes "wp r Q F" "\<And>x l w. Q x l w \<Longrightarrow> Q' x l w" "\<And>e l w. F e l w \<Longrightarrow> F' e l w"
  shows "wp r Q' F'"
  using assms by (cases r) auto

lemma wp_conj: "wp r Q F \<Longrightarrow> wp r Q' F' \<Longrightarrow>
    wp r (\<lambda>x l w. Q x l w \<and> Q' x l w) (\<lambda>e l w. F e l w \<and> F' e l w)"
  by (cases r) auto

lemma wp_bind [wp_rules]:
  "wp (bind m f l w) Q F = wp (m l w) (\<lambda>x l w. wp (f x l w) Q F) F"
  by (cases "m l w") (simp_all add: bind_def)

lemma wp_also_do [wp_rules]:
  "wp (also_do m n l w) Q F = wp (m l w) (\<lambda>_ l w. wp (n l w) Q F) F"
  by (simp add: also_do_def wp_bind)

lemma wp_ignore_fatal [wp_rules]:
  "wp (ignore_fatal m l w) Q F = wp (m l w) Q (\<lambda>_ l w. Q () l w)"
  by (cases "m l w") (simp_all add: ignore_fatal_def)

lemma wp_ret [wp_rules]: "wp (ret x l w) Q F = Q x l w"
  by (simp add: ret_def)

lemma wp_fatal [wp_rules]: "wp (fatal e l w) Q F = F e l w"
  by (simp add: fatal_def)

lemma wp_change [wp_rules]: "wp (change f l w) Q F = Q () (f l) w"
  by (simp add: change_def)

lemma wp_look [wp_rules]: "wp (look g l w) Q F = Q (g l) l w"
  by (simp add: look_def)

lemma wp_or_panic [wp_rules]: "wp (or_panic y l w) Q F = (\<exists>x. y = Some x \<and> Q x l w)"
  by (simp add: or_panic_def split: option.split)

lemma wp_emit [wp_rules]: "wp (emit ev l w) Q F = Q () (l\<lparr>pending := pending l @ [ev]\<rparr>) w"
  by (simp add: emit_def change_def)

lemma wp_now [wp_rules]: "wp (now E l w) Q F = (case e_now E w of (t, w) \<Rightarrow> Q t l w)"
  by (simp add: now_def split: prod.split)

lemma wp_the_conn [wp_rules]:
  "wp (the_conn l w) Q F = (\<exists>c. conn l = Some c \<and> Q c l w)"
  by (auto simp: the_conn_def split: option.split)

lemma wp_change_conn [wp_rules]:
  "wp (change_conn f l w) Q F = (\<exists>c. conn l = Some c \<and> Q () (l\<lparr>conn := Some (f c)\<rparr>) w)"
  by (auto simp: change_conn_def split: option.split)

lemma wp_on_device [wp_rules]:
  "wp (on_device m l w) Q F = (\<exists>c. conn l = Some c \<and>
     (case m (c_device c) w of (r, d, w) \<Rightarrow> Q r (l\<lparr>conn := Some (c\<lparr>c_device := d\<rparr>)\<rparr>) w))"
  by (auto simp: on_device_def split: option.split prod.split)

end
