(* ===== verification/Watch_Loop.thy ===== *)
theory Watch_Loop
  imports Watch_State
begin

text \<open>
  The operations of \<open>WatchLoop\<close> in \<open>rust/src/watch.rs\<close>, in the order in which they build on
  each other: the configuration and the ON/OFF the watcher knows, losing the connection,
  absorbing status reports, restoring and replacing the target, connecting.
\<close>

section \<open>The configuration and the known ON/OFF\<close>

definition active_low_of :: "u8 \<Rightarrow> ('w, bool) loop_op" where
  "active_low_of gpio = bind (look (\<lambda>l. active_low_in (map_of (active_low l)) (config l) gpio)) or_panic"

definition loop_on_off :: "status_report \<Rightarrow> ('w, (u8, bool) btree) loop_op" where
  "loop_on_off report = bind (look (\<lambda>l. map_option bt_collect
       (on_off_entries (map_of (active_low l)) (config l) report (mask_to_gpios (monitored report)))))
     or_panic"

text \<open>\<open>set_config\<close> indexes both configurations by every known GPIO.\<close>

definition set_config :: "pin_config \<Rightarrow> ('w, unit) loop_op" where
  "set_config new l w =
     (if list_all (\<lambda>gpio. unat gpio < length new \<and> unat gpio < length (config l)) (bt_keys (known l))
      then Ret () (l\<lparr>known := bt_retain (\<lambda>gpio. is_monitored (new ! unat gpio) \<and>
               mode (new ! unat gpio) = mode (config l ! unat gpio)) (known l),
             config := new\<rparr>) w
      else Panic)"

text \<open>
  The pins that writing \<open>new\<close> over \<open>prev\<close> drives to their initial output level; the indexing
  is inside the 30 entries.
\<close>

definition driven_outputs :: "pin_config \<Rightarrow> pin_config \<Rightarrow> u8 list" where
  "driven_outputs prev new =
     filter (\<lambda>gpio. is_output (new ! unat gpio) \<and> prev ! unat gpio \<noteq> new ! unat gpio) gpio_range"

section \<open>Failures and the connection\<close>

definition failed :: "error \<Rightarrow> ('w, unit) loop_op" where
  "failed e =
     also_do (change (\<lambda>l. if error_display e \<noteq> failure l
         then l\<lparr>failure := error_display e, failures := 0\<rparr> else l))
     (also_do (change (\<lambda>l. l\<lparr>failures := failures l + 1\<rparr>))
     (bind (look failures) (\<lambda>n. if n = 2 then emit (ConnectFailed e) else ret ())))"

definition reset_failures :: "('w, unit) loop_op" where
  "reset_failures = change (\<lambda>l. l\<lparr>failure := [], failures := 0\<rparr>)"

definition drop_connection :: "'w env \<Rightarrow> ('w, unit) loop_op" where
  "drop_connection E l w = (case conn l of
     None \<Rightarrow> Ret () l w
   | Some c \<Rightarrow> Ret () (l\<lparr>conn := None, restore_at := None, settle_at := None\<rparr>)
       (e_close E (dev_handle (c_device c)) w))"

definition scan_later :: "'w env \<Rightarrow> ('w, unit) loop_op" where
  "scan_later E = bind (look interval) (\<lambda>d.
     bind (now_plus E d) (\<lambda>t. change (\<lambda>l. l\<lparr>scan_at := Some t\<rparr>)))"

definition lost :: "'w env \<Rightarrow> error \<Rightarrow> ('w, unit) loop_op" where
  "lost E e = bind (look conn) (\<lambda>c. case c of
     None \<Rightarrow> ret ()
   | Some _ \<Rightarrow>
       also_do (drop_connection E)
       (also_do (emit (Disconnected e))
       (scan_later E)))"

section \<open>Absorbing a status report\<close>

definition change_event :: "u8 \<Rightarrow> bool \<Rightarrow> bool \<Rightarrow> system_time option \<Rightarrow> u64 option \<Rightarrow> bool \<Rightarrow> event" where
  "change_event gpio on lev time us inferred = OnOffChange
     \<lparr>oc_gpio = gpio, oc_on = on, oc_level = lev, oc_time = time, oc_device_us = us,
      oc_inferred = inferred\<rparr>"

text \<open>\<open>conn.clock.at(start)\<close> for the start of an event, when it is known.\<close>

definition event_time :: "'w env \<Rightarrow> u64 option \<Rightarrow> ('w, system_time option) loop_op" where
  "event_time E start = (case start of
     None \<Rightarrow> ret None
   | Some us \<Rightarrow> bind the_conn (\<lambda>c l w. case clock_at E (c_clock c) us w of
       None \<Rightarrow> Panic | Some (t, w) \<Rightarrow> Ret (Some t) l w))"

definition absorb_event :: "'w env \<Rightarrow> u64 \<Rightarrow> edge_event \<Rightarrow> ('w, unit) loop_op" where
  "absorb_event E report_us e = bind (look (\<lambda>l. map_of (known l) (ev_gpio e))) (\<lambda>was. case was of
     None \<Rightarrow> ret ()
   | Some was \<Rightarrow> bind (active_low_of (ev_gpio e)) (\<lambda>low.
       let on = (ev_level e \<noteq> low); start = start_us e report_us in
       also_do (if on = was
         then emit (change_event (ev_gpio e) (\<not> on) (\<not> ev_level e) None None True) else ret ())
       (bind (event_time E start) (\<lambda>time.
        also_do (emit (change_event (ev_gpio e) on (ev_level e) time start False))
          (change (\<lambda>l. l\<lparr>known := bt_insert (ev_gpio e) on (known l)\<rparr>))))))"

fun absorb_events :: "'w env \<Rightarrow> u64 \<Rightarrow> edge_event list \<Rightarrow> ('w, unit) loop_op" where
  "absorb_events E report_us [] = ret ()"
| "absorb_events E report_us (e # es) =
     also_do (absorb_event E report_us e) (absorb_events E report_us es)"

definition absorb_level :: "status_report \<Rightarrow> u8 \<Rightarrow> (u8, bool) btree \<Rightarrow> ('w, (u8, bool) btree) loop_op" where
  "absorb_level report gpio learned = bind (active_low_of gpio) (\<lambda>low.
     let on = (sr_level report gpio \<noteq> low) in
     bind (look (\<lambda>l. map_of (known l) gpio)) (\<lambda>was.
     also_do (case was of
         None \<Rightarrow> ret ()
       | Some was \<Rightarrow> if was \<noteq> on
           then emit (change_event gpio on (sr_level report gpio) None None True) else ret ())
     (also_do (change (\<lambda>l. l\<lparr>known := bt_insert gpio on (known l)\<rparr>))
     (ret (if was = None then bt_insert gpio on learned else learned)))))"

fun absorb_levels :: "status_report \<Rightarrow> u8 list \<Rightarrow> (u8, bool) btree \<Rightarrow> ('w, (u8, bool) btree) loop_op" where
  "absorb_levels report [] learned = ret learned"
| "absorb_levels report (gpio # gpios) learned =
     bind (absorb_level report gpio learned) (absorb_levels report gpios)"

definition absorb :: "'w env \<Rightarrow> status_report \<Rightarrow> ('w, unit) loop_op" where
  "absorb E report =
     also_do (absorb_events E (timestamp_us report) (events report))
     (bind (absorb_levels report (mask_to_gpios (monitored report)) []) (\<lambda>learned.
      also_do (change (\<lambda>l. l\<lparr>known := bt_retain (sr_is_monitored report) (known l)\<rparr>))
       (if learned \<noteq> [] then emit (InitialOnOff learned) else ret ())))"

section \<open>The target\<close>

definition wrote :: "'w env \<Rightarrow> pin_config \<Rightarrow> pin_config \<Rightarrow> ('w, unit) loop_op" where
  "wrote E found new =
     also_do (set_config new)
     (also_do (change (\<lambda>l. l\<lparr>conn := map_option (\<lambda>c. c\<lparr>awaiting_config := True\<rparr>) (conn l)\<rparr>))
     (bind (now_plus E SETTLE_TIMEOUT) (\<lambda>t.
      also_do (change (\<lambda>l. l\<lparr>settle_at := Some t\<rparr>))
       (if driven_outputs found new \<noteq> []
        then emit (OutputsReset (driven_outputs found new) PinConfigWrite) else ret ()))))"

definition restore_later :: "'w env \<Rightarrow> duration \<Rightarrow> ('w, unit) loop_op" where
  "restore_later E d = bind (now_plus E d) (\<lambda>t. change (\<lambda>l. l\<lparr>restore_at := Some t\<rparr>))"

text \<open>\<open>restore_target\<close> from reading the configuration on.\<close>

definition restore_over :: "'w env \<Rightarrow> pin_config \<Rightarrow> pin_config \<Rightarrow> ('w, unit) loop_op" where
  "restore_over E tgt found =
     also_do (set_config found)
     (if found = tgt then ret ()
      else bind (on_device (set_pin_config E tgt)) (\<lambda>r. case r of
        Inl e \<Rightarrow> if is_rejected e then fatal e
          else if is_conflict e then restore_later E RESTORE_INTERVAL
          else lost E e
      | Inr _ \<Rightarrow>
          also_do (change (\<lambda>l. l\<lparr>restore_count := restore_count l + 1\<rparr>))
          (bind (look restore_count) (\<lambda>count.
           also_do (emit (PinConfigRestored found count))
            (wrote E found tgt)))))"

definition restore_target :: "'w env \<Rightarrow> ('w, unit) loop_op" where
  "restore_target E = bind (look target) (\<lambda>t. bind (look conn) (\<lambda>c. case (t, c) of
     (Some tgt, Some _) \<Rightarrow>
       also_do (change (\<lambda>l. l\<lparr>restore_at := None\<rparr>))
       (bind (now E) (\<lambda>t.
        also_do (change (\<lambda>l. l\<lparr>last_restore := Some t\<rparr>))
        (bind (on_device (get_pin_config E)) (\<lambda>r. case r of
           Inl e \<Rightarrow> lost E e
         | Inr report \<Rightarrow> restore_over E tgt (pcr_config report)))))
   | _ \<Rightarrow> ret ()))"

text \<open>\<open>config_changed\<close> once another program's configuration is known to differ from the target.\<close>

definition restore_or_wait :: "'w env \<Rightarrow> ('w, unit) loop_op" where
  "restore_or_wait E = bind (look last_restore) (\<lambda>r. case r of
     None \<Rightarrow> restore_target E
   | Some last_t \<Rightarrow> bind (now E) (\<lambda>t.
       let elapsed = since t last_t in
       if elapsed < RESTORE_INTERVAL then restore_later E (RESTORE_INTERVAL - elapsed)
       else restore_target E))"

definition config_changed :: "'w env \<Rightarrow> ('w, unit) loop_op" where
  "config_changed E = bind (on_device (get_pin_config E)) (\<lambda>r. case r of
     Inl e \<Rightarrow> lost E e
   | Inr report \<Rightarrow> bind (look (\<lambda>l. pcr_config report \<noteq> config l)) (\<lambda>changed.
       also_do (set_config (pcr_config report))
       (bind (look target) (\<lambda>t. case t of
          None \<Rightarrow> if changed then emit (PinConfigChanged (pcr_config report)) else ret ()
        | Some tgt \<Rightarrow> if pcr_config report = tgt then ret () else restore_or_wait E))))"

text \<open>\<open>set_target\<close> from reading the configuration on; \<open>previous\<close> is the target it replaced.\<close>

definition write_target :: "'w env \<Rightarrow> pin_config \<Rightarrow> pin_config option \<Rightarrow> ('w, unit result) loop_op" where
  "write_target E new previous =
     also_do (change (\<lambda>l. l\<lparr>restore_at := None\<rparr>))
     (bind (on_device (get_pin_config E)) (\<lambda>r. case r of
        Inl e \<Rightarrow> ret (Inl e)
      | Inr report \<Rightarrow>
          also_do (set_config (pcr_config report))
          (if pcr_config report = new then ret (Inr ())
           else bind (on_device (set_pin_config E new)) (\<lambda>r. case r of
             Inl e \<Rightarrow>
               also_do (if is_rejected e then change (\<lambda>l. l\<lparr>target := previous\<rparr>)
                 else if is_conflict e then restore_later E RESTORE_INTERVAL
                 else ret ())
               (ret (Inl e))
           | Inr _ \<Rightarrow> also_do (wrote E (pcr_config report) new) (ret (Inr ()))))))"

definition set_target :: "'w env \<Rightarrow> pin_config \<Rightarrow> ('w, unit result) loop_op" where
  "set_target E new = bind (look wl_info) (\<lambda>i.
     case (case i of None \<Rightarrow> (RESULT_OK, RESULT_GPIO_NONE)
           | Some i \<Rightarrow> validate_pin_config new (available i)) of (result, gpio) \<Rightarrow>
       if result \<noteq> RESULT_OK then ret (Inl (PinConfigRejected result gpio True))
       else bind (look target) (\<lambda>previous.
         also_do (change (\<lambda>l. l\<lparr>target := Some new\<rparr>))
         (bind (look conn) (\<lambda>c. case c of
            None \<Rightarrow> ret (Inr ())
          | Some _ \<Rightarrow> write_target E new previous))))"

section \<open>Status reports\<close>

text \<open>
  Whether an interrupt report was sent before the snapshot (\<open>seq\<close> wraps around, so distances
  are compared), and the snapshot number to keep.
\<close>

definition stale_after :: "u16 option \<Rightarrow> status_report \<Rightarrow> bool \<times> u16 option" where
  "stale_after snapshot report =
     (if flags_contains (sr_reason report) HOST_REQUEST then (False, snapshot)
      else case snapshot of
        None \<Rightarrow> (False, None)
      | Some s \<Rightarrow>
          if seq report - s = 0 \<or> 0x8000 \<le> seq report - s then (True, Some s) else (False, None))"

definition suspend_event :: "status_report \<Rightarrow> ('w, unit) loop_op" where
  "suspend_event report =
     (if flags_contains (sr_reason report) OUTPUT_RESET \<and> mask_to_gpios (outputs report) \<noteq> []
      then emit (OutputsReset (mask_to_gpios (outputs report)) Suspend) else ret ())"

text \<open>The last part of \<open>status\<close>: the report is absorbed unless it shows an older state.\<close>

definition absorb_unless :: "'w env \<Rightarrow> bool \<Rightarrow> status_report \<Rightarrow> ('w, unit) loop_op" where
  "absorb_unless E stale report = bind (look conn) (\<lambda>c.
     if stale \<or> (case c of None \<Rightarrow> False | Some c \<Rightarrow> awaiting_config c) \<or>
        (flags_contains (sr_reason report) HOST_REQUEST \<and> more_events report)
     then ret () else absorb E report)"

definition status_step :: "'w env \<Rightarrow> status_report \<Rightarrow> instant \<Rightarrow> u64 \<Rightarrow> ('w, unit) loop_op" where
  "status_step E report at missed = bind (loop_on_off report) (\<lambda>on.
     bind the_conn (\<lambda>c.
     case stale_after (snapshot_seq c) report of (stale, snap) \<Rightarrow>
     let config_news = flags_contains (sr_reason report) CONFIG_CHANGED in
     also_do (change_conn (\<lambda>c. c\<lparr>c_clock := clock_add (c_clock c) at (timestamp_us report),
         snapshot_seq := snap\<rparr>))
     (also_do (if config_news \<and> \<not> stale
         then also_do (change_conn (\<lambda>c. c\<lparr>awaiting_config := False\<rparr>))
           (change (\<lambda>l. l\<lparr>settle_at := None\<rparr>))
         else ret ())
     (also_do (emit (StatusReceived report missed on))
     (also_do (suspend_event report)
     (if config_news
      then also_do (config_changed E)
        (bind (look conn) (\<lambda>c. if c = None then ret () else absorb_unless E stale report))
      else absorb_unless E stale report))))))"

definition received :: "'w env \<Rightarrow> bytes \<Rightarrow> instant \<Rightarrow> ('w, unit) loop_op" where
  "received E data at =
     (if length data < REPORT_LEN \<or> data ! 0 \<noteq> REPORT_ID_STATUS then ret ()
      else case decode_status (take REPORT_PAYLOAD_LEN (drop 1 data)) of
        Inl _ \<Rightarrow> ret ()
      | Inr report \<Rightarrow> bind the_conn (\<lambda>c.
          let missed = (case c_last_seq c of
              None \<Rightarrow> 0 | Some last_seq \<Rightarrow> ucast (seq report - last_seq - 1))
          in also_do (change_conn (\<lambda>c. c\<lparr>c_last_seq := Some (seq report)\<rparr>))
            (status_step E report at missed)))"

definition snapshot :: "'w env \<Rightarrow> ('w, unit) loop_op" where
  "snapshot E = bind (on_device (request_status E)) (\<lambda>r. case r of
     Inl e \<Rightarrow> lost E e
   | Inr report \<Rightarrow>
       also_do (change_conn (\<lambda>c. c\<lparr>snapshot_seq :=
           (if seq report \<noteq> 0 \<and> \<not> more_events report then Some (seq report) else None)\<rparr>))
       (bind (now E) (\<lambda>t. ignore_fatal (status_step E report t 0))))"

section \<open>Connecting\<close>

text \<open>
  The target written over the configuration found: the configuration from now on, the
  outputs driven, and whether CONFIG_CHANGED is awaited.
\<close>

definition apply_target :: "'w env \<Rightarrow> pin_config option \<Rightarrow> pin_config \<Rightarrow>
    ('w, pin_config \<times> u8 list \<times> bool) dev_op" where
  "apply_target E tgt found = (case tgt of
     Some t \<Rightarrow>
       if found \<noteq> t
       then seq_op (set_pin_config E t) (\<lambda>_. return_op (Inr (t, driven_outputs found t, True)))
       else return_op (Inr (found, [], False))
   | None \<Rightarrow> return_op (Inr (found, [], False)))"

definition new_connection :: "device \<Rightarrow> bool \<Rightarrow> connection" where
  "new_connection d awaiting = \<lparr>c_device = d, c_clock = empty_clock, c_last_seq = None,
     snapshot_seq = None, awaiting_config = awaiting\<rparr>"

definition outputs_event :: "pin_config \<Rightarrow> u8 list \<Rightarrow> bool \<Rightarrow> ('w, unit) loop_op" where
  "outputs_event found driven reconnected =
     (if reconnected \<and> mask_to_gpios (outputs_mask found) \<noteq> []
      then emit (OutputsReset (mask_to_gpios (outputs_mask found)) Reconnect)
      else if driven \<noteq> [] then emit (OutputsReset driven PinConfigWrite) else ret ())"

text \<open>\<open>connect\<close> once the device follows the target.\<close>

definition connected :: "'w env \<Rightarrow> device_entry \<Rightarrow> device_info \<Rightarrow> device \<Rightarrow>
    pin_config \<times> u8 list \<times> bool \<Rightarrow> ('w, unit result) loop_op" where
  "connected E entry i d fda = (case fda of (found, driven, awaiting) \<Rightarrow>
     also_do (change (\<lambda>l. l\<lparr>conn := Some (new_connection d awaiting)\<rparr>))
     (also_do reset_failures
     (bind (look ever_connected) (\<lambda>reconnected.
      also_do (change (\<lambda>l. l\<lparr>ever_connected := True\<rparr>))
      (also_do (set_config found)
      (also_do (emit (Connected (de_serial entry) (de_path entry) i found reconnected))
      (also_do (outputs_event found driven reconnected)
      (also_do (if awaiting
          then bind (now_plus E SETTLE_TIMEOUT) (\<lambda>t. change (\<lambda>l. l\<lparr>settle_at := Some t\<rparr>))
          else snapshot E)
      (ret (Inr ()))))))))))"

text \<open>A device that is dropped closes its transport.\<close>

definition connect :: "'w env \<Rightarrow> device_entry \<Rightarrow> ('w, unit result) loop_op" where
  "connect E entry l w = (case e_open E entry w of
     (Inl e, w) \<Rightarrow> Ret (Inl e) l w
   | (Inr h, w) \<Rightarrow> (case device_new E h (de_serial entry) w of (d, w) \<Rightarrow>
       case info E d w of
         (Inl e, d, w) \<Rightarrow> Ret (Inl e) l (e_close E h w)
       | (Inr i, d, w) \<Rightarrow> (case get_pin_config E d w of
           (Inl e, d, w) \<Rightarrow> Ret (Inl e) (l\<lparr>wl_info := Some i\<rparr>) (e_close E h w)
         | (Inr r, d, w) \<Rightarrow> (case apply_target E (target l) (pcr_config r) d w of
             (Inl e, d, w) \<Rightarrow>
               if is_rejected e then Fatal e (l\<lparr>wl_info := Some i\<rparr>) (e_close E h w)
               else Ret (Inl e) (l\<lparr>wl_info := Some i\<rparr>) (e_close E h w)
           | (Inr fda, d, w) \<Rightarrow> connected E entry i d fda (l\<lparr>wl_info := Some i\<rparr>) w))))"

definition matching_entries :: "string option \<Rightarrow> device_entry list \<Rightarrow> device_entry list" where
  "matching_entries serial = filter (\<lambda>entry. serial = None \<or> serial = Some (de_serial entry))"

definition list_devices :: "'w env \<Rightarrow> ('w, device_entry list result) loop_op" where
  "list_devices E l w = (case e_devices E w of (r, w) \<Rightarrow> Ret r l w)"

text \<open>\<open>try_connect\<close> once the list of devices was read.\<close>

definition try_entries :: "'w env \<Rightarrow> device_entry list \<Rightarrow> ('w, unit) loop_op" where
  "try_entries E entries = bind (look wl_serial) (\<lambda>serial.
     case matching_entries serial entries of
       [] \<Rightarrow> also_do reset_failures (scan_later E)
     | entry # others \<Rightarrow>
         if serial = None \<and> others \<noteq> []
         then fatal (SeveralDevices (map de_serial (entry # others)))
         else
           also_do (change (\<lambda>l. l\<lparr>wl_serial := Some (de_serial entry)\<rparr>))
           (bind (connect E entry) (\<lambda>r. case r of
              Inr _ \<Rightarrow> ret ()
            | Inl e \<Rightarrow> also_do (failed e) (scan_later E))))"

definition try_connect :: "'w env \<Rightarrow> ('w, unit) loop_op" where
  "try_connect E = bind (list_devices E) (\<lambda>r. case r of
     Inl e \<Rightarrow> if e = UnsupportedPlatform then fatal e
       else also_do (failed e) (scan_later E)
   | Inr entries \<Rightarrow> try_entries E entries)"

end
