(* ===== verification/Watch_App.thy ===== *)
theory Watch_App
  imports Watch_Loop
begin

text \<open>
  The thread of the watcher and the application side of \<open>rust/src/watch.rs\<close>: one turn of
  \<open>main_loop\<close>, the state the two sides share under the lock, the calls of \<open>Watcher\<close>, and
  the steps in which they interleave. A turn takes the lock once at its start; what it does
  after that touches only the state of the thread and the device, so a turn is one step, and
  every use of the lock by the application is a step of its own.
\<close>

section \<open>Options\<close>

record watch_options =
  opt_serial :: "string option"
  opt_target :: "pin_config option"
  opt_active_low :: "(u8, bool) btree"
  opt_interval :: duration

text \<open>The checks of \<open>watch\<close> and \<open>set_target_pins\<close> that need no device.\<close>

definition check_target :: "pin_config \<Rightarrow> unit result" where
  "check_target tgt = (case validate_pin_config tgt ALL_GPIOS of (result, gpio) \<Rightarrow>
     if result \<noteq> RESULT_OK then Inl (PinConfigRejected result gpio True) else Inr ())"

definition check_options :: "watch_options \<Rightarrow> unit result" where
  "check_options opt =
     (if opt_interval opt = 0 then Inl (InvalidArgument ''the scan interval must be positive'')
      else and_then (case opt_target opt of None \<Rightarrow> Inr () | Some tgt \<Rightarrow> check_target tgt) (\<lambda>_.
        case find (\<lambda>gpio. unat gpio \<ge> GPIO_COUNT) (bt_keys (opt_active_low opt)) of
          Some gpio \<Rightarrow> Inl (gpio_out_of_range gpio)
        | None \<Rightarrow> Inr ()))"

definition initial_loop :: "watch_options \<Rightarrow> instant \<Rightarrow> watch_loop" where
  "initial_loop opt t =
     \<lparr>wl_serial = opt_serial opt, target = opt_target opt, active_low = opt_active_low opt,
      interval = opt_interval opt, pending = [], wl_info = None, config = unused_config,
      known = [], ever_connected = False, conn = None, failure = [], failures = 0,
      restore_count = 0, last_restore = None, scan_at = Some t, restore_at = None,
      settle_at = None\<rparr>"

section \<open>Requests\<close>

text \<open>The two closures the application sends to the thread.\<close>

datatype request_op = SetOutputs "(u8 \<times> bool) list" | SetTarget pin_config

definition run_request :: "'w env \<Rightarrow> request_op \<Rightarrow> ('w, unit result) loop_op" where
  "run_request E r = (case r of
     SetOutputs lvls \<Rightarrow> bind (look conn) (\<lambda>c. case c of
         None \<Rightarrow> ret (Inl DeviceDisconnected)
       | Some _ \<Rightarrow> on_device (set_outputs E lvls))
   | SetTarget tgt \<Rightarrow> set_target E tgt)"

text \<open>A request carries the number of its caller, to whom the answer goes.\<close>

type_synonym reply = "nat \<times> unit result"

fun run_requests :: "'w env \<Rightarrow> (nat \<times> request_op) list \<Rightarrow> ('w, reply list) loop_op" where
  "run_requests E [] = ret []"
| "run_requests E ((n, r) # rs) = bind (run_request E r) (\<lambda>a.
     bind (run_requests E rs) (\<lambda>as. ret ((n, a) # as)))"

section \<open>One turn of the thread\<close>

definition read_report :: "'w env \<Rightarrow> duration \<Rightarrow> ('w, (nat \<times> bytes) result) loop_op" where
  "read_report E timeout l w = (case conn l of
     None \<Rightarrow> Panic
   | Some c \<Rightarrow> (case read_raw E (replicate REPORT_LEN 0) (Some timeout) (c_device c) w of
       None \<Rightarrow> Blocks
     | Some (r, d, w) \<Rightarrow> Ret r (l\<lparr>conn := Some (c\<lparr>c_device := d\<rparr>)\<rparr>) w))"

text \<open>\<open>buf[..n]\<close> panics when a transport claims more bytes than the buffer has.\<close>

definition read_device :: "'w env \<Rightarrow> duration \<Rightarrow> ('w, unit) loop_op" where
  "read_device E timeout = bind (read_report E timeout) (\<lambda>r. case r of
     Inl e \<Rightarrow> lost E e
   | Inr (n, buf) \<Rightarrow>
       if n = 0 then ret ()
       else bind (or_panic (if n \<le> length buf then Some (take n buf) else None)) (\<lambda>data.
         bind (now E) (\<lambda>t. received E data t)))"

definition earliest :: "instant option list \<Rightarrow> instant option" where
  "earliest ts = fold (\<lambda>t m. case (t, m) of
     (None, m) \<Rightarrow> m | (Some t, None) \<Rightarrow> Some t | (Some t, Some m) \<Rightarrow> Some (min m t)) ts None"

definition read_timeout :: "watch_loop \<Rightarrow> instant \<Rightarrow> duration" where
  "read_timeout l t = max (from_millis 1)
     (case earliest [scan_at l, restore_at l, settle_at l] of
        None \<Rightarrow> READ_POLL | Some at \<Rightarrow> min (since at t) READ_POLL)"

definition settle :: "'w env \<Rightarrow> ('w, unit) loop_op" where
  "settle E = also_do (change (\<lambda>l. l\<lparr>settle_at := None\<rparr>))
     (bind (look conn) (\<lambda>c. case c of
        None \<Rightarrow> ret ()
      | Some _ \<Rightarrow> also_do (change_conn (\<lambda>c. c\<lparr>awaiting_config := False\<rparr>)) (snapshot E)))"

definition scan :: "'w env \<Rightarrow> ('w, unit) loop_op" where
  "scan E = also_do (change (\<lambda>l. l\<lparr>scan_at := None\<rparr>)) (try_connect E)"

definition restore :: "'w env \<Rightarrow> ('w, unit) loop_op" where
  "restore E = also_do (change (\<lambda>l. l\<lparr>restore_at := None\<rparr>)) (restore_target E)"

text \<open>A turn without requests: the first timer that is due, else waiting, else one read.\<close>

definition idle_turn :: "'w env \<Rightarrow> ('w, unit) loop_op" where
  "idle_turn E = bind (now E) (\<lambda>t. bind (look (\<lambda>l. l)) (\<lambda>l.
     if due (scan_at l) t then scan E
     else if due (restore_at l) t then restore E
     else if due (settle_at l) t then settle E
     else if pending l \<noteq> [] \<or> conn l = None then ret ()
     else read_device E (read_timeout l t)))"

definition turn_body :: "'w env \<Rightarrow> (nat \<times> request_op) list \<Rightarrow> ('w, reply list) loop_op" where
  "turn_body E rs = (if rs \<noteq> [] then run_requests E rs else also_do (idle_turn E) (ret []))"

section \<open>The shared state and the system\<close>

record shared =
  out :: "event list"
  requests :: "(nat \<times> request_op) list"
  stopping :: bool
  finished :: bool
  sh_error :: "error option"

definition initial_shared :: shared where
  "initial_shared = \<lparr>out = [], requests = [], stopping = False, finished = False, sh_error = None\<rparr>"

text \<open>The loop that hands pending events to the application while there is room.\<close>

fun deliver :: "event list \<Rightarrow> event list \<Rightarrow> event list \<times> event list" where
  "deliver [] queue = ([], queue)"
| "deliver (e # pend) queue =
     (if length queue < OUT_CAPACITY then deliver pend (queue @ [e]) else (e # pend, queue))"

datatype thread = Running | Ended | Crashed | Stuck

text \<open>
  The system: the shared state, the state of the thread, the world, and what the application
  has seen, oldest first: the events it took, the numbers of the calls it queued, the answers
  to them, and the answers to calls that were refused without being queued.
\<close>

record 'w system =
  sys_shared :: shared
  sys_loop :: watch_loop
  sys_world :: 'w
  sys_thread :: thread
  sys_taken :: "event list"
  sys_posted :: "nat list"
  sys_replies :: "reply list"
  sys_refused :: "reply list"

text \<open>The end of \<open>run\<close>: with an error, what happened before it is still delivered.\<close>

definition finish :: "'w env \<Rightarrow> error option \<Rightarrow> shared \<Rightarrow> watch_loop \<Rightarrow> 'w \<Rightarrow> shared \<times> watch_loop \<times> 'w" where
  "finish E err sh l w =
     (let w = (case conn l of None \<Rightarrow> w | Some c \<Rightarrow> e_close E (dev_handle (c_device c)) w);
          l = (if conn l = None then l else l\<lparr>conn := None, restore_at := None, settle_at := None\<rparr>);
          sh = (case err of
              Some e \<Rightarrow> sh\<lparr>out := out sh @ pending l, sh_error := Some e\<rparr>
            | None \<Rightarrow> sh\<lparr>out := []\<rparr>)
      in (sh\<lparr>finished := True, requests := []\<rparr>, l\<lparr>pending := []\<rparr>, w))"

text \<open>Requests that are still queued are dropped, which answers their callers \<open>WatcherClosed\<close>.\<close>

definition dropped :: "shared \<Rightarrow> reply list" where
  "dropped sh = map (\<lambda>(n, _). (n, Inl WatcherClosed)) (requests sh)"

definition end_thread :: "'w env \<Rightarrow> error option \<Rightarrow> shared \<Rightarrow> watch_loop \<Rightarrow> 'w \<Rightarrow> 'w system \<Rightarrow> 'w system" where
  "end_thread E err sh l w s = (case finish E err sh l w of (sh', l, w) \<Rightarrow>
     s\<lparr>sys_shared := sh', sys_loop := l, sys_world := w, sys_thread := Ended,
       sys_replies := sys_replies s @ dropped sh\<rparr>)"

definition turn :: "'w env \<Rightarrow> 'w system \<Rightarrow> 'w system" where
  "turn E s =
     (case deliver (pending (sys_loop s)) (out (sys_shared s)) of (pend, queue) \<Rightarrow>
      let sh = (sys_shared s)\<lparr>out := queue\<rparr>; l = (sys_loop s)\<lparr>pending := pend\<rparr>
      in if stopping sh then end_thread E None sh l (sys_world s) s
         else
           let idle = sh\<lparr>requests := []\<rparr>
           in case turn_body E (requests sh) l (sys_world s) of
             Ret answers l w \<Rightarrow> s\<lparr>sys_shared := idle, sys_loop := l, sys_world := w,
                 sys_replies := sys_replies s @ answers\<rparr>
           | Fatal e l w \<Rightarrow> end_thread E (Some e) idle l w s
           | Panic \<Rightarrow> s\<lparr>sys_shared := idle, sys_loop := l, sys_thread := Crashed\<rparr>
           | Blocks \<Rightarrow> s\<lparr>sys_shared := idle, sys_loop := l, sys_thread := Stuck\<rparr>)"

section \<open>The application\<close>

text \<open>
  \<open>take\<close>, under the lock: an event, or \<open>WatcherClosed\<close>, or \<open>None\<close> when the caller waits on
  (or its time is up).
\<close>

definition take_event :: "shared \<Rightarrow> event result option \<times> shared" where
  "take_event sh = (case out sh of
     e # es \<Rightarrow> (Some (Inr e), sh\<lparr>out := es\<rparr>)
   | [] \<Rightarrow> (if finished sh then Some (Inl WatcherClosed) else None, sh))"

text \<open>\<open>call\<close>, up to queueing the request: \<open>Some\<close> is an answer without it.\<close>

definition post_request :: "nat \<Rightarrow> request_op \<Rightarrow> shared \<Rightarrow> unit result option \<times> shared" where
  "post_request n r sh =
     (if finished sh \<or> stopping sh then (Some (Inl WatcherClosed), sh)
      else (None, sh\<lparr>requests := requests sh @ [(n, r)]\<rparr>))"

definition set_target_pins :: "nat \<Rightarrow> pin_config \<Rightarrow> shared \<Rightarrow> unit result option \<times> shared" where
  "set_target_pins n tgt sh = (case check_target tgt of
     Inl e \<Rightarrow> (Some (Inl e), sh)
   | Inr _ \<Rightarrow> post_request n (SetTarget tgt) sh)"

definition request_close :: "shared \<Rightarrow> shared" where
  "request_close sh = sh\<lparr>stopping := True\<rparr>"

definition start_system :: "watch_options \<Rightarrow> instant \<Rightarrow> 'w \<Rightarrow> 'w system" where
  "start_system opt t w = \<lparr>sys_shared = initial_shared, sys_loop = initial_loop opt t, sys_world = w,
     sys_thread = Running, sys_taken = [], sys_posted = [], sys_replies = [], sys_refused = []\<rparr>"

text \<open>
  The steps of the system. \<open>outside w w'\<close> is what the rest of the world may do at any time:
  boards are plugged, pins change, time passes.
\<close>

inductive sys_step :: "'w env \<Rightarrow> ('w \<Rightarrow> 'w \<Rightarrow> bool) \<Rightarrow> 'w system \<Rightarrow> 'w system \<Rightarrow> bool"
  for E :: "'w env" and outside :: "'w \<Rightarrow> 'w \<Rightarrow> bool" where
  thread_turn: "sys_thread s = Running \<Longrightarrow> sys_step E outside s (turn E s)"
| app_take: "take_event (sys_shared s) = (Some (Inr e), sh) \<Longrightarrow>
    sys_step E outside s (s\<lparr>sys_shared := sh, sys_taken := sys_taken s @ [e]\<rparr>)"
| app_outputs: "post_request n (SetOutputs lvls) (sys_shared s) = (None, sh) \<Longrightarrow>
    sys_step E outside s (s\<lparr>sys_shared := sh, sys_posted := sys_posted s @ [n]\<rparr>)"
| app_target: "wf_config tgt \<Longrightarrow> set_target_pins n tgt (sys_shared s) = (None, sh) \<Longrightarrow>
    sys_step E outside s (s\<lparr>sys_shared := sh, sys_posted := sys_posted s @ [n]\<rparr>)"
| app_refused_outputs: "post_request n (SetOutputs lvls) (sys_shared s) = (Some a, sh) \<Longrightarrow>
    sys_step E outside s (s\<lparr>sys_shared := sh, sys_refused := sys_refused s @ [(n, a)]\<rparr>)"
| app_refused_target: "wf_config tgt \<Longrightarrow> set_target_pins n tgt (sys_shared s) = (Some a, sh) \<Longrightarrow>
    sys_step E outside s (s\<lparr>sys_shared := sh, sys_refused := sys_refused s @ [(n, a)]\<rparr>)"
| app_close: "sys_step E outside s (s\<lparr>sys_shared := request_close (sys_shared s)\<rparr>)"
| world_moves: "outside (sys_world s) w \<Longrightarrow> sys_step E outside s (s\<lparr>sys_world := w\<rparr>)"

inductive reachable :: "'w env \<Rightarrow> ('w \<Rightarrow> 'w \<Rightarrow> bool) \<Rightarrow> watch_options \<Rightarrow> instant \<Rightarrow> 'w system \<Rightarrow> bool"
  for E :: "'w env" and outside :: "'w \<Rightarrow> 'w \<Rightarrow> bool" and opt :: watch_options and t0 :: instant where
  start: "reachable E outside opt t0 (start_system opt t0 w)"
| step: "reachable E outside opt t0 s \<Longrightarrow> sys_step E outside s s' \<Longrightarrow> reachable E outside opt t0 s'"

inductive_cases sys_stepE: "sys_step E outside s s'"

end
