(* ===== verification/Watch_Replay.thy ===== *)
theory Watch_Replay
  imports Watch_State
begin

text \<open>
  What an application can conclude from the events alone. \<open>replay\<close> is the ON/OFF an
  application knows that only looks at \<open>InitialOnOff\<close> and \<open>OnOffChange\<close>; \<open>flips\<close> says that
  every change it is told is a change of what it knew. \<open>agrees\<close> ties this to the ON/OFF the
  watcher knows; \<open>learning\<close> is the same while a report is being absorbed and some pins are
  still to be announced.
\<close>

fun replay_event :: "event \<Rightarrow> (u8 \<rightharpoonup> bool) \<Rightarrow> (u8 \<rightharpoonup> bool)" where
  "replay_event (InitialOnOff on) m = m ++ map_of on"
| "replay_event (OnOffChange c) m = m(oc_gpio c \<mapsto> oc_on c)"
| "replay_event _ m = m"

fun flip_ok :: "(u8 \<rightharpoonup> bool) \<Rightarrow> event \<Rightarrow> bool" where
  "flip_ok m (OnOffChange c) = (m (oc_gpio c) = Some (\<not> oc_on c))"
| "flip_ok m _ = True"

definition replay :: "event list \<Rightarrow> (u8 \<rightharpoonup> bool)" where
  "replay es = fold replay_event es Map.empty"

primrec flips_from :: "(u8 \<rightharpoonup> bool) \<Rightarrow> event list \<Rightarrow> bool" where
  "flips_from m [] = True"
| "flips_from m (e # es) = (flip_ok m e \<and> flips_from (replay_event e m) es)"

definition flips :: "event list \<Rightarrow> bool" where
  "flips es \<longleftrightarrow> flips_from Map.empty es"

lemma replay_Nil [simp]: "replay [] = Map.empty"
  by (simp add: replay_def)

lemma replay_snoc [simp]: "replay (es @ [e]) = replay_event e (replay es)"
  by (simp add: replay_def)

lemma flips_Nil [simp]: "flips []"
  by (simp add: flips_def)

lemma flips_from_append:
  "flips_from m (es @ fs) \<longleftrightarrow> flips_from m es \<and> flips_from (fold replay_event es m) fs"
  by (induction es arbitrary: m) auto

lemma flips_snoc [simp]: "flips (es @ [e]) \<longleftrightarrow> flips es \<and> flip_ok (replay es) e"
  by (simp add: flips_def flips_from_append replay_def)

lemma flips_prefix: "flips (es @ fs) \<Longrightarrow> flips es"
  by (simp add: flips_def flips_from_append)

section \<open>Agreement with what the watcher knows\<close>

definition agrees :: "event list \<Rightarrow> (u8, bool) btree \<Rightarrow> bool" where
  "agrees es k \<longleftrightarrow> flips es \<and> (\<forall>g b. map_of k g = Some b \<longrightarrow> replay es g = Some b)"

definition learning :: "event list \<Rightarrow> (u8, bool) btree \<Rightarrow> (u8, bool) btree \<Rightarrow> bool" where
  "learning es learned k \<longleftrightarrow> flips es \<and>
     (\<forall>g b. map_of k g = Some b \<longrightarrow> map_of learned g = Some b \<or> replay es g = Some b) \<and>
     (\<forall>g b. map_of learned g = Some b \<longrightarrow> map_of k g = Some b)"

definition neutral :: "event \<Rightarrow> bool" where
  "neutral e \<longleftrightarrow> (case e of InitialOnOff _ \<Rightarrow> False | OnOffChange _ \<Rightarrow> False | _ \<Rightarrow> True)"

lemma neutral_simps [simp]:
  "neutral (Connected a b c d e)" "neutral (Disconnected x)" "neutral (ConnectFailed x)"
  "neutral (StatusReceived r m on)" "neutral (OutputsReset gs ca)" "neutral (PinConfigChanged cf)"
  "neutral (PinConfigRestored cf n)"
  by (simp_all add: neutral_def)

lemma agrees_Nil [simp]: "agrees [] []"
  by (simp add: agrees_def)

lemma agrees_neutral [simp]: "neutral e \<Longrightarrow> agrees (es @ [e]) k \<longleftrightarrow> agrees es k"
  by (cases e) (auto simp: agrees_def neutral_def)

lemma agrees_retain: "agrees es k \<Longrightarrow> agrees es (bt_retain keep k)"
  by (auto simp: agrees_def split: if_splits)

lemma agrees_change:
  assumes "agrees es k" "map_of k (oc_gpio c) = Some (\<not> oc_on c)"
  shows "agrees (es @ [OnOffChange c]) (bt_insert (oc_gpio c) (oc_on c) k)"
  using assms by (auto simp: agrees_def split: if_splits)

text \<open>The two changes reported for an edge event whose opposite was lost.\<close>

lemma agrees_two_changes:
  assumes "agrees es k" "map_of k (oc_gpio c) = Some (oc_on c)"
    and "oc_gpio d = oc_gpio c" "oc_on d = (\<not> oc_on c)"
  shows "agrees (es @ [OnOffChange d, OnOffChange c]) (bt_insert (oc_gpio c) (oc_on c) k)"
proof -
  have "agrees (es @ [OnOffChange d]) (bt_insert (oc_gpio d) (oc_on d) k)"
    using assms by (intro agrees_change) auto
  then have "agrees ((es @ [OnOffChange d]) @ [OnOffChange c])
      (bt_insert (oc_gpio c) (oc_on c) (bt_insert (oc_gpio d) (oc_on d) k))"
    using assms by (intro agrees_change) auto
  then show ?thesis using assms(3) by (auto simp: agrees_def split: if_splits)
qed

lemma learning_start: "agrees es k \<Longrightarrow> learning es [] k"
  by (auto simp: learning_def agrees_def)

lemma learning_new:
  assumes "learning es learned k" "map_of k g = None"
  shows "learning es (bt_insert g on learned) (bt_insert g on k)"
  using assms by (auto simp: learning_def split: if_splits)

lemma learning_same:
  assumes "learning es learned k" "map_of k g = Some on"
  shows "learning es learned (bt_insert g on k)"
  using assms by (auto simp: learning_def split: if_splits)

lemma learning_change:
  assumes "learning es learned k" "map_of k (oc_gpio c) = Some (\<not> oc_on c)"
    and "map_of learned (oc_gpio c) = None"
  shows "learning (es @ [OnOffChange c]) learned (bt_insert (oc_gpio c) (oc_on c) k)"
  using assms by (fastforce simp: learning_def split: if_splits)

lemma learning_end:
  assumes "learning es learned k" "\<And>g b. map_of learned g = Some b \<Longrightarrow> keep g"
  shows "if learned = [] then agrees es (bt_retain keep k)
    else agrees (es @ [InitialOnOff learned]) (bt_retain keep k)"
  using assms
  by (fastforce simp: learning_def agrees_def map_add_def split: option.splits if_splits)

end
