(* ===== verification/Watch_Invariants.thy ===== *)
theory Watch_Invariants
  imports Watch_App Watch_Replay Device_Theorems
begin

text \<open>
  The invariant of the watcher thread, proved for every operation of \<open>Watch_Loop\<close> and
  \<open>Watch_App\<close>: no operation panics, the configuration and the known pins stay inside the 30
  GPIOs, the clock samples stay in range, events are only appended, and what the events tell
  agrees with what the watcher knows. The locale \<open>host\<close> is what this needs of the
  environment: clocks that are far from their limits and a read that stays in its buffer.
\<close>

section \<open>The environment\<close>

definition horizon :: int where
  "horizon = 2 ^ 61 * 1000000000"

locale host =
  fixes E :: "'w env"
  assumes now_range: "e_now E w = (t, w') \<Longrightarrow> 0 \<le> at_ns t \<and> at_ns t \<le> horizon"
    and wall_range: "e_wall E w = (u, w') \<Longrightarrow> 0 \<le> u \<and> u \<le> horizon"
    and read_bound: "e_read E h buf d w = Some (Inr n, data, w') \<Longrightarrow> n \<le> length buf"

section \<open>The invariant\<close>

definition stops :: "error \<Rightarrow> bool" where
  "stops e \<longleftrightarrow> e = UnsupportedPlatform \<or> (\<exists>ss. e = SeveralDevices ss) \<or> is_rejected e"

definition known_ok :: "(u8, bool) btree \<Rightarrow> bool" where
  "known_ok k \<longleftrightarrow> bt_ordered k \<and> list_all (\<lambda>g. unat g < 30) (bt_keys k)"

definition sample_ok :: "sample \<Rightarrow> bool" where
  "sample_ok s \<longleftrightarrow> 0 \<le> at_ns (fst s) \<and> at_ns (fst s) \<le> horizon"

definition clock_ok :: "device_clock \<Rightarrow> bool" where
  "clock_ok c \<longleftrightarrow> pred_option sample_ok (clk_cur c) \<and> pred_option sample_ok (clk_prev c)"

definition conn_ok :: "connection option \<Rightarrow> bool" where
  "conn_ok c \<longleftrightarrow> pred_option (\<lambda>c. clock_ok (c_clock c)) c"

text \<open>\<open>loop_inv h p\<close>: \<open>h\<close> is what was emitted before the pending events, and \<open>p\<close> stays their start.\<close>

definition base_inv :: "event list \<Rightarrow> event list \<Rightarrow> watch_loop \<Rightarrow> bool" where
  "base_inv h p l \<longleftrightarrow> wf_config (config l) \<and> pred_option wf_config (target l) \<and>
     int (interval l) \<le> horizon \<and> (\<exists>es. pending l = p @ es)"

definition loop_inv :: "event list \<Rightarrow> event list \<Rightarrow> watch_loop \<Rightarrow> bool" where
  "loop_inv h p l \<longleftrightarrow> base_inv h p l \<and> known_ok (known l) \<and> conn_ok (conn l) \<and>
     agrees (h @ pending l) (known l)"

lemma known_ok_Nil [simp]: "known_ok []"
  by (simp add: known_ok_def bt_keys_def)

lemma known_ok_keys: "known_ok k \<Longrightarrow> map_of k g = Some b \<Longrightarrow> unat g < 30"
  by (auto simp: known_ok_def bt_keys_def list_all_iff dest!: map_of_SomeD)

lemma known_ok_insert: "known_ok k \<Longrightarrow> unat g < 30 \<Longrightarrow> known_ok (bt_insert g b k)"
proof -
  assume k: "known_ok k" and g: "unat g < 30"
  have "set (bt_keys (bt_insert g b k)) = insert g (set (bt_keys k))"
    by (simp add: bt_keys_def)
  with k g show ?thesis by (simp add: known_ok_def list_all_iff)
qed

lemma known_ok_retain: "known_ok k \<Longrightarrow> known_ok (bt_retain keep k)"
  by (auto simp: known_ok_def list_all_iff bt_keys_def bt_retain_def bt_ordered_retain [unfolded bt_retain_def])

lemma clock_ok_empty [simp]: "clock_ok empty_clock"
  by (simp add: clock_ok_def empty_clock_def)

lemma clock_ok_add: "clock_ok c \<Longrightarrow> sample_ok (t, us) \<Longrightarrow> clock_ok (clock_add c t us)"
  by (auto simp: clock_ok_def clock_add_def Let_def split: option.splits)

lemma clock_add_cur: "clk_cur (clock_add c t us) \<noteq> None"
  by (auto simp: clock_add_def Let_def split: option.splits)

lemma conn_ok_simps [simp]: "conn_ok None" "conn_ok (Some c) \<longleftrightarrow> clock_ok (c_clock c)"
  by (simp_all add: conn_ok_def)

text \<open>Fields the invariant does not look at.\<close>

lemma inv0_irrelevant [simp]:
  "base_inv h p (l\<lparr>failure := x1\<rparr>) = base_inv h p l" "base_inv h p (l\<lparr>failures := x2\<rparr>) = base_inv h p l"
  "base_inv h p (l\<lparr>wl_serial := x3\<rparr>) = base_inv h p l" "base_inv h p (l\<lparr>wl_info := x4\<rparr>) = base_inv h p l"
  "base_inv h p (l\<lparr>ever_connected := x5\<rparr>) = base_inv h p l" "base_inv h p (l\<lparr>restore_count := x6\<rparr>) = base_inv h p l"
  "base_inv h p (l\<lparr>last_restore := x7\<rparr>) = base_inv h p l" "base_inv h p (l\<lparr>scan_at := x8\<rparr>) = base_inv h p l"
  "base_inv h p (l\<lparr>restore_at := x9\<rparr>) = base_inv h p l" "base_inv h p (l\<lparr>settle_at := x10\<rparr>) = base_inv h p l"
  "base_inv h p (l\<lparr>conn := x11\<rparr>) = base_inv h p l" "base_inv h p (l\<lparr>known := x12\<rparr>) = base_inv h p l"
  by (simp_all add: base_inv_def)

lemma inv_irrelevant [simp]:
  "loop_inv h p (l\<lparr>failure := x1\<rparr>) = loop_inv h p l" "loop_inv h p (l\<lparr>failures := x2\<rparr>) = loop_inv h p l"
  "loop_inv h p (l\<lparr>wl_serial := x3\<rparr>) = loop_inv h p l" "loop_inv h p (l\<lparr>wl_info := x4\<rparr>) = loop_inv h p l"
  "loop_inv h p (l\<lparr>ever_connected := x5\<rparr>) = loop_inv h p l" "loop_inv h p (l\<lparr>restore_count := x6\<rparr>) = loop_inv h p l"
  "loop_inv h p (l\<lparr>last_restore := x7\<rparr>) = loop_inv h p l" "loop_inv h p (l\<lparr>scan_at := x8\<rparr>) = loop_inv h p l"
  "loop_inv h p (l\<lparr>restore_at := x9\<rparr>) = loop_inv h p l" "loop_inv h p (l\<lparr>settle_at := x10\<rparr>) = loop_inv h p l"
  by (simp_all add: loop_inv_def)

lemma inv_irrelevant_pending [simp]:
  "loop_inv h p (l\<lparr>failure := x1, pending := q\<rparr>) = loop_inv h p (l\<lparr>pending := q\<rparr>)"
  "loop_inv h p (l\<lparr>failures := x2, pending := q\<rparr>) = loop_inv h p (l\<lparr>pending := q\<rparr>)"
  "loop_inv h p (l\<lparr>wl_serial := x3, pending := q\<rparr>) = loop_inv h p (l\<lparr>pending := q\<rparr>)"
  "loop_inv h p (l\<lparr>wl_info := x4, pending := q\<rparr>) = loop_inv h p (l\<lparr>pending := q\<rparr>)"
  "loop_inv h p (l\<lparr>ever_connected := x5, pending := q\<rparr>) = loop_inv h p (l\<lparr>pending := q\<rparr>)"
  "loop_inv h p (l\<lparr>restore_count := x6, pending := q\<rparr>) = loop_inv h p (l\<lparr>pending := q\<rparr>)"
  "loop_inv h p (l\<lparr>last_restore := x7, pending := q\<rparr>) = loop_inv h p (l\<lparr>pending := q\<rparr>)"
  "loop_inv h p (l\<lparr>scan_at := x8, pending := q\<rparr>) = loop_inv h p (l\<lparr>pending := q\<rparr>)"
  "loop_inv h p (l\<lparr>restore_at := x9, pending := q\<rparr>) = loop_inv h p (l\<lparr>pending := q\<rparr>)"
  "loop_inv h p (l\<lparr>settle_at := x10, pending := q\<rparr>) = loop_inv h p (l\<lparr>pending := q\<rparr>)"
  by (simp_all add: loop_inv_def base_inv_def)

lemma inv_pending: "base_inv h p l \<Longrightarrow> base_inv h p (l\<lparr>pending := pending l @ es\<rparr>)"
  by (auto simp: base_inv_def)

lemma inv_emit: "loop_inv h p l \<Longrightarrow> neutral e \<Longrightarrow> loop_inv h p (l\<lparr>pending := pending l @ [e]\<rparr>)"
  using agrees_neutral [of e "h @ pending l" "known l"] inv_pending [of h p l "[e]"]
  by (simp add: loop_inv_def)

lemma inv_conn: "loop_inv h p l \<Longrightarrow> conn_ok c \<Longrightarrow> loop_inv h p (l\<lparr>conn := c\<rparr>)"
  by (simp add: loop_inv_def)

lemma inv_clock: "loop_inv h p l \<Longrightarrow> conn l = Some c \<Longrightarrow> clock_ok (c_clock c)"
  by (simp add: loop_inv_def)

lemma inv_wf: "loop_inv h p l \<Longrightarrow> wf_config (config l)"
  by (simp add: loop_inv_def base_inv_def)

lemma inv_target: "loop_inv h p l \<Longrightarrow> target l = Some t \<Longrightarrow> wf_config t"
  by (simp add: loop_inv_def base_inv_def)

lemma inv_set_target: "loop_inv h p l \<Longrightarrow> pred_option wf_config t \<Longrightarrow> loop_inv h p (l\<lparr>target := t\<rparr>)"
  by (simp add: loop_inv_def base_inv_def)

section \<open>Operations without reports\<close>

text \<open>Every operation keeps the invariant when it returns and when it stops the watcher.\<close>

definition keeps :: "('a \<Rightarrow> watch_loop \<Rightarrow> bool) \<Rightarrow> event list \<Rightarrow> event list \<Rightarrow> ('w, 'a) outcome \<Rightarrow> bool" where
  "keeps Q h p r \<longleftrightarrow> wp r (\<lambda>x l _. loop_inv h p l \<and> Q x l) (\<lambda>e l _. loop_inv h p l \<and> stops e)"

lemma keepsD:
  assumes "keeps Q h p r" "\<And>x l w. loop_inv h p l \<Longrightarrow> Q x l \<Longrightarrow> Q' x l w"
    and "\<And>e l w. loop_inv h p l \<Longrightarrow> stops e \<Longrightarrow> F e l w"
  shows "wp r Q' F"
  using assms unfolding keeps_def by (auto intro: wp_mono)

lemma keeps_mono: "keeps Q h p r \<Longrightarrow> (\<And>x l. Q x l \<Longrightarrow> Q' x l) \<Longrightarrow> keeps Q' h p r"
  unfolding keeps_def by (auto intro: wp_mono)

lemma keeps_bind:
  assumes "keeps R h p (m l w)" "\<And>x l w. loop_inv h p l \<Longrightarrow> R x l \<Longrightarrow> keeps Q h p (f x l w)"
  shows "keeps Q h p (bind m f l w)"
  using assms unfolding keeps_def wp_bind by (auto intro: wp_mono)

lemma keeps_also:
  assumes "keeps R h p (m l w)" "\<And>l w. loop_inv h p l \<Longrightarrow> R () l \<Longrightarrow> keeps Q h p (n l w)"
  shows "keeps Q h p (also_do m n l w)"
  using assms unfolding also_do_def by (auto intro: keeps_bind)

lemma keeps_ret: "loop_inv h p l \<Longrightarrow> Q x l \<Longrightarrow> keeps Q h p (ret x l w)"
  by (simp add: keeps_def wp_rules)

lemma keeps_look: "loop_inv h p l \<Longrightarrow> Q (g l) l \<Longrightarrow> keeps Q h p (look g l w)"
  by (simp add: keeps_def wp_rules)

lemma keeps_look_bind: "keeps Q h p (f (g l) l w) \<Longrightarrow> keeps Q h p (bind (look g) f l w)"
  by (simp add: keeps_def wp_rules)

lemma keeps_change: "loop_inv h p (f l) \<Longrightarrow> Q () (f l) \<Longrightarrow> keeps Q h p (change f l w)"
  by (simp add: keeps_def wp_rules)

lemma keeps_change_also: "keeps Q h p (n (f l) w) \<Longrightarrow> keeps Q h p (also_do (change f) n l w)"
  by (simp add: keeps_def wp_rules)

lemma keeps_emit:
  "loop_inv h p l \<Longrightarrow> neutral e \<Longrightarrow> Q () (l\<lparr>pending := pending l @ [e]\<rparr>) \<Longrightarrow> keeps Q h p (emit e l w)"
  by (simp add: keeps_def wp_rules inv_emit)

lemma keeps_fatal: "loop_inv h p l \<Longrightarrow> stops e \<Longrightarrow> keeps Q h p (fatal e l w)"
  by (simp add: keeps_def wp_rules)

lemma keeps_on_device:
  assumes "loop_inv h p l" "conn l = Some c"
    and "\<And>r d w'. m (c_device c) w = (r, d, w') \<Longrightarrow> Q r (l\<lparr>conn := Some (c\<lparr>c_device := d\<rparr>)\<rparr>)"
  shows "keeps Q h p (on_device m l w)"
  using assms inv_clock [OF assms(1,2)]
  by (auto simp: keeps_def wp_rules intro!: inv_conn split: prod.splits)

lemma keeps_change_conn:
  assumes "loop_inv h p l" "conn l = Some c" "clock_ok (c_clock (f c))" "Q () (l\<lparr>conn := Some (f c)\<rparr>)"
  shows "keeps Q h p (change_conn f l w)"
  using assms by (auto simp: keeps_def wp_rules intro!: inv_conn)

lemmas keeps_intros = keeps_ret keeps_look_bind keeps_change_also keeps_fatal keeps_emit

end
