(* ===== verification/Fake_Theorems.thy ===== *)
theory Fake_Theorems
  imports Fake_World Watch_Invariants
begin

text \<open>
  What the simulated boards promise. The calls of a handle never panic; a test, a program and
  the passing of time keep the invariant; the two contracts the library asks of its
  environment, \<open>config_port\<close> and \<open>host\<close>, hold of \<open>fake_env\<close>.
\<close>

section \<open>Calls of a handle\<close>

lemma gpio_30: "unat (g :: u8) < 30 \<Longrightarrow> g \<in> set gpio_range"
  by (simp add: set_gpio_range)

lemma handle_check_Inr: "handle_check h w = Inr u \<longleftrightarrow> handle_live (fw_handles w ! h)"
  by (simp add: handle_check_def handle_live_def Let_def)

lemma safe_call:
  assumes "safe_op f" "world_ok w" "h < length (fw_handles w)"
  shows "\<exists>w'. on_board (fh_board (fw_handles w ! h)) f w = Some w' \<and> world_ok w' \<and>
    length (fw_handles w') = length (fw_handles w)"
  using safe_op_world [OF assms(1,2) world_handleD(2) [OF assms(2,3)]] by fastforce

lemma handle_write_ok:
  assumes "world_ok w" "h < length (fw_handles w)"
  shows "\<exists>r w'. handle_write h report w = Some (r, w') \<and> world_ok w' \<and>
    length (fw_handles w') = length (fw_handles w)"
proof (cases "decode_output (tl report)")
  case (Inl e)
  then show ?thesis using assms by (simp add: handle_write_def split: sum.split)
next
  case (Inr mv)
  obtain m v where mv: "mv = (m, v)" by (cases mv)
  obtain w' where "on_board (fh_board (fw_handles w ! h)) (drive_outputs m v) w = Some w'" "world_ok w'"
    "length (fw_handles w') = length (fw_handles w)"
    using safe_call [OF safe_drive assms] by blast
  then show ?thesis using assms Inr by (auto simp: handle_write_def mv split: sum.split)
qed

lemma handle_send_feature_ok:
  assumes "world_ok w" "h < length (fw_handles w)"
  shows "\<exists>r w'. handle_send_feature h report w = Some (r, w') \<and> world_ok w' \<and>
    length (fw_handles w') = length (fw_handles w)"
proof -
  obtain w' where "on_board (fh_board (fw_handles w ! h)) (write_config (tl report)) w = Some w'" "world_ok w'"
    "length (fw_handles w') = length (fw_handles w)"
    using safe_call [OF safe_write_config assms] by blast
  then show ?thesis using assms by (auto simp: handle_send_feature_def split: sum.split)
qed

lemma handle_get_feature_ok:
  "buf \<noteq> [] \<Longrightarrow> \<exists>r data. handle_get_feature h buf w = Some (r, data, w)"
  by (cases buf) (auto simp: handle_get_feature_def reply_bytes_def Let_def split: sum.split)

lemma handle_get_input_ok:
  assumes "buf \<noteq> []"
  shows "\<exists>r data. handle_get_input h buf w = Some (r, data, w)"
proof -
  obtain p where "encode_status (fake_status (state_of (fh_board (fw_handles w ! h)) w) HOST_REQUEST []
      (last_seq (state_of (fh_board (fw_handles w ! h)) w)) 0) = Inr p"
    by (simp add: encode_status_def fake_status_def)
  then show ?thesis
    using assms by (auto simp: handle_get_input_def reply_bytes_def Let_def split: sum.split)
qed

lemma fake_now_range: "0 \<le> at_ns (fake_now w) \<and> at_ns (fake_now w) \<le> horizon"
  by (simp add: fake_now_def CLOCK_END_def horizon_def)

lemma handle_read_ok:
  assumes "world_ok w" "h < length (fw_handles w)" "handle_read h buf timeout w = Returns (r, data, w')"
  shows "world_ok w' \<and> length (fw_handles w') = length (fw_handles w)"
proof -
  have "queue_ok ((fw_handles w ! h)\<lparr>reports := rest\<rparr>)" if "reports (fw_handles w ! h) = d # rest" for d rest
    using world_handleD(1) [OF assms(1,2)] that by (simp add: queue_ok_def)
  then have "world_ok (w\<lparr>fw_handles := (fw_handles w)[h := (fw_handles w ! h)\<lparr>reports := rest\<rparr>]\<rparr>)"
    if "reports (fw_handles w ! h) = d # rest" for d rest
    using world_ok_queue [OF assms(1,2)] that by (simp add: handle_live_def)
  then show ?thesis
    using assms by (auto simp: handle_read_def Let_def split: option.splits if_splits list.splits)
qed

lemma handle_read_no_panic:
  assumes "\<And>t. timeout = Some t \<Longrightarrow> int t \<le> horizon"
  shows "handle_read h buf timeout w \<noteq> Panics"
proof (cases timeout)
  case None
  then show ?thesis by (simp add: handle_read_def Let_def split: option.split)
next
  case (Some t)
  then have "instant_add (fake_now w) t \<noteq> None"
    using assms [OF Some] fake_now_range [of w]
    by (simp add: instant_add_def in_time_range_def time_limit_def horizon_def)
  then show ?thesis using Some by (auto simp: handle_read_def Let_def split: option.split)
qed

section \<open>What happens to the world\<close>

text \<open>
  What a test and the rest of the world may do at any time; skipping report numbers stands for
  reports that were lost on the way.
\<close>

inductive test_action :: "fake_world \<Rightarrow> fake_world \<Rightarrow> bool" where
  test_make: "test_action w (make_board serial w)"
| test_plug: "b < length (fw_boards w) \<Longrightarrow> test_action w (plug b w)"
| test_unplug: "b < length (fw_boards w) \<Longrightarrow> test_action w (unplug b w)"
| test_input: "b < length (fw_boards w) \<Longrightarrow> unat gpio < 30 \<Longrightarrow>
    on_board b (set_input gpio high) w = Some w' \<Longrightarrow> test_action w w'"
| test_lose: "b < length (fw_boards w) \<Longrightarrow> unat gpio < 30 \<Longrightarrow>
    on_board b (lose_input gpio high) w = Some w' \<Longrightarrow> test_action w w'"
| test_periodic: "b < length (fw_boards w) \<Longrightarrow> on_board b periodic w = Some w' \<Longrightarrow> test_action w w'"
| test_suspend: "b < length (fw_boards w) \<Longrightarrow> on_board b suspend w = Some w' \<Longrightarrow> test_action w w'"
| test_reenumerate: "b < length (fw_boards w) \<Longrightarrow>
    test_action w (case reenumerate (state_of b w) (fw_handles w) of (s, hs) \<Rightarrow> set_board b s hs w)"
| test_write: "b < length (fw_boards w) \<Longrightarrow> wf_config c \<Longrightarrow>
    write_pin_config c (state_of b w) (fw_handles w) = Some (r, s, hs) \<Longrightarrow> test_action w (set_board b s hs w)"
| test_open_error: "b < length (fw_boards w) \<Longrightarrow>
    test_action w (set_board b (set_open_error k (state_of b w)) (fw_handles w) w)"
| test_version: "b < length (fw_boards w) \<Longrightarrow>
    test_action w (set_board b (set_protocol_version v (state_of b w)) (fw_handles w) w)"
| test_time: "test_action w (w\<lparr>fw_time := fw_time w + d\<rparr>)"

inductive test_step :: "fake_world \<Rightarrow> fake_world \<Rightarrow> bool" where
  test_acts: "test_action w w' \<Longrightarrow> test_step w w'"
| test_skip: "b < length (fw_boards w) \<Longrightarrow>
    test_step w (set_board b (skip_reports n (state_of b w)) (fw_handles w) w)"

text \<open>What a program does through the bus and its handles.\<close>

inductive host_step :: "fake_world \<Rightarrow> fake_world \<Rightarrow> bool" where
  host_open: "bus_open entry w = (r, w') \<Longrightarrow> host_step w w'"
| host_drop: "h < length (fw_handles w) \<Longrightarrow> host_step w (handle_drop h w)"
| host_read: "h < length (fw_handles w) \<Longrightarrow> handle_read h buf t w = Returns (r, data, w') \<Longrightarrow> host_step w w'"
| host_write: "h < length (fw_handles w) \<Longrightarrow> handle_write h report w = Some (r, w') \<Longrightarrow> host_step w w'"
| host_send: "h < length (fw_handles w) \<Longrightarrow> handle_send_feature h report w = Some (r, w') \<Longrightarrow> host_step w w'"

inductive fake_reachable :: "fake_world \<Rightarrow> bool" where
  nothing: "fake_reachable empty_world"
| by_test: "fake_reachable w \<Longrightarrow> test_step w w' \<Longrightarrow> fake_reachable w'"
| by_host: "fake_reachable w \<Longrightarrow> host_step w w' \<Longrightarrow> fake_reachable w'"

lemma write_pin_config_ok:
  assumes "wf_config c" "write_pin_config c s hs = Some (r, s', hs')"
  shows "\<exists>payload. write_config payload s hs = Some (s', hs') \<and> r = b_result s'"
  using assms by (auto simp: write_pin_config_def split: sum.splits)

lemma safe_step:
  assumes "safe_op f" "world_ok w" "b < length (fw_boards w)" "on_board b f w = Some w'"
  shows "world_ok w'"
  using safe_op_world [OF assms(1-3)] assms(4) by auto

lemma test_action_ok: "test_action w w' \<Longrightarrow> world_ok w \<Longrightarrow> world_ok w'"
proof (induction rule: test_action.induct)
  case (test_write b w c r s hs)
  then obtain payload where "write_config payload (state_of b w) (fw_handles w) = Some (s, hs)"
    using write_pin_config_ok by blast
  then have "on_board b (write_config payload) w = Some (set_board b s hs w)" by (simp add: on_board_def)
  then show ?case using safe_step [OF safe_write_config test_write(4,1)] by blast
next
  case (test_open_error b w k)
  then show ?case
    using world_boardD(1) [OF test_open_error(2,1)]
    by (intro world_ok_state) (simp_all add: set_open_error_def)
next
  case (test_version b w v)
  then show ?case
    using ok_version [OF world_boardD(1) [OF test_version(2,1)]]
    by (intro world_ok_state) (simp_all add: set_protocol_version_def)
qed (auto intro: world_ok_make world_ok_plug world_ok_unplug world_ok_reenumerate safe_step safe_set_input
    safe_lose_input safe_periodic safe_suspend)

lemma test_step_ok: "test_step w w' \<Longrightarrow> world_ok w \<Longrightarrow> world_ok w'"
proof (induction rule: test_step.induct)
  case (test_skip b w n)
  then show ?case
    using ok_skip [OF world_boardD(1) [OF test_skip(2,1)]]
    by (intro world_ok_state) (simp_all add: skip_reports_def)
qed (rule test_action_ok)

lemma host_step_ok: "host_step w w' \<Longrightarrow> world_ok w \<Longrightarrow> world_ok w'"
proof (induction rule: host_step.induct)
  case (host_write h w report r w')
  then show ?case using handle_write_ok [of w h report] by auto
next
  case (host_send h w report r w')
  then show ?case using handle_send_feature_ok [of w h report] by auto
qed (use world_ok_open world_ok_drop handle_read_ok in blast)+

lemma fake_reachable_ok: "fake_reachable w \<Longrightarrow> world_ok w"
  by (induction rule: fake_reachable.induct) (auto intro: world_ok_empty test_step_ok host_step_ok)

section \<open>The contracts of the environment\<close>

interpretation fake_host: host fake_env
proof
  show "0 \<le> at_ns t \<and> at_ns t \<le> horizon" if "e_now fake_env w = (t, w')" for w t w'
    using that fake_now_range by (auto simp: fake_env_def)
  show "0 \<le> u \<and> u \<le> horizon" if "e_wall fake_env w = (u, w')" for w u w'
    using that fake_now_range by (auto simp: fake_env_def)
  show "n \<le> length buf" if "e_read fake_env h buf d w = Some (Inr n, data, w')" for h buf d w n data w'
    using that by (auto simp: fake_env_def handle_read_def Let_def
        split: call.splits option.splits if_splits list.splits)
qed

text \<open>The board behind a handle, and a handle on which a device of this library works.\<close>

definition board_of :: "handle \<Rightarrow> fake_world \<Rightarrow> board_state" where
  "board_of h w = state_of (fh_board (fw_handles w ! h)) w"

definition good_handle :: "handle \<Rightarrow> u32 \<Rightarrow> fake_world \<Rightarrow> bool" where
  "good_handle h avail w \<longleftrightarrow> world_ok w \<and> h < length (fw_handles w) \<and> handle_live (fw_handles w ! h) \<and>
     protocol_version (b_info (board_of h w)) = PROTOCOL_VERSION \<and> available (b_info (board_of h w)) = avail"

lemma validate_config_OK:
  assumes "wf_config c" "config_ok avail c"
  shows "validate_pin_config c avail = (RESULT_OK, RESULT_GPIO_NONE)"
proof -
  let ?e = "\<lambda>g. if g < 30 then gpio_error (mode_u8 (mode (c ! g))) (param (c ! g)) (bit avail g) else None"
  have "find (\<lambda>g. ?e g \<noteq> None) [0..<30] = None"
    using assms(2) by (auto simp: find_None_iff config_ok_nth gpio_error_setting)
  then show ?thesis by (simp add: validate_pin_config_first_error [OF assms(1)] first_error_def)
qed

lemma get_feature_reply:
  assumes "handle_live (fw_handles w ! h)"
  shows "e_get_feature fake_env h (request REPORT_ID_DEVICE_INFO) w =
      (Inr 64, REPORT_ID_DEVICE_INFO # encode_device_info (b_info (board_of h w)), w)"
    "e_get_feature fake_env h (request REPORT_ID_PIN_CONFIG) w =
      (Inr 64, REPORT_ID_PIN_CONFIG # encode_pin_config (config_report (board_of h w)), w)"
proof -
  have r: "request rid = rid # replicate 63 0" for rid
    by (simp add: request_def REPORT_LEN_eq numeral_eq_Suc)
  have c: "handle_check h w = Inr ()" using assms handle_check_Inr by blast
  show "e_get_feature fake_env h (request REPORT_ID_DEVICE_INFO) w =
      (Inr 64, REPORT_ID_DEVICE_INFO # encode_device_info (b_info (board_of h w)), w)"
    "e_get_feature fake_env h (request REPORT_ID_PIN_CONFIG) w =
      (Inr 64, REPORT_ID_PIN_CONFIG # encode_pin_config (config_report (board_of h w)), w)"
    by (simp_all add: fake_env_def handle_get_feature_def c r reply_bytes_def or_stuck_def board_of_def Let_def
        REPORT_ID_DEVICE_INFO_def REPORT_ID_PIN_CONFIG_def)
qed

lemma write_config_applies:
  assumes "board_ok s" "wf_config c" "config_ok (available (b_info s)) c"
  shows "\<exists>s' ds. write_config (encode_pin_config (set_report c rid)) s hs =
      Some (s', push_all ds (handles s) hs) \<and>
    config_report s' = set_report c rid \<and> b_info s' = b_info s \<and> handles s' = handles s"
proof -
  let ?p = "encode_pin_config (set_report c rid)"
  have v: "validate_pin_config_payload ?p (available (b_info s)) = (RESULT_OK, RESULT_GPIO_NONE, rid)"
    using validate_payload_config [of "set_report c rid"] validate_config_OK [OF assms(2,3)] assms(2)
    by (simp add: set_report_def)
  have d: "decode_pin_config ?p = Inr (set_report c rid)"
    by (rule decode_encode_pin_config) (simp add: set_report_def assms)
  let ?s = "s\<lparr>b_result := RESULT_OK, b_result_gpio := RESULT_GPIO_NONE, b_request_id := rid\<rparr>"
  show ?thesis
  proof (cases "c = b_config s")
    case True
    then show ?thesis
      using v d by (intro exI [of _ ?s] exI [of _ "[] :: bytes list"])
        (simp add: write_config_def push_all_def config_report_def set_report_def)
  next
    case False
    let ?t = "?s\<lparr>b_levels := levels_after (b_config s) c (inputs s) (b_levels s), b_config := c\<rparr>"
    obtain p where p: "send CONFIG_CHANGED [] ?t hs =
        Some (after_send ?t, fold (push_report (REPORT_ID_STATUS # p)) (handles ?t) hs)"
      using send_Some [of "[]" ?t] by auto
    show ?thesis
      using v d p False by (intro exI [of _ "after_send ?t"] exI [of _ "[REPORT_ID_STATUS # p]"])
        (simp add: write_config_def push_all_def config_report_def set_report_def)
  qed
qed

lemma push_same:
  "h < length hs \<Longrightarrow> fh_board (fold (push_report d) ks hs ! h) = fh_board (hs ! h)"
  "h < length hs \<Longrightarrow> handle_live (fold (push_report d) ks hs ! h) = handle_live (hs ! h)"
  by (induction ks arbitrary: hs) (simp_all add: nth_push_report handle_live_def)

lemma push_all_same:
  "h < length hs \<Longrightarrow> fh_board (push_all ds ks hs ! h) = fh_board (hs ! h)"
  "h < length hs \<Longrightarrow> handle_live (push_all ds ks hs ! h) = handle_live (hs ! h)"
  by (induction ds arbitrary: hs) (simp_all add: push_all_def push_same)

text \<open>An operation of the board behind a handle that keeps its device information.\<close>

lemma good_handle_op:
  assumes "good_handle h avail w" "safe_op f"
    and "f (board_of h w) (fw_handles w) = Some (s, push_all ds (handles (board_of h w)) (fw_handles w))"
    and "b_info s = b_info (board_of h w)"
  shows "\<exists>w'. on_board (fh_board (fw_handles w ! h)) f w = Some w' \<and> good_handle h avail w' \<and> board_of h w' = s"
proof -
  let ?b = "fh_board (fw_handles w ! h)"
  have ok: "world_ok w" "h < length (fw_handles w)" using assms(1) by (simp_all add: good_handle_def)
  note b = world_handleD(2) [OF ok]
  let ?w = "set_board ?b s (push_all ds (handles (board_of h w)) (fw_handles w)) w"
  have o: "on_board ?b f w = Some ?w" using assms(3) by (simp add: on_board_def board_of_def)
  moreover have "world_ok ?w" using safe_op_world [OF assms(2) ok(1) b] o by auto
  moreover have "board_of h ?w = s"
    using push_all_same(1) [OF ok(2)] b by (simp add: board_of_def state_of_set_board)
  ultimately show ?thesis
    using assms(1,4) push_all_same ok(2) by (auto simp: good_handle_def)
qed

interpretation fake_port: config_port fake_env h avail "good_handle h avail"
    "\<lambda>c w. b_config (board_of h w) = c" for h avail
proof
  fix w
  assume g: "good_handle h avail w"
  then have live: "handle_live (fw_handles w ! h)" "world_ok w" "h < length (fw_handles w)"
    by (simp_all add: good_handle_def)
  show "\<exists>i w'. e_get_feature fake_env h (request REPORT_ID_DEVICE_INFO) w =
        (Inr 64, REPORT_ID_DEVICE_INFO # encode_device_info i, w') \<and>
      protocol_version i = PROTOCOL_VERSION \<and> available i = avail \<and> good_handle h avail w'"
    using get_feature_reply(1) [OF live(1)] g by (auto simp: good_handle_def)
  fix c :: pin_config and rid :: u8
  assume c: "wf_config c" "config_ok avail c" "rid \<noteq> 0"
  have ok: "board_ok (board_of h w)"
    using world_boardD(1) [OF live(2) world_handleD(2) [OF live(2,3)]] by (simp add: board_of_def)
  obtain s ds where wc: "write_config (encode_pin_config (set_report c rid)) (board_of h w) (fw_handles w) =
      Some (s, push_all ds (handles (board_of h w)) (fw_handles w))"
    "config_report s = set_report c rid" "b_info s = b_info (board_of h w)"
    using write_config_applies [OF ok c(1), of rid "fw_handles w"] c(2) g by (auto simp: good_handle_def)
  obtain w1 where w1: "on_board (fh_board (fw_handles w ! h)) (write_config (encode_pin_config (set_report c rid))) w = Some w1"
    "good_handle h avail w1" "board_of h w1 = s"
    using good_handle_op [OF g safe_write_config wc(1,3)] by blast
  have "handle_check h w = Inr ()" using live(1) handle_check_Inr by blast
  then have "e_send_feature fake_env h (REPORT_ID_PIN_CONFIG # encode_pin_config (set_report c rid)) w = (Inr 64, w1)"
    using w1(1) by (simp add: fake_env_def handle_send_feature_def or_stuck_def)
  moreover have "b_config s = c" using wc(2) by (simp add: config_report_def set_report_def)
  moreover have "handle_live (fw_handles w1 ! h)" using w1(2) by (simp add: good_handle_def)
  ultimately show "\<exists>n w1 w2.
      e_send_feature fake_env h (REPORT_ID_PIN_CONFIG # encode_pin_config (set_report c rid)) w = (Inr n, w1) \<and>
      e_get_feature fake_env h (request REPORT_ID_PIN_CONFIG) w1 =
        (Inr 64, REPORT_ID_PIN_CONFIG # encode_pin_config (set_report c rid), w2) \<and>
      good_handle h avail w2 \<and> b_config (board_of h w2) = c"
    using get_feature_reply(2) [of w1 h] w1(2,3) wc(2) by metis
qed

section \<open>Properties\<close>

text \<open>C25: Whatever a test does to the boards and a program to its handles, in any order, every board
  keeps a configuration valid for it, its levels are those of its monitored and output pins
  only, a monitored pin of a powered board shows its input, its open handles are exactly those
  neither closed nor failed, and every queue has at most 64 reports, all of which decode.\<close>

theorem fake_world_invariant:
  assumes "fake_reachable w"
  shows "world_ok w"
  by (rule fake_reachable_ok [OF assms])

text \<open>A world with one board plugged in and one handle open on it.\<close>

definition pico_world :: fake_world where
  "pico_world = snd (bus_open \<lparr>de_path = ''/dev/hidraw0'', de_serial = ''ABCD'', de_manufacturer = [],
     de_product = []\<rparr> (plug 0 (make_board ''ABCD'' empty_world)))"

lemma pico_reachable: "fake_reachable pico_world"
proof -
  have "fake_reachable (make_board ''ABCD'' empty_world)"
    by (rule by_test, rule nothing, rule test_acts, rule test_make)
  moreover have "0 < length (fw_boards (make_board ''ABCD'' empty_world))"
    by (simp add: make_board_def empty_world_def)
  ultimately have "fake_reachable (plug 0 (make_board ''ABCD'' empty_world))"
    using by_test test_acts test_plug by blast
  then show ?thesis
    unfolding pico_world_def by (rule by_host) (rule host_open, rule prod.collapse [symmetric])
qed

theorem fake_world_invariant_witness: "world_ok pico_world"
  by (rule fake_world_invariant [OF pico_reachable])

text \<open>No call on a handle and no change to a board panics: the \<open>expect\<close> calls on encoding and on
  decoding what validation accepted always succeed, and reading stays inside the clock.\<close>

theorem fake_never_panics:
  assumes "fake_reachable w"
  shows "(h < length (fw_handles w) \<longrightarrow> handle_write h report w \<noteq> None \<and> handle_send_feature h report w \<noteq> None) \<and>
    (buf \<noteq> [] \<longrightarrow> handle_get_feature h buf w \<noteq> None \<and> handle_get_input h buf w \<noteq> None) \<and>
    ((\<forall>t. timeout = Some t \<longrightarrow> int t \<le> horizon) \<longrightarrow> handle_read h buf timeout w \<noteq> Panics) \<and>
    (b < length (fw_boards w) \<longrightarrow> on_board b periodic w \<noteq> None \<and> on_board b suspend w \<noteq> None \<and>
      (unat g < 30 \<longrightarrow> on_board b (set_input g high) w \<noteq> None \<and> on_board b (lose_input g high) w \<noteq> None))"
proof -
  have ok: "world_ok w" using fake_reachable_ok [OF assms] .
  have op: "on_board b f w \<noteq> None" if "safe_op f" "b < length (fw_boards w)" for f
    using safe_op_world [OF that(1) ok that(2)] by auto
  have "handle_write h report w \<noteq> None" "handle_send_feature h report w \<noteq> None" if "h < length (fw_handles w)"
    using handle_write_ok [OF ok that, of report] handle_send_feature_ok [OF ok that, of report] by auto
  moreover have "handle_get_feature h buf w \<noteq> None" "handle_get_input h buf w \<noteq> None" if "buf \<noteq> []"
    using handle_get_feature_ok [OF that, of h w] handle_get_input_ok [OF that, of h w] by auto
  ultimately show ?thesis
    using handle_read_no_panic op safe_periodic safe_suspend safe_set_input safe_lose_input by simp
qed

theorem fake_never_panics_witness:
  "handle_get_input 0 (request 1) pico_world \<noteq> None \<and> handle_read 0 [] (Some 5) pico_world \<noteq> Panics"
proof -
  have "request 1 \<noteq> []" using length_request [of 1] by (metis list.size(3) zero_neq_numeral)
  then show ?thesis
    using fake_never_panics [OF pico_reachable, of 0 "[]" "request 1" None 0 0 False]
      fake_never_panics [OF pico_reachable, of 0 "[]" "[]" "Some 5" 0 0 False]
    by (simp add: horizon_def)
qed

lemma show_0: "show_nat 0 = ''0''"
  by (simp add: show_nat.simps digit_char_def char_of_def bit_Suc_0_iff)

lemma pico_good: "good_handle 0 PICO_AVAILABLE pico_world"
  using fake_reachable_ok [OF pico_reachable]
  by (simp add: good_handle_def pico_world_def bus_open_def plug_def make_board_def empty_world_def
      plug_board_def state_of_def set_board_def open_board_def fake_board_new_def new_state_def pico_info_def
      handle_live_def board_of_def Let_def show_0)

definition pico_device :: device where
  "pico_device = sample_device\<lparr>dev_info := None\<rparr>"

text \<open>C15: On a simulated board the library's write succeeds for every configuration that is valid for
  the board, and then the board has it and the library knows it.\<close>

theorem fake_write_applies:
  assumes "good_handle h avail w" "dev_handle d = h" "\<forall>i. dev_info d = Some i \<longrightarrow> available i = avail"
    and "wf_config c" "config_ok avail c"
  shows "\<exists>read d' w'. set_pin_config fake_env c d w = (Inr read, d', w') \<and> pcr_config read = c \<and>
    b_config (board_of h w') = c \<and> good_handle h avail w'"
  using fake_port.write_succeeds [OF assms] by blast

lemma pico_device_simps [simp]: "dev_handle pico_device = 0" "dev_info pico_device = None"
  by (simp_all add: pico_device_def sample_device_def)

theorem fake_write_applies_witness:
  "\<exists>read d' w'. set_pin_config fake_env (default_for PICO_AVAILABLE) pico_device pico_world = (Inr read, d', w') \<and>
     b_config (board_of 0 w') = default_for PICO_AVAILABLE"
  using fake_write_applies [OF pico_good, of pico_device "default_for PICO_AVAILABLE"] default_ok by auto

theorem applied_config_verified_witness:
  "\<exists>read d' w'. set_pin_config fake_env (default_for PICO_AVAILABLE) pico_device pico_world = (Inr read, d', w') \<and>
     dev_config d' = Some (default_for PICO_AVAILABLE) \<and> request_id read = last_request_id d'"
proof -
  obtain read d' w' where s: "set_pin_config fake_env (default_for PICO_AVAILABLE) pico_device pico_world = (Inr read, d', w')"
    using fake_port.write_succeeds [OF pico_good, of pico_device "default_for PICO_AVAILABLE"] default_ok by auto
  then show ?thesis using applied_config_verified [OF s] by blast
qed

lemma fake_get_pin_config:
  assumes "good_handle h avail w" "dev_handle d = h"
  shows "get_pin_config fake_env d w =
    (Inr (config_report (board_of h w)), d\<lparr>dev_config := Some (b_config (board_of h w))\<rparr>, w)"
proof -
  have live: "handle_live (fw_handles w ! h)" "world_ok w" "h < length (fw_handles w)"
    using assms(1) by (simp_all add: good_handle_def)
  have "wf_config (b_config (board_of h w))"
    using board_okD(1) [OF world_boardD(1) [OF live(2) world_handleD(2) [OF live(2,3)]]] by (simp add: board_of_def)
  then have "decode_pin_config (encode_pin_config (config_report (board_of h w))) = Inr (config_report (board_of h w))"
    by (intro decode_encode_pin_config) (simp add: config_report_def)
  then show ?thesis
    using get_feature_reply(2) [OF live(1)] assms(2)
    by (simp add: get_pin_config_def seq_op_def get_feature_full return_op_def config_report_def)
qed

theorem update_keeps_other_pins_witness:
  "\<exists>read d' w'. update_pins fake_env [(2, unused_setting)] pico_device pico_world = (Inr read, d', w') \<and>
     pcr_config read ! 2 = unused_setting \<and> pcr_config read ! 3 = b_config (board_of 0 pico_world) ! 3"
proof -
  let ?c = "b_config (board_of 0 pico_world)"
  let ?d = "pico_device\<lparr>dev_config := Some ?c\<rparr>"
  have b: "board_ok (board_of 0 pico_world)" "available (b_info (board_of 0 pico_world)) = PICO_AVAILABLE"
    using pico_good world_boardD(1) world_handleD(2) by (auto simp: good_handle_def board_of_def)
  note wf = board_okD(1) [OF b(1)]
  have "config_ok PICO_AVAILABLE (?c[2 := unused_setting])"
    using board_okD(2) [OF b(1)] wf_config_length [OF wf]
    by (auto simp: b(2) config_ok_nth nth_list_update setting_ok_def unused_setting_def)
  then obtain read d' w' where s: "set_pin_config fake_env (?c[2 := unused_setting]) ?d pico_world = (Inr read, d', w')"
    using fake_port.write_succeeds [OF pico_good, of ?d "?c[2 := unused_setting]"] wf by auto
  then have u: "update_pins fake_env [(2, unused_setting)] pico_device pico_world = (Inr read, d', w')"
    using fake_get_pin_config [OF pico_good, of pico_device]
    by (simp add: update_pins_def seq_op_def return_op_def config_report_def with_pin_def GPIO_COUNT_def)
  obtain before d1 w1 where before: "get_pin_config fake_env pico_device pico_world = (Inr before, d1, w1)"
    "\<forall>n < 30. pcr_config read ! n =
      (case map_of (rev [(2, unused_setting)]) (word_of_nat n :: u8) of None \<Rightarrow> pcr_config before ! n | Some s \<Rightarrow> s)"
    using update_keeps_other_pins [OF u] by blast
  have "pcr_config before = ?c"
    using before(1) fake_get_pin_config [OF pico_good, of pico_device] by (auto simp: config_report_def)
  moreover have "pcr_config read ! 2 = unused_setting" "pcr_config read ! 3 = pcr_config before ! 3"
    using before(2) by (auto dest: spec [of _ 2] spec [of _ 3])
  ultimately show ?thesis using u by auto
qed

text \<open>C27: Driving outputs of a simulated board sets exactly the output pins that were named: HIGH when
  a HIGH was given for the pin, LOW otherwise; every other pin stays as it was.\<close>

theorem fake_outputs_driven:
  assumes "good_handle h avail w" "dev_handle d = h" "\<forall>(g, v) \<in> set lv. unat g < 30"
  shows "\<exists>w'. set_outputs fake_env lv d w = (Inr (), d, w') \<and> good_handle h avail w' \<and>
    b_config (board_of h w') = b_config (board_of h w) \<and>
    (\<forall>n < 30. bit (b_levels (board_of h w')) n =
      (if is_output (b_config (board_of h w) ! n) \<and> (\<exists>v. (word_of_nat n, v) \<in> set lv)
       then (word_of_nat n, True) \<in> set lv else bit (b_levels (board_of h w)) n))"
proof -
  let ?s = "board_of h w"
  have live: "handle_live (fw_handles w ! h)" "world_ok w" "h < length (fw_handles w)"
    using assms(1) by (simp_all add: good_handle_def)
  have ok: "board_ok ?s"
    using world_boardD(1) [OF live(2) world_handleD(2) [OF live(2,3)]] by (simp add: board_of_def)
  have "output_masks lv 0 0 \<noteq> Inl e" for e
    using assms(3) by (auto simp: output_masks_error find_Some_iff dest!: nth_mem)
  then obtain m v where mv: "output_masks lv 0 0 = Inr (m, v)" by (metis old.sum.exhaust surj_pair)
  let ?m = "m AND outputs_mask (b_config ?s)"
  let ?t = "?s\<lparr>b_levels := with_bit (b_levels ?s) ?m (v AND ?m)\<rparr>"
  obtain p where p: "send OUTPUT_APPLIED [] ?t (fw_handles w) =
      Some (after_send ?t, fold (push_report (REPORT_ID_STATUS # p)) (handles ?t) (fw_handles w))"
    using send_Some [of "[]" ?t] by auto
  then have "drive_outputs m v ?s (fw_handles w) =
      Some (after_send ?t, push_all [REPORT_ID_STATUS # p] (handles ?s) (fw_handles w))"
    by (simp add: drive_outputs_def Let_def push_all_def)
  from good_handle_op [OF assms(1) safe_drive this] obtain w' where
    w': "on_board (fh_board (fw_handles w ! h)) (drive_outputs m v) w = Some w'"
    "good_handle h avail w'" "board_of h w' = after_send ?t" by auto
  have "handle_check h w = Inr ()" using live(1) handle_check_Inr by blast
  then have "set_outputs fake_env lv d w = (Inr (), d, w')"
    using w'(1) assms(2) by (simp add: set_outputs_def seq_op_def return_op_def mv write_outputs_def fake_env_def
        handle_write_def decode_encode_output or_stuck_def)
  moreover have "bit (b_levels (after_send ?t)) n =
      (if is_output (b_config ?s ! n) \<and> (\<exists>v. (word_of_nat n, v) \<in> set lv)
       then (word_of_nat n, True) \<in> set lv else bit (b_levels ?s) n)" if "n < 30" for n
    using that output_masks_bits [OF mv, of n]
    by (auto simp: bit_with_bit bit_and_iff bit_outputs_mask [OF board_okD(1) [OF ok]])
  ultimately show ?thesis using w'(2,3) by auto
qed

theorem fake_outputs_driven_witness:
  "\<exists>w'. set_outputs fake_env [(3, True)] pico_device pico_world = (Inr (), pico_device, w') \<and>
     b_config (board_of 0 w') = b_config (board_of 0 pico_world)"
  using fake_outputs_driven [OF pico_good, of pico_device "[(3, True)]"] by auto

text \<open>The report of a change of an input.\<close>

lemma set_input_sends:
  assumes "world_ok w" "b < length (fw_boards w)" "unat g < 30" "powered (state_of b w)"
    and "is_monitored (b_config (state_of b w) ! unat g)" "bit (b_levels (state_of b w)) (unat g) \<noteq> high"
  shows "\<exists>p. on_board b (set_input g high) w = Some (set_board b (after_send (followed g high (state_of b w)))
      (fold (push_report (REPORT_ID_STATUS # p)) (handles (state_of b w)) (fw_handles w)) w) \<and>
    decode_status p = Inr (sent_report (followed g high (state_of b w)) LEVEL_CHANGED
      [\<lparr>ev_gpio = g, ev_level = high, age_us = ucast (param (b_config (state_of b w) ! unat g)) * 1000\<rparr>]) \<and>
    length p = 63"
proof -
  let ?s = "state_of b w"
  let ?ev = "\<lparr>ev_gpio = g, ev_level = high, age_us = ucast (param (b_config ?s ! unat g)) * 1000\<rparr>"
  let ?t = "followed g high ?s"
  let ?r = "sent_report ?t LEVEL_CHANGED [?ev]"
  obtain p where p: "encode_status ?r = Inr p"
    "send LEVEL_CHANGED [?ev] ?t (fw_handles w) =
      Some (after_send ?t, fold (push_report (REPORT_ID_STATUS # p)) (handles ?t) (fw_handles w))"
    using send_Some [of "[?ev]" ?t] by auto
  have "status_encodable ?r"
    using assms(3) by (simp add: status_encodable_def sent_report_def fake_status_def)
  then have "decode_status p = Inr ?r" using decode_encode_status p(1) by fastforce
  moreover have "length p = 63" by (rule encode_status_length [OF p(1)])
  ultimately show ?thesis
    using p(2) assms(4-6)
    by (intro exI [of _ p])
      (simp add: on_board_def set_input_eq [OF board_okD(1) [OF world_boardD(1) [OF assms(1,2)]] assms(3)])
qed

text \<open>C26: Changing the input of a monitored pin of a powered board reaches every open handle with room
  in its queue as one more report: the next number, the edge with its level and debounce age,
  the new level of that pin and the old level of all others, and OVERFLOW exactly when an edge
  was lost before.\<close>

theorem fake_input_reported:
  assumes "world_ok w" "b < length (fw_boards w)" "unat g < 30" "powered (state_of b w)"
    and "is_monitored (b_config (state_of b w) ! unat g)" "bit (b_levels (state_of b w)) (unat g) \<noteq> high"
    and "h \<in> set (handles (state_of b w))" "length (reports (fw_handles w ! h)) < 64"
  shows "\<exists>w' data r. on_board b (set_input g high) w = Some w' \<and>
    reports (fw_handles w' ! h) = reports (fw_handles w ! h) @ [data] \<and> decode_status (drop 1 data) = Inr r \<and>
    seq r = next_seq (state_of b w) \<and> sr_reason r = LEVEL_CHANGED \<and>
    events r = [\<lparr>ev_gpio = g, ev_level = high, age_us = ucast (param (b_config (state_of b w) ! unat g)) * 1000\<rparr>] \<and>
    (overflow r \<longleftrightarrow> b_overflow (state_of b w)) \<and>
    (\<forall>n < 30. bit (levels r) n = (if n = unat g then high else bit (b_levels (state_of b w)) n))"
proof -
  let ?s = "state_of b w"
  let ?t = "followed g high ?s"
  let ?r = "sent_report ?t LEVEL_CHANGED
      [\<lparr>ev_gpio = g, ev_level = high, age_us = ucast (param (b_config ?s ! unat g)) * 1000\<rparr>]"
  obtain p where p: "on_board b (set_input g high) w = Some (set_board b (after_send ?t)
      (fold (push_report (REPORT_ID_STATUS # p)) (handles ?s) (fw_handles w)) w)" "decode_status p = Inr ?r"
    using set_input_sends [OF assms(1-6)] by blast
  let ?hs = "fold (push_report (REPORT_ID_STATUS # p)) (handles ?s) (fw_handles w)"
  note p
  moreover have "reports (?hs ! h) = reports (fw_handles w ! h) @ [REPORT_ID_STATUS # p]"
    using nth_push [OF world_boardD(2) [OF assms(1,2)]] world_boardD(3) [OF assms(1,2,7)] assms(7,8) by simp
  moreover have "overflow ?r \<longleftrightarrow> b_overflow ?s"
    by (simp add: overflow_def sent_report_def fake_status_def followed_def moved_def flags_contains_def OVERFLOW_def)
  moreover have "next_seq ?t = next_seq ?s" by simp
  ultimately show ?thesis
    using assms(3) by (intro exI [of _ "set_board b (after_send ?t) ?hs w"] exI [of _ "REPORT_ID_STATUS # p"] exI [of _ ?r])
      (simp add: bit_followed sent_report_def fake_status_def)
qed

lemma pico_handles:
  "length (fw_boards pico_world) = 1" "powered (state_of 0 pico_world)" "handles (state_of 0 pico_world) = [0]"
  "b_config (state_of 0 pico_world) = default_for PICO_AVAILABLE" "fw_handles pico_world =
    [\<lparr>fh_board = 0, reports = [], closed = False, gone_away = False\<rparr>]" "next_seq (state_of 0 pico_world) = 0"
  "b_levels (state_of 0 pico_world) = PICO_AVAILABLE AND monitored_mask (default_for PICO_AVAILABLE)"
  by (simp_all add: pico_world_def bus_open_def plug_def make_board_def empty_world_def
      plug_board_def state_of_def set_board_def open_board_def fake_board_new_def new_state_def pico_info_def
      Let_def show_0)

theorem fake_input_reported_witness:
  "\<exists>w' data. on_board 0 (set_input 2 False) pico_world = Some w' \<and> reports (fw_handles w' ! 0) = [data]"
proof -
  have bit: "bit PICO_AVAILABLE 2" by (simp add: PICO_AVAILABLE_def)
  have mon: "is_monitored (default_for PICO_AVAILABLE ! 2)"
    using bit by (simp add: nth_default pull_up_def is_monitored_def is_input_def)
  then have "bit (b_levels (state_of 0 pico_world)) 2"
    using bit by (simp add: pico_handles bit_and_iff bit_monitored_mask)
  then show ?thesis
    using fake_input_reported [OF fake_reachable_ok [OF pico_reachable], of 0 2 False 0] mon
    by (auto simp: pico_handles)
qed

end
