(* ===== verification/Hidraw.thy ===== *)
theory Hidraw
  imports Transport "HOL-Library.List_Lexorder" "HOL-Library.Char_ord"
begin

text \<open>
  The Linux backend, \<open>rust/src/hidraw.rs\<close>: the parser of report descriptors, the listing of
  hidraw nodes in sysfs, the ioctl numbers, and the transport on one node. The file system and
  the system calls are parameters: the records \<open>files\<close> and \<open>kernel\<close>.
\<close>

section \<open>Text\<close>

text \<open>The characters \<open>str::trim\<close> removes, in UTF-8.\<close>

definition white_space :: "string list" where
  "white_space = map (map char_of) ([[9], [10], [11], [12], [13], [32], [0xC2, 0x85], [0xC2, 0xA0],
     [0xE1, 0x9A, 0x80], [0xE2, 0x80, 0xA8], [0xE2, 0x80, 0xA9], [0xE2, 0x80, 0xAF],
     [0xE2, 0x81, 0x9F], [0xE3, 0x80, 0x80]] @ map (\<lambda>n. [0xE2, 0x80, n]) [0x80 ..< 0x8B :: nat])"

definition strip_prefix :: "string \<Rightarrow> string \<Rightarrow> string option" where
  "strip_prefix p s = (if take (length p) s = p then Some (drop (length p) s) else None)"

text \<open>Both ends; each step removes a character, so the length bounds the steps.\<close>

primrec trim_left :: "string list \<Rightarrow> nat \<Rightarrow> string \<Rightarrow> string" where
  "trim_left ws 0 s = s"
| "trim_left ws (Suc n) s = (case find (\<lambda>w. strip_prefix w s \<noteq> None) ws of
     None \<Rightarrow> s | Some w \<Rightarrow> trim_left ws n (drop (length w) s))"

definition trim :: "string \<Rightarrow> string" where
  "trim s = (let s = trim_left white_space (length s) s
     in rev (trim_left (map rev white_space) (length s) (rev s)))"

fun split_at :: "char \<Rightarrow> string \<Rightarrow> string list" where
  "split_at c [] = [[]]"
| "split_at c (x # xs) = (if x = c then [] # split_at c xs
     else case split_at c xs of [] \<Rightarrow> [[x]] | y # ys \<Rightarrow> (x # y) # ys)"

text \<open>\<open>str::lines\<close>: a line ends with \<open>\\n\<close> or \<open>\\r\\n\<close>, and the last line may lack it.\<close>

definition drop_cr :: "string \<Rightarrow> string" where
  "drop_cr line = (if line \<noteq> [] \<and> last line = char_of (13 :: nat) then butlast line else line)"

definition text_lines :: "string \<Rightarrow> string list" where
  "text_lines s = (let parts = split_at (char_of (10 :: nat)) s in
     map drop_cr (butlast parts) @ (if last parts = [] then [] else [last parts]))"

definition uevent_field :: "string \<Rightarrow> string \<Rightarrow> string option" where
  "uevent_field content key =
     (case List.find (\<lambda>line. strip_prefix (key @ ''='') line \<noteq> None) (text_lines content) of
        None \<Rightarrow> None | Some line \<Rightarrow> strip_prefix (key @ ''='') line)"

text \<open>\<open>from_str_radix\<close> of the unsigned integers of \<open>w\<close> bits; a leading \<open>+\<close> is accepted.\<close>

definition digit_of :: "nat \<Rightarrow> char \<Rightarrow> nat option" where
  "digit_of radix c =
     (let n = of_char c :: nat;
          d = (if 48 \<le> n \<and> n \<le> 57 then n - 48
               else if 97 \<le> n \<and> n \<le> 122 then n - 87
               else if 65 \<le> n \<and> n \<le> 90 then n - 55 else radix)
      in if d < radix then Some d else None)"

fun digits_of :: "nat \<Rightarrow> nat \<Rightarrow> string \<Rightarrow> nat option" where
  "digits_of radix acc [] = Some acc"
| "digits_of radix acc (c # cs) = (case digit_of radix c of
     None \<Rightarrow> None | Some d \<Rightarrow> digits_of radix (acc * radix + d) cs)"

definition parse_radix :: "nat \<Rightarrow> nat \<Rightarrow> string \<Rightarrow> nat option" where
  "parse_radix radix w s =
     (let t = (case strip_prefix ''+'' s of None \<Rightarrow> s | Some t \<Rightarrow> t) in
      if t = [] then None
      else case digits_of radix 0 t of
        None \<Rightarrow> None | Some v \<Rightarrow> if v < 2 ^ w then Some v else None)"

section \<open>Report descriptors\<close>

text \<open>The data of an item; bytes behind the end of the descriptor count as zero.\<close>

definition item_data :: "bytes \<Rightarrow> nat \<Rightarrow> nat \<Rightarrow> u32" where
  "item_data p at sz = fold (\<lambda>k d. if at + k < length p
     then d OR push_bit (8 * k) (ucast (p ! (at + k))) else d) [0..<sz] 0"

function usage_loop :: "bytes \<Rightarrow> nat \<Rightarrow> u16 \<Rightarrow> u16 \<Rightarrow> u16 \<times> u16" where
  "usage_loop p i page usage =
     (if i < length p then
        let prefix = p ! i in
        if prefix = 0xFE then
          (if i + 1 < length p then usage_loop p (i + 3 + unat (p ! (i + 1))) page usage else (0, 0))
        else
          let sz = [0, 1, 2, 4] ! unat (prefix AND 0x03);
              data = item_data p (i + 1) sz;
              next = i + 1 + sz
          in if prefix AND 0xFC = 0x04 then usage_loop p next (ucast data) usage
             else if prefix AND 0xFC = 0x08 then
               usage_loop p next (if sz = 4 then ucast (drop_bit 16 data) else page) (ucast data)
             else if prefix AND 0xFC = 0xA0 \<and> data = 0x01 then (page, usage)
             else usage_loop p next page usage
      else (0, 0))"
  by pat_completeness auto

termination
  by (relation "measure (\<lambda>(p, i, _). length p - i)") (auto simp: Let_def)

declare usage_loop.simps [simp del]

definition top_level_usage :: "bytes \<Rightarrow> u16 \<times> u16" where
  "top_level_usage descriptor = usage_loop descriptor 0 0 0"

section \<open>Listing the nodes\<close>

text \<open>
  What the listing asks of the file system: the entries of a directory with the names of those
  that could be read, the text of a file, its bytes, and the canonical path.
\<close>

record files =
  fs_read_dir :: "string \<Rightarrow> string io_result list io_result"
  fs_text :: "string \<Rightarrow> string option"
  fs_bytes :: "string \<Rightarrow> bytes option"
  fs_canonical :: "string \<Rightarrow> string option"

definition or_default :: "'a \<Rightarrow> 'a option \<Rightarrow> 'a" where
  "or_default x y = (case y of None \<Rightarrow> x | Some z \<Rightarrow> z)"

record hid_info =
  hi_path :: string
  hi_vendor :: u16
  hi_product_id :: u16
  hi_serial :: string
  hi_manufacturer :: string
  hi_product :: string
  hi_usage_page :: u16
  hi_usage :: u16

definition path_join :: "string \<Rightarrow> string \<Rightarrow> string" where
  "path_join base name =
     (if name \<noteq> [] \<and> hd name = CHR ''/'' \<or> base = [] then name
      else if last base = CHR ''/'' then base @ name else base @ ''/'' @ name)"

text \<open>The parent of a canonical path, which is absolute and has no empty components.\<close>

definition path_parent :: "string \<Rightarrow> string option" where
  "path_parent p = (if p = ''/'' \<or> p = [] then None
     else let up = rev (tl (dropWhile (\<lambda>c. c \<noteq> CHR ''/'') (rev p)))
       in Some (if up = [] then ''/'' else up))"

definition read_text :: "files \<Rightarrow> string \<Rightarrow> string" where
  "read_text F path = or_default [] (map_option trim (fs_text F path))"

text \<open>The vendor and product id of an entry, when its \<open>HID_ID\<close> can be read.\<close>

definition hid_ids :: "string \<Rightarrow> (u16 \<times> u16) option" where
  "hid_ids uevent = (case uevent_field uevent ''HID_ID'' of
     None \<Rightarrow> None
   | Some hid_id \<Rightarrow> (case split_at CHR '':'' hid_id of
        [_, v, p] \<Rightarrow> (case (parse_radix 16 32 v, parse_radix 16 32 p) of
           (Some vid, Some pid) \<Rightarrow> Some (word_of_nat vid, word_of_nat pid)
         | _ \<Rightarrow> None)
      | _ \<Rightarrow> None))"

definition usb_device_of :: "files \<Rightarrow> string \<Rightarrow> string" where
  "usb_device_of F device = or_default []
     (Option.bind (fs_canonical F device) (\<lambda>p. Option.bind (path_parent p) path_parent))"

definition first_nonempty :: "string \<Rightarrow> string \<Rightarrow> string" where
  "first_nonempty x y = (if x = [] then y else x)"

text \<open>The loop of \<open>enumerate_in\<close>, for one name.\<close>

definition entry_info :: "files \<Rightarrow> string \<Rightarrow> string \<Rightarrow> u16 \<Rightarrow> u16 \<Rightarrow> string \<Rightarrow> hid_info option" where
  "entry_info F root dev_dir vendor product_id name =
     (if strip_prefix ''hidraw'' name = None then None
      else
        let device = path_join (path_join root name) ''device'';
            uevent = read_text F (path_join device ''uevent'')
        in case hid_ids uevent of
          None \<Rightarrow> None
        | Some (vid, pid) \<Rightarrow>
            if vendor \<noteq> 0 \<and> vid \<noteq> vendor \<or> product_id \<noteq> 0 \<and> pid \<noteq> product_id then None
            else
              let usb = usb_device_of F device;
                  usages = top_level_usage (or_default [] (fs_bytes F (path_join device ''report_descriptor'')))
              in Some \<lparr>hi_path = path_join dev_dir name, hi_vendor = vid, hi_product_id = pid,
                hi_serial = first_nonempty (or_default [] (uevent_field uevent ''HID_UNIQ''))
                  (read_text F (path_join usb ''serial'')),
                hi_manufacturer = read_text F (path_join usb ''manufacturer''),
                hi_product = first_nonempty (read_text F (path_join usb ''product''))
                  (or_default [] (uevent_field uevent ''HID_NAME'')),
                hi_usage_page = fst usages, hi_usage = snd usages\<rparr>)"

fun collect_infos :: "(string \<Rightarrow> hid_info option) \<Rightarrow> string io_result list \<Rightarrow> hid_info list io_result" where
  "collect_infos f [] = Inr []"
| "collect_infos f (entry # entries) = and_then entry (\<lambda>name.
     and_then (collect_infos f entries) (\<lambda>infos.
       Inr (case f name of None \<Rightarrow> infos | Some i \<Rightarrow> i # infos)))"

definition enumerate_in :: "files \<Rightarrow> string \<Rightarrow> string \<Rightarrow> u16 \<Rightarrow> u16 \<Rightarrow> hid_info list io_result" where
  "enumerate_in F root dev_dir vendor product_id =
     and_then (fs_read_dir F root) (\<lambda>entries.
       and_then (collect_infos (entry_info F root dev_dir vendor product_id) entries) (\<lambda>infos.
         Inr (sort_key hi_path infos)))"

section \<open>The transport on one node\<close>

definition IOC_WRITE :: u64 where "IOC_WRITE = 1"
definition IOC_READ :: u64 where "IOC_READ = 2"

definition hid_ioc :: "u64 \<Rightarrow> nat \<Rightarrow> u64" where
  "hid_ioc nr sz = push_bit 30 (IOC_WRITE OR IOC_READ) OR push_bit 16 (word_of_nat sz) OR
     push_bit 8 0x48 OR nr"

definition hidioc_s_feature :: "nat \<Rightarrow> u64" where "hidioc_s_feature sz = hid_ioc 0x06 sz"
definition hidioc_g_feature :: "nat \<Rightarrow> u64" where "hidioc_g_feature sz = hid_ioc 0x07 sz"
definition hidioc_g_input :: "nat \<Rightarrow> u64" where "hidioc_g_input sz = hid_ioc 0x0A sz"

text \<open>
  The system calls: \<open>poll\<close> for input with a timeout in milliseconds, which is \<open>None\<close> when it
  waits forever, \<open>read\<close> and \<open>write\<close> of a file, \<open>ioctl\<close> on a buffer, opening and closing, and
  the last error. Negative results are errors.
\<close>

record 'w kernel =
  k_open :: "string \<Rightarrow> 'w \<Rightarrow> handle io_result \<times> 'w"
  k_close :: "handle \<Rightarrow> 'w \<Rightarrow> 'w"
  k_poll :: "handle \<Rightarrow> int \<Rightarrow> 'w \<Rightarrow> (int \<times> 'w) option"
  k_read :: "handle \<Rightarrow> nat \<Rightarrow> 'w \<Rightarrow> nat io_result \<times> bytes \<times> 'w"
  k_write :: "handle \<Rightarrow> bytes \<Rightarrow> 'w \<Rightarrow> nat io_result \<times> 'w"
  k_ioctl :: "handle \<Rightarrow> u64 \<Rightarrow> bytes \<Rightarrow> 'w \<Rightarrow> int \<times> bytes \<times> 'w"
  k_errno :: "'w \<Rightarrow> io_error"

text \<open>Milliseconds, rounded down and cut at \<open>i32::MAX\<close>; \<open>-1\<close> waits forever.\<close>

definition poll_millis :: "duration option \<Rightarrow> int" where
  "poll_millis timeout = (case timeout of
     None \<Rightarrow> - 1 | Some d \<Rightarrow> min (int (d div 1000000)) 0x7FFFFFFF)"

definition hidraw_ioctl :: "'w kernel \<Rightarrow> handle \<Rightarrow> u64 \<Rightarrow> bytes \<Rightarrow> 'w \<Rightarrow> nat io_result \<times> bytes \<times> 'w" where
  "hidraw_ioctl K h req buf w = (case k_ioctl K h req buf w of (r, data, w) \<Rightarrow>
     (if r < 0 then Inl (k_errno K w) else Inr (nat r), data, w))"

definition hidraw_read :: "'w kernel \<Rightarrow> handle \<Rightarrow> bytes \<Rightarrow> duration option \<Rightarrow> 'w \<Rightarrow>
    (nat io_result \<times> bytes \<times> 'w) option" where
  "hidraw_read K h buf timeout w = (case k_poll K h (poll_millis timeout) w of
     None \<Rightarrow> None
   | Some (ready, w) \<Rightarrow> Some (
       if ready < 0 then (Inl (k_errno K w), [], w)
       else if ready = 0 then (Inr 0, [], w)
       else k_read K h (length buf) w))"

definition hidraw_open :: "'w kernel \<Rightarrow> string \<Rightarrow> 'w \<Rightarrow> handle io_result \<times> 'w" where
  [simp]: "hidraw_open K path w = k_open K path w"

definition hidraw_write :: "'w kernel \<Rightarrow> handle \<Rightarrow> bytes \<Rightarrow> 'w \<Rightarrow> nat io_result \<times> 'w" where
  [simp]: "hidraw_write K h report w = k_write K h report w"

definition hidraw_get_feature :: "'w kernel \<Rightarrow> handle \<Rightarrow> bytes \<Rightarrow> 'w \<Rightarrow> nat io_result \<times> bytes \<times> 'w" where
  "hidraw_get_feature K h buf = hidraw_ioctl K h (hidioc_g_feature (length buf)) buf"

definition hidraw_send_feature :: "'w kernel \<Rightarrow> handle \<Rightarrow> bytes \<Rightarrow> 'w \<Rightarrow> nat io_result \<times> 'w" where
  "hidraw_send_feature K h report w =
     (case hidraw_ioctl K h (hidioc_s_feature (length report)) report w of (r, data, w) \<Rightarrow> (r, w))"

definition hidraw_get_input :: "'w kernel \<Rightarrow> handle \<Rightarrow> bytes \<Rightarrow> 'w \<Rightarrow> nat io_result \<times> bytes \<times> 'w" where
  "hidraw_get_input K h buf = hidraw_ioctl K h (hidioc_g_input (length buf)) buf"

end
