(* ===== verification/Device_Find.thy ===== *)
theory Device_Find
  imports Hidraw Device "HOL-Library.Product_Lexorder"
begin

text \<open>
  Finding devices, the first part of \<open>rust/src/device.rs\<close>: the USB ids to look for, the list of
  hidpin devices, choosing one of them, and \<open>SystemBus\<close>, which makes an environment for the
  device and the watcher out of the Linux backend.
\<close>

section \<open>USB ids\<close>

definition DEFAULT_VENDOR_ID :: u16 where "DEFAULT_VENDOR_ID = 0x1209"
definition DEFAULT_PRODUCT_ID :: u16 where "DEFAULT_PRODUCT_ID = 0x6870"
definition USAGE_PAGE :: u16 where "USAGE_PAGE = 0xFF00"
definition USAGE :: u16 where "USAGE = 0x01"

text \<open>The value of a variable; one that is missing or not Unicode is \<open>None\<close>.\<close>

type_synonym variables = "string \<Rightarrow> string option"

definition parse_id :: "string \<Rightarrow> nat option" where
  "parse_id raw = (case strip_prefix ''0x'' raw of
     Some hex \<Rightarrow> parse_radix 16 64 hex
   | None \<Rightarrow> (case strip_prefix ''0X'' raw of
        Some hex \<Rightarrow> parse_radix 16 64 hex
      | None \<Rightarrow> parse_radix 10 64 raw))"

definition quote_char :: char where
  "quote_char = char_of (39 :: nat)"

definition env_id :: "variables \<Rightarrow> string \<Rightarrow> u16 \<Rightarrow> u16 result" where
  "env_id vars name fallback =
     (let raw = trim (or_default [] (vars name)) in
      if raw = [] then Inr fallback
      else case parse_id raw of
        Some value \<Rightarrow> if value \<le> 0xFFFF then Inr (word_of_nat value)
          else Inl (InvalidArgument (name @ '' is out of range for 16 bits: '' @
            [quote_char] @ raw @ [quote_char]))
      | None \<Rightarrow> Inl (InvalidArgument (name @ '' is not a 16-bit number: '' @
            [quote_char] @ raw @ [quote_char])))"

definition usb_ids :: "variables \<Rightarrow> (u16 \<times> u16) result" where
  "usb_ids vars = and_then (env_id vars ''HIDPIN_VID'' DEFAULT_VENDOR_ID) (\<lambda>vid.
     and_then (env_id vars ''HIDPIN_PID'' DEFAULT_PRODUCT_ID) (\<lambda>pid. Inr (vid, pid)))"

section \<open>The list of devices\<close>

definition is_hidpin :: "hid_info \<Rightarrow> bool" where
  "is_hidpin i \<longleftrightarrow> hi_usage_page i = 0 \<or> hi_usage_page i = USAGE_PAGE \<and> hi_usage i = USAGE"

definition entry_of :: "hid_info \<Rightarrow> device_entry" where
  "entry_of i = \<lparr>de_path = hi_path i, de_serial = hi_serial i,
     de_manufacturer = hi_manufacturer i, de_product = hi_product i\<rparr>"

definition entry_key :: "device_entry \<Rightarrow> string \<times> string" where
  "entry_key e = (de_serial e, de_path e)"

definition find_devices_with :: "files \<Rightarrow> u16 \<Rightarrow> u16 \<Rightarrow> device_entry list result" where
  "find_devices_with F vendor product_id =
     and_then (map_err Io (enumerate_in F ''/sys/class/hidraw'' ''/dev'' vendor product_id)) (\<lambda>infos.
       Inr (sort_key entry_key (map entry_of (filter is_hidpin infos))))"

definition find_devices :: "variables \<Rightarrow> files \<Rightarrow> device_entry list result" where
  "find_devices vars F = and_then (usb_ids vars) (\<lambda>(vid, pid). find_devices_with F vid pid)"

definition choose_device :: "device_entry list \<Rightarrow> string option \<Rightarrow> device_entry result" where
  "choose_device entries serial =
     (let matching = filter (\<lambda>e. case serial of None \<Rightarrow> True | Some s \<Rightarrow> de_serial e = s) entries in
      case (matching, serial) of
        ([], _) \<Rightarrow> Inl (DeviceNotFound serial)
      | ([e], _) \<Rightarrow> Inr e
      | (e # _, Some _) \<Rightarrow> Inr e
      | (_, None) \<Rightarrow> Inl (SeveralDevices (map de_serial matching)))"

section \<open>The bus of the operating system\<close>

definition open_transport :: "'w kernel \<Rightarrow> string \<Rightarrow> 'w \<Rightarrow> handle result \<times> 'w" where
  "open_transport K path w = (case hidraw_open K path w of (r, w) \<Rightarrow> (map_err (Open path) r, w))"

text \<open>What the host is: its variables and files, which change with the world, its calls and clocks.\<close>

record 'w linux =
  lx_vars :: "'w \<Rightarrow> variables"
  lx_files :: "'w \<Rightarrow> files"
  lx_kernel :: "'w kernel"
  lx_now :: "'w \<Rightarrow> instant \<times> 'w"
  lx_wall :: "'w \<Rightarrow> system_time \<times> 'w"
  lx_pid :: u32

definition system_bus :: "'w linux \<Rightarrow> 'w env" where
  "system_bus X = (let K = lx_kernel X in
     \<lparr>e_devices = (\<lambda>w. (find_devices (lx_vars X w) (lx_files X w), w)),
      e_open = (\<lambda>entry w. open_transport K (de_path entry) w), e_close = k_close K,
      e_read = hidraw_read K, e_write = hidraw_write K, e_get_feature = hidraw_get_feature K,
      e_send_feature = hidraw_send_feature K, e_get_input = hidraw_get_input K,
      e_now = lx_now X, e_wall = lx_wall X, e_pid = lx_pid X\<rparr>)"

text \<open>On a platform other than Linux there is neither a list of devices nor a way to open one.\<close>

definition find_devices_other :: "u16 \<Rightarrow> u16 \<Rightarrow> device_entry list result" where
  "find_devices_other vendor product_id = Inl UnsupportedPlatform"

definition open_transport_other :: "string \<Rightarrow> 'w \<Rightarrow> handle result \<times> 'w" where
  "open_transport_other path w = (Inl UnsupportedPlatform, w)"

definition other_bus :: "('w \<Rightarrow> variables) \<Rightarrow> 'w env \<Rightarrow> 'w env" where
  "other_bus vars E = E
     \<lparr>e_devices := (\<lambda>w. (and_then (usb_ids (vars w)) (\<lambda>(vid, pid). find_devices_other vid pid), w)),
      e_open := (\<lambda>entry w. open_transport_other (de_path entry) w)\<rparr>"

text \<open>\<open>Device::open_path\<close> and \<open>Device::open\<close>.\<close>

definition open_path :: "'w linux \<Rightarrow> string \<Rightarrow> string \<Rightarrow> 'w \<Rightarrow> device result \<times> 'w" where
  "open_path X path serial w = (case open_transport (lx_kernel X) path w of
     (Inl e, w) \<Rightarrow> (Inl e, w)
   | (Inr h, w) \<Rightarrow> open_on (system_bus X) h serial w)"

definition open_device :: "'w linux \<Rightarrow> string option \<Rightarrow> 'w \<Rightarrow> device result \<times> 'w" where
  "open_device X serial w =
     (case and_then (find_devices (lx_vars X w) (lx_files X w)) (\<lambda>entries. choose_device entries serial) of
        Inl e \<Rightarrow> (Inl e, w)
      | Inr entry \<Rightarrow> open_path X (de_path entry) (de_serial entry) w)"

end
