(* ===== verification/Find_Theorems.thy ===== *)
theory Find_Theorems
  imports Device_Find Watch_App "HOL-Library.Multiset"
begin

text \<open>
  What finding devices and the Linux backend promise: the parser of report descriptors agrees
  with a reading of the descriptor as a list of items, the list of devices is complete and
  ordered, the choice of a device is unambiguous, USB ids are read back, the ioctl numbers have
  the fields the kernel expects, and the watcher's reads neither spin nor wait too long.
\<close>

section \<open>Report descriptors\<close>

text \<open>A descriptor as a list of items; the tag of a short item is its prefix without the size.\<close>

datatype hid_item = Short u8 bytes | Long u8 bytes

definition size_code :: "nat \<Rightarrow> u8" where
  "size_code n = (if n = 4 then 3 else word_of_nat n)"

fun valid_item :: "hid_item \<Rightarrow> bool" where
  "valid_item (Short tag d) \<longleftrightarrow> tag AND 3 = 0 \<and> length d \<in> {0, 1, 2, 4} \<and> \<not> (tag = 0xFC \<and> length d = 2)"
| "valid_item (Long tag d) \<longleftrightarrow> length d < 256"

fun item_bytes :: "hid_item \<Rightarrow> bytes" where
  "item_bytes (Short tag d) = (tag OR size_code (length d)) # d"
| "item_bytes (Long tag d) = 0xFE # word_of_nat (length d) # tag # d"

fun first_application :: "u16 \<Rightarrow> u16 \<Rightarrow> hid_item list \<Rightarrow> u16 \<times> u16" where
  "first_application page usage [] = (0, 0)"
| "first_application page usage (Long _ _ # items) = first_application page usage items"
| "first_application page usage (Short tag d # items) =
     (if tag = 0x04 then first_application (of_le (take 2 d)) usage items
      else if tag = 0x08 then first_application (if length d = 4 then of_le (drop 2 d) else page) (of_le (take 2 d)) items
      else if tag = 0xA0 \<and> (of_le d :: u32) = 1 then (page, usage)
      else first_application page usage items)"

lemma bit_of_le: "bit (of_le bs :: 'a::len word) n \<longleftrightarrow>
    n < LENGTH('a) \<and> n < 8 * length bs \<and> bit (bs ! (n div 8)) (n mod 8)"
proof (induction bs arbitrary: n)
  case (Cons b bs)
  have "bit (of_le (b # bs) :: 'a word) n \<longleftrightarrow>
      n < LENGTH('a) \<and> (bit b n \<or> 8 \<le> n \<and> bit (of_le bs :: 'a word) (n - 8))"
    unfolding of_le.simps bit_or_iff bit_push_bit_iff bit_unsigned_iff by auto
  moreover have "8 \<le> n \<Longrightarrow> n div 8 = Suc ((n - 8) div 8) \<and> n mod 8 = (n - 8) mod 8"
    by (simp add: le_div_geq le_mod_geq)
  moreover have "\<not> n < 8 \<Longrightarrow> \<not> bit b n" using bit_imp_le_length [of b n] by auto
  ultimately show ?case using Cons [of "n - 8"] by (cases "n < 8") auto
qed simp

lemma bit_item_fold: "bit (fold (\<lambda>k acc. acc OR push_bit (8 * k) (ucast (d ! k))) [0..<m] 0 :: u32) n \<longleftrightarrow>
    n < 32 \<and> n < 8 * m \<and> bit (d ! (n div 8)) (n mod 8)" for d :: bytes
proof (induction m)
  case (Suc m)
  have e: "bit (fold (\<lambda>k acc. acc OR push_bit (8 * k) (ucast (d ! k))) [0..<Suc m] 0 :: u32) n \<longleftrightarrow>
      bit (fold (\<lambda>k acc. acc OR push_bit (8 * k) (ucast (d ! k))) [0..<m] 0 :: u32) n \<or>
      n < 32 \<and> 8 * m \<le> n \<and> bit (d ! m) (n - 8 * m)"
    unfolding upt_Suc_append [OF le0] fold_append comp_apply fold_simps bit_or_iff bit_push_bit_iff bit_unsigned_iff
    by (auto dest: bit_imp_le_length)
  have "8 * m \<le> n \<Longrightarrow> n < 8 * Suc m \<Longrightarrow> n div 8 = m \<and> n mod 8 = n - 8 * m"
    by (metis (no_types, lifting) add_diff_cancel_left' div_nat_eqI minus_mult_div_eq_mod mult.commute)
  moreover have "\<not> n < 8 * Suc m \<Longrightarrow> \<not> bit (d ! m) (n - 8 * m)"
    using bit_imp_le_length [of "d ! m" "n - 8 * m"] by auto
  ultimately show ?case unfolding e Suc by (cases "8 * m \<le> n"; cases "n < 8 * Suc m") auto
qed simp

lemma item_data_of_le: "item_data (pre @ d @ rest) (length pre) (length d) = of_le d"
proof -
  have "item_data (pre @ d @ rest) (length pre) (length d) =
      fold (\<lambda>k acc. acc OR push_bit (8 * k) (ucast (d ! k))) [0..<length d] 0"
    unfolding item_data_def by (intro fold_cong) (auto simp: nth_append)
  then show ?thesis by (intro bit_word_eqI) (simp add: bit_item_fold bit_of_le)
qed

lemma of_le_halves:
  shows "(ucast (of_le d :: u32) :: u16) = of_le (take 2 d)"
    "length d = 4 \<Longrightarrow> (ucast (drop_bit 16 (of_le d :: u32)) :: u16) = of_le (drop 2 d)"
proof -
  show "(ucast (of_le d :: u32) :: u16) = of_le (take 2 d)"
    by (intro bit_word_eqI) (auto simp: bit_unsigned_iff bit_of_le)
  show "(ucast (drop_bit 16 (of_le d :: u32)) :: u16) = of_le (drop 2 d)" if "length d = 4"
  proof (rule bit_word_eqI)
    fix n :: nat
    have "(16 + n) div 8 = 2 + n div 8" "(16 + n) mod 8 = n mod 8" by presburger+
    then show "n < LENGTH(16) \<Longrightarrow> bit (ucast (drop_bit 16 (of_le d :: u32)) :: u16) n = bit (of_le (drop 2 d) :: u16) n"
      using that by (auto simp: bit_unsigned_iff bit_of_le bit_drop_bit_eq)
  qed
qed

lemma prefix_parts:
  assumes "tag AND 3 = 0" "n \<in> {0, 1, 2, 4}"
  shows "(tag OR size_code n) AND 0xFC = tag" "[0, 1, 2, 4] ! unat ((tag OR size_code n) AND 3) = n"
    "tag OR size_code n = 0xFE \<longleftrightarrow> tag = 0xFC \<and> n = 2"
proof -
  have c: "size_code n AND 0xFC = 0" "size_code n AND 3 = size_code n"
    using assms(2) by (auto simp: size_code_def)
  have t: "tag AND 0xFC = tag"
  proof -
    have "(0xFC OR 3 :: u8) = - 1" by simp
    then have "tag AND (0xFC OR 3) = tag" by (simp only: and.right_neutral)
    then show ?thesis using assms(1) by (simp only: bit.conj_disj_distrib or.right_neutral)
  qed
  show 1: "(tag OR size_code n) AND 0xFC = tag" by (simp add: bit.conj_disj_distrib2 c t)
  have 2: "(tag OR size_code n) AND 3 = size_code n" by (simp add: bit.conj_disj_distrib2 c assms(1))
  then show "[0, 1, 2, 4] ! unat ((tag OR size_code n) AND 3) = n"
    using assms(2) by (auto simp: size_code_def)
  show "tag OR size_code n = 0xFE \<longleftrightarrow> tag = 0xFC \<and> n = 2"
  proof
    assume e: "tag OR size_code n = 0xFE"
    have "tag = 0xFE AND 0xFC" "size_code n = 0xFE AND 3" using 1 2 e by simp_all
    then show "tag = 0xFC \<and> n = 2" using assms(2) by (auto simp: size_code_def)
  qed (simp add: size_code_def)
qed

lemma usage_loop_items:
  assumes "list_all valid_item items"
  shows "usage_loop (pre @ concat (map item_bytes items)) (length pre) page usage =
    first_application page usage items"
  using assms
proof (induction items arbitrary: pre page usage)
  case Nil
  then show ?case by (simp add: usage_loop.simps)
next
  case (Cons it items)
  let ?rest = "concat (map item_bytes items)"
  have IH: "usage_loop (pre' @ ?rest) (length pre') page usage = first_application page usage items"
    for pre' page usage using Cons by simp
  show ?case
  proof (cases it)
    case (Long tag d)
    have len: "unat (word_of_nat (length d) :: u8) = length d"
      using Cons.prems Long by (simp add: unat_of_nat)
    show ?thesis
      using IH [of "pre @ 0xFE # word_of_nat (length d) # tag # d" page usage]
      by (subst usage_loop.simps) (simp add: Long nth_append len numeral_3_eq_3)
  next
    case (Short tag d)
    have v: "tag AND 3 = 0" "length d \<in> {0, 1, 2, 4}" "\<not> (tag = 0xFC \<and> length d = 2)"
      using Cons.prems Short by simp_all
    note pp = prefix_parts [OF v(1,2)]
    let ?p = "pre @ (tag OR size_code (length d)) # d @ ?rest"
    have data: "item_data ?p (length pre + 1) (length d) = of_le d"
      using item_data_of_le [of "pre @ [tag OR size_code (length d)]" d ?rest] by simp
    have next_pre: "usage_loop ?p (length pre + 1 + length d) page usage = first_application page usage items"
      for page usage using IH [of "pre @ (tag OR size_code (length d)) # d" page usage] by simp
    have "usage_loop ?p (length pre) page usage = first_application page usage (it # items)"
      by (subst usage_loop.simps)
        (simp only: Let_def Short nth_append_length pp data next_pre of_le_halves v(3)
          first_application.simps length_append list.size length_Cons, auto simp: of_le_halves)
    then show ?thesis by (simp add: Short)
  qed
qed

text \<open>C38: The usage of a well-formed report descriptor, read by the byte, is that of its first
  application collection when the descriptor is taken as its list of items, long items skipped;
  a descriptor without one gives 0 and 0.\<close>

theorem top_level_usage_items:
  assumes "list_all valid_item items"
  shows "top_level_usage (concat (map item_bytes items)) = first_application 0 0 items"
  using usage_loop_items [OF assms, of "[]"] by (simp add: top_level_usage_def)

theorem top_level_usage_items_witness:
  "top_level_usage [0x06, 0x00, 0xFF, 0x09, 0x01, 0xA1, 0x01] = (0xFF00, 0x01)"
  using top_level_usage_items [of "[Short 0x04 [0, 0xFF], Short 0x08 [1], Short 0xA0 [1]]"]
  by (simp add: size_code_def)

section \<open>The list of devices\<close>

lemma collect_infos_names: "collect_infos f (map Inr names) = Inr (List.map_filter f names)"
  by (induction names) (auto simp: map_filter_simps split: option.split)

text \<open>A text split at a character.\<close>

lemma split_at_none: "c \<notin> set s \<Longrightarrow> split_at c s = [s]"
  by (induction s) auto

lemma split_at_first: "c \<notin> set a \<Longrightarrow> split_at c (a @ c # rest) = a # split_at c rest"
  by (induction a) auto

lemma split_at_nonempty: "split_at c s \<noteq> []"
  by (cases s) (auto split: list.split)

lemma split_at_parts:
  "split_at c s = a # parts \<Longrightarrow> c \<notin> set a \<and> (if parts = [] then s = a else \<exists>rest. s = a @ c # rest \<and> split_at c rest = parts)"
proof (induction s arbitrary: a parts)
  case (Cons x xs)
  obtain y ys where y: "split_at c xs = y # ys" using split_at_nonempty by (metis list.exhaust)
  show ?case
  proof (cases "x = c")
    case False
    then have "a = x # y" "parts = ys" using Cons.prems y by auto
    then show ?thesis using Cons.IH [OF y] False by (cases "ys = []") auto
  qed (use Cons.prems y in auto)
qed auto

lemma split_at_three:
  "split_at c s = [a, b, d] \<longleftrightarrow> s = a @ c # b @ c # d \<and> c \<notin> set a \<and> c \<notin> set b \<and> c \<notin> set d"
  using split_at_first [of c a "b @ c # d"] split_at_first [of c b d] split_at_none [of c d]
  by (auto dest!: split_at_parts)

text \<open>
  What the list of devices is to be, told of the files of sysfs. The \<open>uevent\<close> of a node names the
  bus and the ids of the device, and the USB device is two levels above its directory.
\<close>

definition node_dir :: "string \<Rightarrow> string" where
  "node_dir name = ''/sys/class/hidraw/'' @ name @ ''/device''"

definition node_file :: "string \<Rightarrow> string \<Rightarrow> string" where
  "node_file name file = node_dir name @ ''/'' @ file"

definition node_field :: "files \<Rightarrow> string \<Rightarrow> string \<Rightarrow> string option" where
  "node_field F name key = uevent_field (read_text F (node_file name ''uevent'')) key"

definition has_ids :: "files \<Rightarrow> string \<Rightarrow> u16 \<Rightarrow> u16 \<Rightarrow> bool" where
  "has_ids F name vid pid \<longleftrightarrow> (\<exists>bus v p m n. node_field F name ''HID_ID'' = Some (bus @ '':'' @ v @ '':'' @ p) \<and>
     CHR '':'' \<notin> set (bus @ v @ p) \<and> parse_radix 16 32 v = Some m \<and> parse_radix 16 32 p = Some n \<and>
     vid = word_of_nat m \<and> pid = word_of_nat n)"

definition node_usage :: "files \<Rightarrow> string \<Rightarrow> u16 \<times> u16" where
  "node_usage F name = (case fs_bytes F (node_file name ''report_descriptor'') of
     None \<Rightarrow> (0, 0) | Some descriptor \<Rightarrow> top_level_usage descriptor)"

definition wanted_node :: "files \<Rightarrow> u16 \<Rightarrow> u16 \<Rightarrow> string \<Rightarrow> bool" where
  "wanted_node F vendor product_id name \<longleftrightarrow> (\<exists>number. name = ''hidraw'' @ number) \<and>
     (\<exists>vid pid. has_ids F name vid pid \<and> vendor \<in> {0, vid} \<and> product_id \<in> {0, pid}) \<and>
     (fst (node_usage F name) = 0 \<or> node_usage F name = (0xFF00, 1))"

definition usb_text :: "files \<Rightarrow> string \<Rightarrow> string \<Rightarrow> string" where
  "usb_text F name file = read_text F (path_join
     (usb_device_of F (node_dir name)) file)"

definition node_entry :: "files \<Rightarrow> string \<Rightarrow> device_entry" where
  "node_entry F name = \<lparr>de_path = ''/dev/'' @ name,
     de_serial = (case node_field F name ''HID_UNIQ'' of
       Some (c # cs) \<Rightarrow> c # cs | _ \<Rightarrow> usb_text F name ''serial''),
     de_manufacturer = usb_text F name ''manufacturer'',
     de_product = (if usb_text F name ''product'' \<noteq> [] then usb_text F name ''product''
       else or_default [] (node_field F name ''HID_NAME''))\<rparr>"

lemma hid_ids_has_ids:
  "hid_ids (read_text F (node_file name ''uevent'')) = Some (vid, pid) \<longleftrightarrow> has_ids F name vid pid"
proof
  assume "hid_ids (read_text F (node_file name ''uevent'')) = Some (vid, pid)"
  then obtain hid_id bus v p m n where "node_field F name ''HID_ID'' = Some hid_id" "split_at CHR '':'' hid_id = [bus, v, p]"
    "parse_radix 16 32 v = Some m" "parse_radix 16 32 p = Some n" "vid = word_of_nat m" "pid = word_of_nat n"
    by (auto simp: hid_ids_def node_field_def split: option.splits list.splits)
  then show "has_ids F name vid pid"
    unfolding has_ids_def
    by (intro exI [of _ bus] exI [of _ v] exI [of _ p] exI [of _ m] exI [of _ n]) (simp add: split_at_three)
next
  assume "has_ids F name vid pid"
  then obtain bus v p m n where "node_field F name ''HID_ID'' = Some (bus @ '':'' @ v @ '':'' @ p)"
    "CHR '':'' \<notin> set (bus @ v @ p)" "parse_radix 16 32 v = Some m" "parse_radix 16 32 p = Some n"
    "vid = word_of_nat m" "pid = word_of_nat n" unfolding has_ids_def by blast
  moreover from this have "split_at CHR '':'' (bus @ '':'' @ v @ '':'' @ p) = [bus, v, p]" by (simp add: split_at_three)
  ultimately show "hid_ids (read_text F (node_file name ''uevent'')) = Some (vid, pid)"
    by (simp add: hid_ids_def node_field_def)
qed

lemma strip_prefix_Some: "strip_prefix p s \<noteq> None \<longleftrightarrow> (\<exists>rest. s = p @ rest)"
  by (auto simp: strip_prefix_def) (metis append_take_drop_id)

lemma node_paths:
  assumes "CHR ''/'' \<notin> set name" "name \<noteq> []"
  shows "path_join (path_join ''/sys/class/hidraw'' name) ''device'' = node_dir name"
    "path_join ''/dev'' name = ''/dev/'' @ name"
    "path_join (node_dir name) ''uevent'' = node_file name ''uevent''"
    "path_join (node_dir name) ''report_descriptor'' = node_file name ''report_descriptor''"
proof -
  have "hd name \<noteq> CHR ''/''" "last name \<noteq> CHR ''/''"
    using assms hd_in_set [of name] last_in_set [of name] by metis+
  then show "path_join (path_join ''/sys/class/hidraw'' name) ''device'' = node_dir name"
    "path_join ''/dev'' name = ''/dev/'' @ name"
    "path_join (node_dir name) ''uevent'' = node_file name ''uevent''"
    "path_join (node_dir name) ''report_descriptor'' = node_file name ''report_descriptor''"
    using assms(2) by (simp_all add: path_join_def node_file_def node_dir_def)
qed

lemma usage_of_nothing: "top_level_usage [] = (0, 0)"
  by (simp add: top_level_usage_def usage_loop.simps)

lemma node_entry_fields:
  "node_entry F name = \<lparr>de_path = ''/dev/'' @ name,
     de_serial = first_nonempty (or_default [] (node_field F name ''HID_UNIQ'')) (usb_text F name ''serial''),
     de_manufacturer = usb_text F name ''manufacturer'',
     de_product = first_nonempty (usb_text F name ''product'') (or_default [] (node_field F name ''HID_NAME''))\<rparr>"
  by (auto simp: node_entry_def first_nonempty_def or_default_def split: option.split list.split)

lemma entry_info_described:
  assumes "CHR ''/'' \<notin> set name"
  shows "(case entry_info F ''/sys/class/hidraw'' ''/dev'' vendor product_id name of
      None \<Rightarrow> \<not> wanted_node F vendor product_id name
    | Some i \<Rightarrow> is_hidpin i = wanted_node F vendor product_id name \<and> entry_of i = node_entry F name)"
proof (cases "\<exists>number. name = ''hidraw'' @ number")
  case True
  let ?u = "read_text F (node_file name ''uevent'')"
  have name: "strip_prefix ''hidraw'' name \<noteq> None" "name \<noteq> []" using True strip_prefix_Some by auto
  note paths = node_paths [OF assms name(2)]
  show ?thesis
  proof (cases "hid_ids ?u")
    case None
    then have "\<not> has_ids F name vid pid" for vid pid using hid_ids_has_ids [of F name vid pid] by simp
    then show ?thesis using None name by (simp add: entry_info_def paths Let_def wanted_node_def)
  next
    case (Some ids)
    obtain vid pid where ids: "ids = (vid, pid)" by force
    have has: "has_ids F name v p \<longleftrightarrow> v = vid \<and> p = pid" for v p
      using hid_ids_has_ids [of F name v p] Some ids by auto
    have usage: "top_level_usage (or_default [] (fs_bytes F (node_file name ''report_descriptor''))) = node_usage F name"
      by (simp add: node_usage_def or_default_def usage_of_nothing split: option.split)
    show ?thesis
    proof (cases "vendor \<in> {0, vid} \<and> product_id \<in> {0, pid}")
      case wanted: True
      then obtain i where i: "entry_info F ''/sys/class/hidraw'' ''/dev'' vendor product_id name = Some i"
        "(hi_usage_page i, hi_usage i) = node_usage F name" "entry_of i = node_entry F name"
        using name(1) Some
        by (auto simp: entry_info_def paths Let_def ids usage entry_of_def node_entry_fields simp flip: node_field_def usb_text_def)
      have "wanted_node F vendor product_id name \<longleftrightarrow> fst (node_usage F name) = 0 \<or> node_usage F name = (0xFF00, 1)"
        using True wanted has by (auto simp: wanted_node_def)
      then have "is_hidpin i = wanted_node F vendor product_id name"
        unfolding is_hidpin_def USAGE_PAGE_def USAGE_def i(2) [symmetric] by simp
      then show ?thesis using i(1,3) by simp
    next
      case other: False
      then have "\<not> wanted_node F vendor product_id name" using has by (auto simp: wanted_node_def)
      moreover have "entry_info F ''/sys/class/hidraw'' ''/dev'' vendor product_id name = None"
        using other Some name(1) by (auto simp: entry_info_def paths Let_def ids)
      ultimately show ?thesis by simp
    qed
  qed
next
  case False
  then show ?thesis using strip_prefix_Some by (auto simp: entry_info_def wanted_node_def)
qed

lemma listed_entries:
  assumes "list_all (\<lambda>name. CHR ''/'' \<notin> set name) names"
  shows "map entry_of (filter is_hidpin (List.map_filter (entry_info F ''/sys/class/hidraw'' ''/dev'' vendor product_id) names)) =
    map (node_entry F) (filter (wanted_node F vendor product_id) names)"
  using assms
proof (induction names)
  case (Cons name names)
  then show ?case
    using entry_info_described [of name F vendor product_id]
    by (cases "entry_info F ''/sys/class/hidraw'' ''/dev'' vendor product_id name") (auto simp: map_filter_simps)
qed (simp add: map_filter_simps)

lemma collect_first_error:
  "\<not> list_all (\<lambda>e. \<not> isl e) entries \<Longrightarrow> collect_infos f entries = Inl (projl (hd (filter isl entries)))"
proof (induction entries)
  case (Cons a entries)
  then show ?case by (cases a) auto
qed simp

text \<open>C39: Looking for devices finds every hidpin node of \<open>/sys/class/hidraw\<close> once, and nothing else. A
  node is an entry whose name starts with hidraw, whose \<open>HID_ID\<close> is a bus, a vendor id and a
  product id in hexadecimal, the ids being the wanted ones (0 wants any), and whose report
  descriptor has the usage page 0xFF00 and usage 1, or no page, as when it cannot be read. Each
  is listed with its path under \<open>/dev\<close>, its serial number, manufacturer and product, in the order of
  serial number and path. If the directory or an entry cannot be read, the answer is the first
  such error. Names of files have no slash.\<close>

theorem devices_found:
  assumes "\<And>entries name. fs_read_dir F ''/sys/class/hidraw'' = Inr entries \<Longrightarrow> Inr name \<in> set entries \<Longrightarrow>
    CHR ''/'' \<notin> set name"
  shows "case fs_read_dir F ''/sys/class/hidraw'' of
      Inl x \<Rightarrow> find_devices_with F vendor product_id = Inl (Io x)
    | Inr entries \<Rightarrow>
        if list_all (\<lambda>e. \<not> isl e) entries
        then \<exists>es. find_devices_with F vendor product_id = Inr es \<and> sorted (map entry_key es) \<and>
          mset es = mset (map (node_entry F) (filter (wanted_node F vendor product_id) (map projr entries)))
        else find_devices_with F vendor product_id = Inl (Io (projl (hd (filter isl entries))))"
proof (cases "fs_read_dir F ''/sys/class/hidraw''")
  case (Inr entries)
  show ?thesis
  proof (cases "list_all (\<lambda>e. \<not> isl e) entries")
    case True
    then have "Inr (projr e) = e" if "e \<in> set entries" for e
      using that by (cases e) (force simp: list_all_iff)+
    then have names: "map Inr (map projr entries) = entries" by (simp add: comp_def map_idI)
    then have "list_all (\<lambda>name. CHR ''/'' \<notin> set name) (map projr entries)"
      using assms [OF Inr] by (metis (no_types, lifting) imageI list.set_map list_all_iff)
    note entries = listed_entries [OF this, of F vendor product_id]
    have "collect_infos f entries = Inr (List.map_filter f (map projr entries))" for f
      using collect_infos_names [of f "map projr entries"] names by simp
    then show ?thesis
      using True Inr arg_cong [OF entries, of mset]
      by (auto simp: find_devices_with_def enumerate_in_def mset_filter)
  next
    case False
    then show ?thesis using Inr collect_first_error [OF False] by (simp add: find_devices_with_def enumerate_in_def)
  qed
qed (simp add: find_devices_with_def enumerate_in_def)

definition no_files :: files where
  "no_files = \<lparr>fs_read_dir = (\<lambda>_. Inr [Inr ''hidraw0'', Inr ''other'']), fs_text = (\<lambda>_. None),
     fs_bytes = (\<lambda>_. None), fs_canonical = (\<lambda>_. None)\<rparr>"

text \<open>A device is chosen only when the choice is clear: the first entry with the serial number
  asked for, or the only entry when none is asked for. Otherwise the error says whether there
  was none, or lists the serial numbers to choose from.\<close>

theorem choice_unambiguous:
  "choose_device es serial = (case serial of
     Some s \<Rightarrow> (case find (\<lambda>e. de_serial e = s) es of
       Some e \<Rightarrow> Inr e | None \<Rightarrow> Inl (DeviceNotFound (Some s)))
   | None \<Rightarrow> if length es = 1 then Inr (hd es) else if es = [] then Inl (DeviceNotFound None)
       else Inl (SeveralDevices (map de_serial es)))"
proof (cases serial)
  case None
  then show ?thesis by (cases es rule: remdups_adj.cases) (simp_all add: choose_device_def Let_def)
next
  case (Some s)
  have "find (\<lambda>e. de_serial e = s) es = (case filter (\<lambda>e. de_serial e = s) es of [] \<Rightarrow> None | e # _ \<Rightarrow> Some e)"
    by (induction es) auto
  then show ?thesis
    by (simp add: Some choose_device_def Let_def split: list.split)
qed

section \<open>USB ids\<close>

definition plain_char :: "char \<Rightarrow> bool" where
  "plain_char c \<longleftrightarrow> (let n = of_char c :: nat in 33 \<le> n \<and> n < 128)"

lemma plain_not_white:
  assumes "list_all plain_char s"
  shows "trim_left white_space n s = s" "trim_left (map rev white_space) n s = s"
proof -
  have "\<forall>w \<in> set white_space. w \<noteq> [] \<and> \<not> plain_char (hd w) \<and> \<not> plain_char (last w)"
    unfolding white_space_def plain_char_def by code_simp
  moreover have "strip_prefix w s = None" if "w \<noteq> []" "\<not> plain_char (hd w)" for w
    using that assms by (cases s; cases w) (auto simp: strip_prefix_def)
  ultimately have "find (\<lambda>w. strip_prefix w s \<noteq> None) white_space = None"
    "find (\<lambda>w. strip_prefix w s \<noteq> None) (map rev white_space) = None"
    by (auto simp: find_None_iff hd_rev)
  then show "trim_left white_space n s = s" "trim_left (map rev white_space) n s = s"
    by (cases n; simp)+
qed

lemma trim_plain: "list_all plain_char s \<Longrightarrow> trim s = s"
  by (simp add: trim_def Let_def plain_not_white list_all_iff)

text \<open>The text of a number in a base up to 16; in base 10 it is \<open>show_nat\<close>.\<close>

definition digit_text :: "nat \<Rightarrow> char" where
  "digit_text d = (if d < 10 then digit_char d else char_of (87 + d))"

fun show_radix :: "nat \<Rightarrow> nat \<Rightarrow> string" where
  "show_radix r n = (if r < 2 \<or> n < r then [digit_text n] else show_radix r (n div r) @ [digit_text (n mod r)])"

declare show_radix.simps [simp del]

definition number_char :: "char \<Rightarrow> bool" where
  "number_char c \<longleftrightarrow> (let n = of_char c :: nat in 48 \<le> n \<and> n \<le> 57 \<or> 97 \<le> n \<and> n \<le> 102)"

lemma digit_text: "d < 16 \<Longrightarrow> number_char (digit_text d)"
  "d < r \<Longrightarrow> r \<le> 16 \<Longrightarrow> digit_of r (digit_text d) = Some d"
  by (auto simp: digit_text_def digit_char_def number_char_def digit_of_def Let_def)

lemma show_radix_10: "show_radix 10 n = show_nat n"
proof (induction n rule: show_nat.induct)
  case (1 n)
  then show ?case
    by (subst show_radix.simps, subst show_nat.simps) (auto simp: digit_text_def)
qed

lemma digits_of_append: "digits_of r a (s @ t) = Option.bind (digits_of r a s) (\<lambda>b. digits_of r b t)"
  by (induction s arbitrary: a) (auto split: option.split)

lemma digits_of_show: "2 \<le> r \<Longrightarrow> r \<le> 16 \<Longrightarrow> digits_of r 0 (show_radix r n) = Some n"
proof (induction r n rule: show_radix.induct)
  case (1 r n)
  then show ?case
    by (subst show_radix.simps) (auto simp: digits_of_append digit_text)
qed

lemma show_radix_chars: "r \<le> 16 \<Longrightarrow> 2 \<le> r \<Longrightarrow> list_all number_char (show_radix r n) \<and> show_radix r n \<noteq> []"
proof (induction r n rule: show_radix.induct)
  case (1 r n)
  moreover have "n mod r < 16" using 1 by (metis mod_less_divisor order_less_le_trans zero_less_numeral)
  ultimately show ?case
    by (subst (1 2) show_radix.simps) (auto simp: digit_text)
qed

lemma number_no_prefix:
  assumes "list_all number_char s" "p \<noteq> []" "\<not> number_char (last p)"
  shows "strip_prefix p s = None"
proof -
  have "take (length p) s \<noteq> p"
    using assms by (metis in_set_takeD last_in_set list_all_iff)
  then show ?thesis by (simp add: strip_prefix_def)
qed

lemma parse_radix_show:
  assumes "2 \<le> r" "r \<le> 16"
  shows "parse_radix r k (show_radix r n) = (if n < 2 ^ k then Some n else None)"
  using show_radix_chars [OF assms(2,1), of n] digits_of_show [OF assms, of n]
    number_no_prefix [of "show_radix r n" "''+''"]
  by (simp add: parse_radix_def number_char_def)

lemma parse_id_text:
  "parse_id (show_nat n) = (if n < 2 ^ 64 then Some n else None)"
  "parse_id (''0x'' @ show_radix 16 n) = (if n < 2 ^ 64 then Some n else None)"
  using show_radix_chars [of 10 n] number_no_prefix [of "show_radix 10 n" "''0x''"]
    number_no_prefix [of "show_radix 10 n" "''0X''"] parse_radix_show [of 10 64 n] parse_radix_show [of 16 64 n]
  by (simp_all add: parse_id_def number_char_def strip_prefix_def show_radix_10)

text \<open>A USB id set as a decimal number, or as a hexadecimal one with the prefix 0x, is the id
  that is looked for, whatever its value up to 65535; a larger number is an error, and without
  the variable it is the default.\<close>

theorem usb_id_read:
  assumes "vars name = None \<or> vars name = Some (show_nat n) \<or> vars name = Some (''0x'' @ show_radix 16 n)"
  shows "case vars name of None \<Rightarrow> env_id vars name fallback = Inr fallback
    | Some _ \<Rightarrow> if n \<le> 0xFFFF then env_id vars name fallback = Inr (word_of_nat n)
        else \<exists>m. env_id vars name fallback = Inl (InvalidArgument m)"
proof (cases "vars name")
  case None
  then show ?thesis by (simp add: env_id_def or_default_def trim_def Let_def)
next
  case (Some raw)
  have plain: "number_char c \<Longrightarrow> plain_char c" for c by (auto simp: number_char_def plain_char_def Let_def)
  then have chars: "list_all plain_char (show_radix r k)" if "2 \<le> r" "r \<le> 16" for r k
    using show_radix_chars [of r k] that by (auto simp: list_all_iff)
  have raw: "list_all plain_char raw" "raw \<noteq> []" "parse_id raw = (if n < 2 ^ 64 then Some n else None)"
    using assms Some chars [of 10 n] chars [of 16 n] show_radix_chars [of 10 n] parse_id_text [of n]
    by (auto simp: show_radix_10 plain_char_def)
  then have "env_id vars name fallback = (case parse_id raw of
        Some value \<Rightarrow> if value \<le> 0xFFFF then Inr (word_of_nat value)
          else Inl (InvalidArgument (name @ '' is out of range for 16 bits: '' @ [quote_char] @ raw @ [quote_char]))
      | None \<Rightarrow> Inl (InvalidArgument (name @ '' is not a 16-bit number: '' @ [quote_char] @ raw @ [quote_char])))"
    by (simp add: env_id_def Some or_default_def trim_plain Let_def)
  then show ?thesis using Some raw(3) by simp
qed

theorem usb_id_read_witness:
  "env_id (\<lambda>_. Some (''0x'' @ show_radix 16 0x1209)) ''HIDPIN_VID'' 7 = Inr (word_of_nat 0x1209)"
  using usb_id_read [of "\<lambda>_. Some (''0x'' @ show_radix 16 0x1209)" "''HIDPIN_VID''" "0x1209" 7] by simp

text \<open>A sign that the host API document does not allow is accepted.\<close>

lemma plus_sign_accepted: "env_id (\<lambda>_. Some ''+7'') ''HIDPIN_PID'' 0x6870 = Inr 7"
proof -
  have "trim ''+7'' = ''+7''" by (rule trim_plain) (simp add: plain_char_def)
  then show ?thesis
    by (simp add: env_id_def or_default_def parse_id_def strip_prefix_def parse_radix_def digit_of_def Let_def)
qed

text \<open>Four entries, of which one is the wanted device: another has another product id, the third is
  a keyboard.\<close>

definition small_sysfs :: files where
  "small_sysfs = \<lparr>fs_read_dir = (\<lambda>_. Inr [Inr ''hidraw2'', Inr ''hidraw1'', Inr ''hidraw0'', Inr ''other'']),
     fs_text = map_of [(node_file ''hidraw0'' ''uevent'', ''HID_ID=0003:00001209:00006870''),
       (node_file ''hidraw1'' ''uevent'', ''HID_ID=0003:00001209:00006871''),
       (node_file ''hidraw2'' ''uevent'', ''HID_ID=0003:00001209:00006870''), (''/u/serial'', ''A1'')],
     fs_bytes = map_of [(node_file ''hidraw0'' ''report_descriptor'', [0x06, 0x00, 0xFF, 0x09, 0x01, 0xA1, 0x01]),
       (node_file ''hidraw2'' ''report_descriptor'', [0x05, 0x01, 0x09, 0x06, 0xA1, 0x01])],
     fs_canonical = (\<lambda>_. Some ''/u/i/h'')\<rparr>"

lemma small_sysfs_texts:
  "read_text small_sysfs (node_file ''hidraw0'' ''uevent'') = ''HID_ID=0003:00001209:00006870''"
  "read_text small_sysfs (node_file ''hidraw1'' ''uevent'') = ''HID_ID=0003:00001209:00006871''"
  "read_text small_sysfs (node_file ''hidraw2'' ''uevent'') = ''HID_ID=0003:00001209:00006870''"
  "read_text small_sysfs ''/u/serial'' = ''A1''" "read_text small_sysfs ''/u/manufacturer'' = []"
  "read_text small_sysfs ''/u/product'' = []"
  by (simp_all add: read_text_def small_sysfs_def node_file_def node_dir_def or_default_def trim_plain plain_char_def)

lemma small_sysfs_usages:
  "node_usage small_sysfs ''hidraw0'' = (0xFF00, 1)" "node_usage small_sysfs ''hidraw2'' = (1, 6)"
  by code_simp+

lemma small_sysfs_ids:
  "has_ids small_sysfs ''hidraw0'' vid pid \<longleftrightarrow> vid = 0x1209 \<and> pid = 0x6870"
  "has_ids small_sysfs ''hidraw1'' vid pid \<longleftrightarrow> vid = 0x1209 \<and> pid = 0x6871"
proof -
  have "uevent_field ''HID_ID=0003:00001209:00006870'' ''HID_ID'' = Some ''0003:00001209:00006870''"
    "uevent_field ''HID_ID=0003:00001209:00006871'' ''HID_ID'' = Some ''0003:00001209:00006871''"
    by code_simp+
  then have "hid_ids ''HID_ID=0003:00001209:00006870'' = Some (0x1209, 0x6870)"
    "hid_ids ''HID_ID=0003:00001209:00006871'' = Some (0x1209, 0x6871)"
    by (simp_all add: hid_ids_def parse_radix_def strip_prefix_def digit_of_def)
  then show "has_ids small_sysfs ''hidraw0'' vid pid \<longleftrightarrow> vid = 0x1209 \<and> pid = 0x6870"
    "has_ids small_sysfs ''hidraw1'' vid pid \<longleftrightarrow> vid = 0x1209 \<and> pid = 0x6871"
    by (auto simp: small_sysfs_texts simp flip: hid_ids_has_ids)
qed

lemma small_sysfs_wanted:
  "filter (wanted_node small_sysfs 0x1209 0x6870) [''hidraw2'', ''hidraw1'', ''hidraw0'', ''other''] = [''hidraw0'']"
  by (simp add: wanted_node_def small_sysfs_ids small_sysfs_usages)

lemma small_sysfs_entry:
  "node_entry small_sysfs ''hidraw0'' =
    \<lparr>de_path = ''/dev/hidraw0'', de_serial = ''A1'', de_manufacturer = [], de_product = []\<rparr>"
proof -
  have "usb_device_of small_sysfs d = ''/u''" for d
    by (simp add: usb_device_of_def small_sysfs_def path_parent_def or_default_def)
  moreover have "uevent_field ''HID_ID=0003:00001209:00006870'' ''HID_UNIQ'' = None"
    "uevent_field ''HID_ID=0003:00001209:00006870'' ''HID_NAME'' = None"
    by code_simp+
  ultimately show ?thesis
    by (simp add: node_entry_def node_field_def usb_text_def path_join_def small_sysfs_texts or_default_def)
qed

theorem devices_found_witness:
  "find_devices_with small_sysfs 0x1209 0x6870 =
    Inr [\<lparr>de_path = ''/dev/hidraw0'', de_serial = ''A1'', de_manufacturer = [], de_product = []\<rparr>]"
proof -
  have dir: "fs_read_dir small_sysfs ''/sys/class/hidraw'' = Inr [Inr ''hidraw2'', Inr ''hidraw1'', Inr ''hidraw0'', Inr ''other'']"
    by (simp add: small_sysfs_def)
  have "\<exists>es. find_devices_with small_sysfs 0x1209 0x6870 = Inr es \<and>
      mset es = mset (map (node_entry small_sysfs)
        (filter (wanted_node small_sysfs 0x1209 0x6870) [''hidraw2'', ''hidraw1'', ''hidraw0'', ''other'']))"
    using devices_found [of small_sysfs "0x1209" "0x6870"] unfolding dir by force
  then show ?thesis unfolding small_sysfs_wanted by (auto simp: small_sysfs_entry)
qed

section \<open>System calls\<close>

lemma take_small_word: "nr < 0x100 \<Longrightarrow> take_bit 8 nr = nr" for nr :: u64
  by (intro word_unat_eq_iff [THEN iffD2])
    (simp add: unsigned_take_bit_eq take_bit_nat_eq_self word_less_nat_alt)

lemma bit_type_H: "bit (0x48 :: u64) n \<longleftrightarrow> n = 3 \<or> n = 6"
proof -
  have "(0x48 :: u64) = set_bit 3 (set_bit 6 0)" by code_simp
  then show ?thesis by (simp only: bit_set_bit_iff bit_0_eq) auto
qed

lemma bit_small_nat: "sz < 2 ^ k \<Longrightarrow> bit sz n \<Longrightarrow> n < k" for sz :: nat
  by (metis bit_take_bit_iff take_bit_nat_eq_self)

lemma bit_small_word: "nr < 0x100 \<Longrightarrow> bit nr n \<Longrightarrow> n < 8" for nr :: u64
  by (metis bit_take_bit_iff take_small_word)

lemma bit_hid_ioc:
  assumes "sz < 2 ^ 14" "nr < 0x100"
  shows "bit (hid_ioc nr sz) n \<longleftrightarrow>
    n = 30 \<or> n = 31 \<or> 16 \<le> n \<and> n < 30 \<and> bit sz (n - 16) \<or> n = 11 \<or> n = 14 \<or> n < 8 \<and> bit nr n"
proof -
  have w: "IOC_WRITE OR IOC_READ = mask 2" unfolding IOC_WRITE_def IOC_READ_def by code_simp
  have p: "possible_bit TYPE(64 word) k \<longleftrightarrow> k < 64" for k by simp
  have "30 \<le> n \<and> n < 64 \<and> n - 30 < 64 \<and> n - 30 < 2 \<longleftrightarrow> n = 30 \<or> n = 31"
    "8 \<le> n \<and> n < 64 \<and> (n - 8 = 3 \<or> n - 8 = 6) \<longleftrightarrow> n = 11 \<or> n = 14" by auto
  moreover have "16 \<le> n \<and> n < 64 \<and> n - 16 < 64 \<and> bit sz (n - 16) \<longleftrightarrow> 16 \<le> n \<and> n < 30 \<and> bit sz (n - 16)"
    using bit_small_nat [OF assms(1), of "n - 16"] by auto
  moreover have "bit nr n \<longleftrightarrow> n < 8 \<and> bit nr n"
    using bit_small_word [OF assms(2), of n] by auto
  moreover have "bit (hid_ioc nr sz) n \<longleftrightarrow> (30 \<le> n \<and> n < 64 \<and> n - 30 < 64 \<and> n - 30 < 2) \<or>
      (16 \<le> n \<and> n < 64 \<and> n - 16 < 64 \<and> bit sz (n - 16)) \<or>
      (8 \<le> n \<and> n < 64 \<and> (n - 8 = 3 \<or> n - 8 = 6)) \<or> bit nr n"
    unfolding hid_ioc_def by (simp only: bit_or_iff bit_push_bit_iff bit_mask_iff bit_type_H bit_of_nat_iff w p conj_assoc disj_assoc)
  ultimately show ?thesis by argo
qed

lemma hid_ioc_parts:
  assumes "sz < 2 ^ 14" "nr < 0x100"
  shows "drop_bit 30 (hid_ioc nr sz) = mask 2" "take_bit 14 (drop_bit 16 (hid_ioc nr sz)) = word_of_nat sz"
    "take_bit 8 (drop_bit 8 (hid_ioc nr sz)) = 0x48" "take_bit 8 (hid_ioc nr sz) = nr"
proof -
  note bits = bit_drop_bit_eq bit_take_bit_iff bit_hid_ioc [OF assms] bit_mask_iff bit_of_nat_iff bit_type_H comp_apply
  show "drop_bit 30 (hid_ioc nr sz) = mask 2"
    by (intro bit_word_eqI) (simp only: bits, auto)
  show "take_bit 14 (drop_bit 16 (hid_ioc nr sz)) = word_of_nat sz"
    by (intro bit_word_eqI) (simp only: bits, auto dest: bit_small_nat [OF assms(1)])
  show "take_bit 8 (drop_bit 8 (hid_ioc nr sz)) = 0x48"
    by (intro bit_word_eqI) (simp only: bits, auto)
  show "take_bit 8 (hid_ioc nr sz) = nr"
    by (intro bit_word_eqI) (simp only: bits, auto dest: bit_small_word [OF assms(2)])
qed

text \<open>The ioctl numbers have the fields of the kernel's encoding for every report of less than
  16384 bytes: direction read and write, the length of the report, the type H and the number of
  the request; for the 64 byte reports they are the numbers of the kernel's header.\<close>

theorem ioctl_fields:
  assumes "sz < 2 ^ 14" "nr < 0x100"
  shows "drop_bit 30 (hid_ioc nr sz) = 3 \<and> take_bit 14 (drop_bit 16 (hid_ioc nr sz)) = word_of_nat sz \<and>
    take_bit 8 (drop_bit 8 (hid_ioc nr sz)) = 0x48 \<and> take_bit 8 (hid_ioc nr sz) = nr \<and>
    hidioc_s_feature 64 = 0xC0404806 \<and> hidioc_g_feature 64 = 0xC0404807 \<and> hidioc_g_input 64 = 0xC040480A"
proof -
  have "(mask 2 :: u64) = 3" by code_simp
  moreover have "hidioc_s_feature 64 = 0xC0404806" "hidioc_g_feature 64 = 0xC0404807" "hidioc_g_input 64 = 0xC040480A"
    unfolding hidioc_s_feature_def hidioc_g_feature_def hidioc_g_input_def hid_ioc_def IOC_WRITE_def IOC_READ_def
    by simp_all
  ultimately show ?thesis using hid_ioc_parts [OF assms] by simp
qed

theorem ioctl_fields_witness:
  "drop_bit 30 (hidioc_g_feature 64) = 3 \<and> take_bit 8 (hidioc_g_feature 64) = 7"
  using ioctl_fields [of 64 7] by (simp add: hidioc_g_feature_def)

section \<open>Reads of the watcher\<close>

lemma earliest_three:
  "earliest [a, b, c] = None \<longleftrightarrow> a = None \<and> b = None \<and> c = None"
  "earliest [a, b, c] = Some x \<Longrightarrow> Some y \<in> {a, b, c} \<Longrightarrow> x \<le> y"
  by (cases a; cases b; cases c; auto simp: earliest_def min_def split: if_splits)+

lemma since_mono: "x \<le> y \<Longrightarrow> since x t \<le> since y t"
  by (simp add: since_def less_eq_instant_def nat_mono)

lemma read_timeout_before:
  assumes "Some x \<in> {scan_at l, restore_at l, settle_at l}"
  shows "read_timeout l t \<le> max (from_millis 1) (since x t)"
proof -
  obtain y where "earliest [scan_at l, restore_at l, settle_at l] = Some y"
    using assms by (cases "earliest [scan_at l, restore_at l, settle_at l]") (auto simp: earliest_three)
  then show ?thesis
    using since_mono [OF earliest_three(2) [OF _ assms], of y t] by (auto simp: read_timeout_def)
qed

text \<open>C40: While a device is connected the thread neither spins nor sleeps long: each read of it waits
  at least one and at most 50 ms in the kernel, and never past a timer that is set, unless that
  timer is less than 1 ms away.\<close>

theorem reads_bounded:
  "1 \<le> poll_millis (Some (read_timeout l t)) \<and> poll_millis (Some (read_timeout l t)) \<le> 50 \<and>
    list_all (\<lambda>x. case x of None \<Rightarrow> True | Some x \<Rightarrow> read_timeout l t \<le> max (from_millis 1) (since x t))
      [scan_at l, restore_at l, settle_at l]"
proof -
  have "from_millis 1 \<le> read_timeout l t" "read_timeout l t \<le> from_millis 50"
    by (auto simp: read_timeout_def READ_POLL_def from_millis_def split: option.split)
  then have "1 \<le> read_timeout l t div 1000000" "read_timeout l t div 1000000 \<le> 50"
    by (simp_all add: from_millis_def)
  moreover have "case x of None \<Rightarrow> True | Some x \<Rightarrow> read_timeout l t \<le> max (from_millis 1) (since x t)"
    if "x \<in> {scan_at l, restore_at l, settle_at l}" for x
    using that read_timeout_before [of _ l t] by (cases x) simp_all
  ultimately show ?thesis by (simp add: poll_millis_def)
qed

end
