(* ===== verification/Watch_Absorb.thy ===== *)
theory Watch_Absorb
  imports Watch_Invariants
begin

text \<open>
  Absorbing a status report: what it tells and what it leaves known. \<open>absorb_Ret\<close> is the
  whole effect: it never fails, keeps the invariant, and afterwards the known ON/OFF is that
  of the report.
\<close>

section \<open>Absorbing a report\<close>

text \<open>What absorbing changes: events are appended and the known pins replaced.\<close>

definition told :: "event list \<Rightarrow> (u8, bool) btree \<Rightarrow> watch_loop \<Rightarrow> watch_loop" where
  "told es k l = l\<lparr>pending := pending l @ es, known := k\<rparr>"

lemma told_simps [simp]:
  "pending (told es k l) = pending l @ es" "known (told es k l) = k" "conn (told es k l) = conn l"
  "config (told es k l) = config l" "active_low (told es k l) = active_low l"
  "target (told es k l) = target l" "told es' k' (told es k l) = told (es @ es') k' l"
  "base_inv h p l \<Longrightarrow> base_inv h p (told es k l)"
  "scan_at (told es k l) = scan_at l" "restore_at (told es k l) = restore_at l"
  "settle_at (told es k l) = settle_at l" "last_restore (told es k l) = last_restore l"
  by (auto simp: told_def base_inv_def)

lemma told_self [simp]: "told [] (known l) l = l"
  by (simp add: told_def)

lemma told_known: "(told es k l)\<lparr>known := k'\<rparr> = told es k' l"
  and told_pending: "(told es k l)\<lparr>pending := pending l @ fs\<rparr> = told fs k l"
  and known_told: "l\<lparr>known := k\<rparr> = told [] k l"
  and pending_told: "l\<lparr>pending := pending l @ es\<rparr> = told es (known l) l"
  by (simp_all add: told_def)

text \<open>Whether LOW is ON for a pin, and whether a report shows it ON.\<close>

definition low_at :: "watch_loop \<Rightarrow> u8 \<Rightarrow> bool" where
  "low_at l g = (case map_of (active_low l) g of
     None \<Rightarrow> mode (config l ! unat g) = PullUp | Some low \<Rightarrow> low)"

definition on_at :: "watch_loop \<Rightarrow> status_report \<Rightarrow> u8 \<Rightarrow> bool" where
  "on_at l r g \<longleftrightarrow> sr_level r g \<noteq> low_at l g"

lemma low_at_told [simp]: "low_at (told es k l) = low_at l" "on_at (told es k l) r = on_at l r"
  by (auto simp: low_at_def on_at_def fun_eq_iff split: option.splits)

lemma active_low_of_Ret:
  assumes "wf_config (config l)" "unat g < 30"
  shows "active_low_of g l w = Ret (low_at l g) l w"
  using active_low_Some [OF assms, of "map_of (active_low l)"]
  by (simp add: active_low_of_def bind_def look_def or_panic_def low_at_def)

lemma inv0_wf: "base_inv h p l \<Longrightarrow> wf_config (config l)"
  by (simp add: base_inv_def)

lemma loop_on_off_Ret:
  assumes "wf_config (config l)"
  shows "\<exists>on. loop_on_off r l w = Ret on l w"
  using on_off_Some [OF assms, of "map_of (active_low l)" r "monitored r"]
  by (auto simp: loop_on_off_def bind_def look_def or_panic_def split: option.splits)

text \<open>The invariant while pins are being learned.\<close>

definition linv :: "event list \<Rightarrow> event list \<Rightarrow> (u8, bool) btree \<Rightarrow> watch_loop \<Rightarrow> bool" where
  "linv h p learned l \<longleftrightarrow> base_inv h p l \<and> known_ok (known l) \<and> conn_ok (conn l) \<and>
     learning (h @ pending l) learned (known l)"

lemma absorb_level_Ret:
  assumes "linv h p learned l" "unat g < 30" "map_of learned g = None"
  shows "\<exists>es learned'. absorb_level r g learned l w =
      Ret learned' (told es (bt_insert g (on_at l r g) (known l)) l) w \<and>
    linv h p learned' (told es (bt_insert g (on_at l r g) (known l)) l) \<and>
    (\<forall>g'. map_of learned' g' \<noteq> None \<longrightarrow> g' = g \<or> map_of learned g' \<noteq> None)"
proof -
  let ?on = "on_at l r g"
  let ?k = "bt_insert g ?on (known l)"
  have k: "known_ok ?k" using assms known_ok_insert by (simp add: linv_def)
  have i: "base_inv h p l" "conn_ok (conn l)" "learning (h @ pending l) learned (known l)"
    using assms by (auto simp: linv_def)
  note red = absorb_level_def bind_def also_do_def look_def change_def ret_def emit_def Let_def
    active_low_of_Ret [OF inv0_wf [OF i(1)] assms(2)] on_at_def
  show ?thesis
  proof (cases "map_of (known l) g")
    case None
    then show ?thesis
      using i k learning_new [OF i(3) None, of ?on]
      by (intro exI [of _ "[] :: event list"] exI [of _ "bt_insert g ?on learned"])
        (auto simp: red known_told linv_def)
  next
    case (Some was)
    show ?thesis
    proof (cases "was = ?on")
      case True
      then show ?thesis
        using i k Some learning_same [OF i(3), of g ?on]
        by (intro exI [of _ "[] :: event list"] exI [of _ learned]) (auto simp: red known_told linv_def)
    next
      case False
      let ?c = "\<lparr>oc_gpio = g, oc_on = ?on, oc_level = sr_level r g, oc_time = None,
        oc_device_us = None, oc_inferred = True\<rparr>"
      have "learning ((h @ pending l) @ [OnOffChange ?c]) learned ?k"
        using learning_change [OF i(3), of ?c] Some False assms(3) by auto
      then show ?thesis
        using i k Some False
        by (intro exI [of _ "[OnOffChange ?c]"] exI [of _ learned])
          (auto simp: red pending_told told_known linv_def change_event_def)
    qed
  qed
qed

lemma absorb_levels_Ret:
  assumes "linv h p learned l" "\<forall>g \<in> set gs. unat g < 30 \<and> map_of learned g = None" "distinct gs"
  shows "\<exists>es learned' k. absorb_levels r gs learned l w = Ret learned' (told es k l) w \<and>
    linv h p learned' (told es k l) \<and>
    (\<forall>g. map_of k g = (if g \<in> set gs then Some (on_at l r g) else map_of (known l) g)) \<and>
    (\<forall>g. map_of learned' g \<noteq> None \<longrightarrow> g \<in> set gs \<or> map_of learned g \<noteq> None)"
  using assms
proof (induction gs arbitrary: learned l)
  case Nil
  then show ?case
    by (intro exI [of _ "[] :: event list"] exI [of _ learned] exI [of _ "known l"]) (simp add: ret_def)
next
  case (Cons g gs)
  obtain es1 learned1 where 1: "absorb_level r g learned l w =
      Ret learned1 (told es1 (bt_insert g (on_at l r g) (known l)) l) w"
    "linv h p learned1 (told es1 (bt_insert g (on_at l r g) (known l)) l)"
    "\<forall>g'. map_of learned1 g' \<noteq> None \<longrightarrow> g' = g \<or> map_of learned g' \<noteq> None"
    using absorb_level_Ret [OF Cons.prems(1), of g r w] Cons.prems(2) by auto
  let ?l = "told es1 (bt_insert g (on_at l r g) (known l)) l"
  have "\<forall>g' \<in> set gs. unat g' < 30 \<and> map_of learned1 g' = None"
    using 1(3) Cons.prems by (metis distinct.simps(2) list.set_intros(2))
  then obtain es2 learned2 k where 2: "absorb_levels r gs learned1 ?l w = Ret learned2 (told es2 k ?l) w"
    "linv h p learned2 (told es2 k ?l)"
    "\<forall>g'. map_of k g' = (if g' \<in> set gs then Some (on_at ?l r g') else map_of (known ?l) g')"
    "\<forall>g'. map_of learned2 g' \<noteq> None \<longrightarrow> g' \<in> set gs \<or> map_of learned1 g' \<noteq> None"
    using Cons.IH [OF 1(2)] Cons.prems(3) by auto
  have "\<forall>g'. map_of learned2 g' \<noteq> None \<longrightarrow> g' \<in> set (g # gs) \<or> map_of learned g' \<noteq> None"
    using 1(3) 2(4) by (metis list.set_intros)
  moreover have "\<forall>g'. map_of k g' = (if g' \<in> set (g # gs) then Some (on_at l r g') else map_of (known l) g')"
    using 2(3) Cons.prems(3) by simp
  moreover have "absorb_levels r (g # gs) learned l w = Ret learned2 (told (es1 @ es2) k l) w"
    using 1(1) 2(1) by (simp add: bind_def)
  ultimately show ?case using 2(2) by (metis told_simps(7))
qed

context host
begin

lemma clock_at_Some:
  assumes "clock_ok c" "clk_cur c \<noteq> None"
  shows "\<exists>t w'. clock_at E c us w = Some (t, w')"
proof -
  obtain s where s: "best_sample c = Some s" "sample_ok s"
    using assms by (cases "clk_prev c"; cases "clk_cur c")
      (auto simp: best_sample_def clock_ok_def split: if_splits)
  have "uint us < 2 ^ 64" "uint (snd s) < 2 ^ 64" "0 \<le> uint us" "0 \<le> uint (snd s)"
    using uint_lt2p [of us] uint_lt2p [of "snd s"] by simp_all
  then have "\<bar>uint us - uint (snd s)\<bar> < 2 ^ 64" by linarith
  moreover have "at_ns (fst s) \<le> 2 ^ 62 * 1000000000" "0 \<le> at_ns (fst s)"
    using s(2) by (auto simp: sample_ok_def horizon_def)
  ultimately obtain at where at: "offset (fst s) (uint us - uint (snd s)) = Some at"
    "\<bar>at_ns at - at_ns (fst s)\<bar> \<le> 1000 * 2 ^ 64"
    using offset_ok by blast
  obtain t w1 where n: "e_now E w = (t, w1)" by force
  obtain u w2 where u: "e_wall E w1 = (u, w2)" by force
  show ?thesis
    using at s now_range [OF n] wall_range [OF u]
    by (auto simp: clock_at_def instant_at_def n u system_add_def in_time_range_def time_limit_def
        since_def horizon_def sample_ok_def)
qed

lemma event_time_Ret:
  assumes "conn l = Some c" "clock_ok (c_clock c)" "clk_cur (c_clock c) \<noteq> None"
  shows "\<exists>t w'. event_time E start l w = Ret t l w'"
proof (cases start)
  case None
  then show ?thesis by (simp add: event_time_def ret_def)
next
  case (Some us)
  then show ?thesis
    using clock_at_Some [OF assms(2,3), of us w] assms(1)
    by (auto simp: event_time_def bind_def the_conn_def)
qed

lemma absorb_event_Ret:
  assumes "loop_inv h p l" "conn l = Some c" "clk_cur (c_clock c) \<noteq> None"
  shows "\<exists>es k w'. absorb_event E us e l w = Ret () (told es k l) w' \<and> loop_inv h p (told es k l)"
proof (cases "map_of (known l) (ev_gpio e)")
  case None
  then show ?thesis using assms
    by (intro exI [of _ "[] :: event list"] exI [of _ "known l"]) (simp add: absorb_event_def bind_def look_def ret_def)
next
  case (Some was)
  have i: "base_inv h p l" "conn_ok (conn l)" "known_ok (known l)" "agrees (h @ pending l) (known l)"
    using assms by (auto simp: loop_inv_def)
  have g: "unat (ev_gpio e) < 30" using known_ok_keys [OF i(3) Some] .
  let ?on = "ev_level e \<noteq> low_at l (ev_gpio e)"
  have low: "active_low_of (ev_gpio e) l w = Ret (low_at l (ev_gpio e)) l w"
    using active_low_of_Ret [OF inv0_wf [OF i(1)] g] .
  define l1 where "l1 = (if ?on = was
    then told [change_event (ev_gpio e) (\<not> ?on) (\<not> ev_level e) None None True] (known l) l else l)"
  have "conn l1 = Some c" using assms(2) by (simp add: l1_def)
  then obtain t w' where t: "event_time E (start_us e us) l1 w = Ret t l1 w'"
    using event_time_Ret [OF _ inv_clock [OF assms(1,2)] assms(3)] by blast
  let ?k = "bt_insert (ev_gpio e) ?on (known l)"
  define es where "es = (if ?on = was
      then [change_event (ev_gpio e) (\<not> ?on) (\<not> ev_level e) None None True] else []) @
    [change_event (ev_gpio e) ?on (ev_level e) t (start_us e us) False]"
  have "absorb_event E us e l w = Ret () (told es ?k l) w'"
    using Some low t
    by (simp add: absorb_event_def bind_def look_def ret_def also_do_def emit_def change_def Let_def
        es_def l1_def pending_told told_known split: if_splits)
  moreover have "agrees ((h @ pending l) @ es) ?k"
  proof (cases "?on = was")
    case True
    then show ?thesis
      using Some agrees_two_changes [OF i(4), of "\<lparr>oc_gpio = ev_gpio e, oc_on = ?on,
          oc_level = ev_level e, oc_time = t, oc_device_us = start_us e us, oc_inferred = False\<rparr>"
        "\<lparr>oc_gpio = ev_gpio e, oc_on = (\<not> ?on), oc_level = (\<not> ev_level e), oc_time = None,
          oc_device_us = None, oc_inferred = True\<rparr>"]
      by (simp add: es_def change_event_def)
  next
    case False
    then show ?thesis
      using Some agrees_change [OF i(4), of "\<lparr>oc_gpio = ev_gpio e, oc_on = ?on, oc_level = ev_level e,
        oc_time = t, oc_device_us = start_us e us, oc_inferred = False\<rparr>"]
      by (auto simp: es_def change_event_def)
  qed
  ultimately show ?thesis
    using i known_ok_insert [OF i(3) g] by (intro exI [of _ es] exI [of _ ?k] exI [of _ w'])
      (auto simp: loop_inv_def)
qed

lemma absorb_events_Ret:
  assumes "loop_inv h p l" "conn l = Some c" "clk_cur (c_clock c) \<noteq> None"
  shows "\<exists>es k w'. absorb_events E us evs l w = Ret () (told es k l) w' \<and> loop_inv h p (told es k l)"
  using assms
proof (induction evs arbitrary: l w)
  case Nil
  then show ?case by (intro exI [of _ "[] :: event list"] exI [of _ "known l"]) (simp add: ret_def)
next
  case (Cons e evs)
  obtain es1 k1 w1 where 1: "absorb_event E us e l w = Ret () (told es1 k1 l) w1" "loop_inv h p (told es1 k1 l)"
    using absorb_event_Ret [OF Cons.prems] by blast
  obtain es2 k2 w2 where "absorb_events E us evs (told es1 k1 l) w1 =
      Ret () (told es2 k2 (told es1 k1 l)) w2" "loop_inv h p (told es2 k2 (told es1 k1 l))"
    using Cons.IH [OF 1(2), of w1] Cons.prems by auto
  then show ?case using 1
    by (intro exI [of _ "es1 @ es2"] exI [of _ k2] exI [of _ w2]) (simp add: also_do_def bind_def)
qed

text \<open>Absorbing a report makes the known ON/OFF that of the report.\<close>

lemma absorb_Ret:
  assumes "loop_inv h p l" "conn l = Some c" "clk_cur (c_clock c) \<noteq> None"
  shows "\<exists>es k w'. absorb E r l w = Ret () (told es k l) w' \<and> loop_inv h p (told es k l) \<and>
    (\<forall>g. map_of k g = (if unat g < 30 \<and> sr_is_monitored r g then Some (on_at l r g) else None))"
proof -
  obtain es1 k1 w1 where 1: "absorb_events E (timestamp_us r) (events r) l w = Ret () (told es1 k1 l) w1"
    "loop_inv h p (told es1 k1 l)"
    using absorb_events_Ret [OF assms] by blast
  let ?l = "told es1 k1 l" and ?gs = "mask_to_gpios (monitored r)"
  have "linv h p [] ?l" using 1(2) learning_start by (auto simp: loop_inv_def linv_def)
  moreover have "\<forall>g \<in> set ?gs. unat g < 30 \<and> map_of [] g = (None :: bool option)"
    by (simp add: set_mask_to_gpios)
  ultimately obtain es2 learned k where 2: "absorb_levels r ?gs [] ?l w1 = Ret learned (told es2 k ?l) w1"
    "linv h p learned (told es2 k ?l)"
    "\<forall>g. map_of k g = (if g \<in> set ?gs then Some (on_at ?l r g) else map_of (known ?l) g)"
    "\<forall>g. map_of learned g \<noteq> None \<longrightarrow> g \<in> set ?gs \<or> map_of ([] :: (u8, bool) btree) g \<noteq> None"
    using absorb_levels_Ret [of h p "[]" ?l ?gs r w1] distinct_mask_to_gpios by blast
  let ?k = "bt_retain (sr_is_monitored r) k"
  define es where "es = (if learned = [] then [] else [InitialOnOff learned])"
  have mon: "g \<in> set ?gs \<longleftrightarrow> unat g < 30 \<and> sr_is_monitored r g" for g
    by (auto simp: set_mask_to_gpios sr_is_monitored_def)
  have "absorb E r l w = Ret () (told (es1 @ es2 @ es) ?k l) w1"
    using 1(1) 2(1) by (simp add: absorb_def also_do_def bind_def change_def emit_def ret_def es_def
        told_known) (simp add: told_def)
  moreover have "agrees (h @ pending (told (es1 @ es2 @ es) ?k l)) ?k"
    using learning_end [of "h @ pending (told es2 k ?l)" learned k "sr_is_monitored r"] 2(2,4) mon
    by (auto simp: linv_def es_def split: if_splits)
  moreover have "known_ok k1" "known_ok k" "base_inv h p l" "conn_ok (conn l)"
    using 1(2) 2(2) assms(1) by (auto simp: loop_inv_def linv_def)
  moreover have "map_of ?k g = (if unat g < 30 \<and> sr_is_monitored r g then Some (on_at l r g) else None)" for g
    using 2(3) mon [of g] known_ok_keys [of k1 g] \<open>known_ok k1\<close>
    by (cases "map_of k1 g") auto
  ultimately show ?thesis
    by (intro exI [of _ "es1 @ es2 @ es"] exI [of _ ?k] exI [of _ w1])
      (auto simp: loop_inv_def known_ok_retain)
qed

end

end
