(* ===== verification/Watch_Keeps.thy ===== *)
theory Watch_Keeps
  imports Watch_Absorb
begin

text \<open>
  Every operation of the watcher thread keeps the invariant, whether it returns or stops the
  watcher, and none panics: losing and restoring, status reports, and the target.
\<close>

section \<open>Every operation keeps the invariant\<close>

text \<open>With a connection, the clock has a sample: true from the first report on.\<close>

definition sampled :: "watch_loop \<Rightarrow> bool" where
  "sampled l \<longleftrightarrow> (\<forall>c. conn l = Some c \<longrightarrow> clk_cur (c_clock c) \<noteq> None)"

lemma sampled_simps [simp]:
  "sampled (l\<lparr>conn := None\<rparr>)"
  "sampled (l\<lparr>conn := Some c\<rparr>) \<longleftrightarrow> clk_cur (c_clock c) \<noteq> None"
  by (simp_all add: sampled_def)

lemma sampled_irrelevant [simp]:
  "sampled (l\<lparr>failure := y1\<rparr>) = sampled l"
  "sampled (l\<lparr>failures := y2\<rparr>) = sampled l"
  "sampled (l\<lparr>wl_serial := y3\<rparr>) = sampled l"
  "sampled (l\<lparr>wl_info := y4\<rparr>) = sampled l"
  "sampled (l\<lparr>ever_connected := y5\<rparr>) = sampled l"
  "sampled (l\<lparr>restore_count := y6\<rparr>) = sampled l"
  "sampled (l\<lparr>last_restore := y7\<rparr>) = sampled l"
  "sampled (l\<lparr>scan_at := y8\<rparr>) = sampled l"
  "sampled (l\<lparr>restore_at := y9\<rparr>) = sampled l"
  "sampled (l\<lparr>settle_at := y10\<rparr>) = sampled l"
  "sampled (l\<lparr>pending := y11\<rparr>) = sampled l"
  "sampled (l\<lparr>known := y12\<rparr>) = sampled l"
  "sampled (l\<lparr>config := y13\<rparr>) = sampled l"
  "sampled (l\<lparr>target := y14\<rparr>) = sampled l"
  by (simp_all add: sampled_def)

lemma sampled_None: "conn l = None \<Longrightarrow> sampled l"
  by (simp add: sampled_def)

lemma sampled_Some: "conn l = Some c \<Longrightarrow> sampled l \<longleftrightarrow> clk_cur (c_clock c) \<noteq> None"
  by (simp add: sampled_def)

lemma sampled_conn: "conn l' = conn l \<Longrightarrow> sampled l' = sampled l"
  by (simp add: sampled_def)

abbreviation keeps_sample :: "watch_loop \<Rightarrow> 'a \<Rightarrow> watch_loop \<Rightarrow> bool" where
  "keeps_sample l \<equiv> (\<lambda>_ l'. sampled l \<longrightarrow> sampled l')"

abbreviation anything :: "'a \<Rightarrow> watch_loop \<Rightarrow> bool" where
  "anything \<equiv> (\<lambda>_ _. True)"

lemma keeps_any: "keeps Q h p r \<Longrightarrow> keeps anything h p r"
  by (erule keeps_mono) simp

lemma keeps_if: "(b \<Longrightarrow> keeps Q h p (m l w)) \<Longrightarrow> (\<not> b \<Longrightarrow> keeps Q h p (n l w)) \<Longrightarrow>
    keeps Q h p ((if b then m else n) l w)"
  by simp

lemma keeps_ignore_fatal: "keeps Q h p (m l w) \<Longrightarrow> keeps anything h p (ignore_fatal m l w)"
  unfolding keeps_def wp_ignore_fatal by (erule wp_mono) auto

lemma keeps_set_config:
  assumes "loop_inv h p l" "wf_config new"
  shows "keeps (\<lambda>_ l'. conn l' = conn l \<and> target l' = target l \<and> config l' = new) h p
    (set_config new l w)"
proof -
  have "list_all (\<lambda>g. unat g < length new \<and> unat g < length (config l)) (bt_keys (known l))"
    using assms by (auto simp: loop_inv_def base_inv_def known_ok_def wf_config_length list_all_iff)
  then show ?thesis
    using assms agrees_retain known_ok_retain
    by (auto simp: set_config_def keeps_def loop_inv_def base_inv_def)
qed

lemma keeps_drop_connection:
  "loop_inv h p l \<Longrightarrow> keeps (\<lambda>_ l'. conn l' = None) h p (drop_connection E l w)"
  by (auto simp: drop_connection_def keeps_def intro: inv_conn split: option.split)

lemma keeps_reset_failures: "loop_inv h p l \<Longrightarrow> keeps (\<lambda>_ l'. conn l' = conn l) h p (reset_failures l w)"
  by (simp add: reset_failures_def keeps_change)

lemma keeps_failed: "loop_inv h p l \<Longrightarrow> keeps (\<lambda>_ l'. conn l' = conn l) h p (failed e l w)"
  by (simp add: failed_def keeps_def wp_rules inv_emit)

lemma keeps_suspend_event: "loop_inv h p l \<Longrightarrow> keeps (\<lambda>_ l'. conn l' = conn l) h p (suspend_event r l w)"
  by (simp add: suspend_event_def keeps_def wp_rules inv_emit)

lemma keeps_outputs_event:
  "loop_inv h p l \<Longrightarrow> keeps (\<lambda>_ l'. conn l' = conn l) h p (outputs_event found driven re l w)"
  by (simp add: outputs_event_def keeps_def wp_rules inv_emit)

text \<open>Reading the configuration with \<open>on_device\<close>, and what follows with a valid report.\<close>

lemma keeps_read_config:
  assumes "loop_inv h p l" "conn l = Some c"
    and "\<And>e l' w'. loop_inv h p l' \<Longrightarrow> keeps_sample l () l' \<Longrightarrow> conn l' \<noteq> None \<Longrightarrow> target l' = target l \<Longrightarrow>
      keeps Q h p (f (Inl e) l' w')"
    and "\<And>r l' w'. loop_inv h p l' \<Longrightarrow> keeps_sample l () l' \<Longrightarrow> conn l' \<noteq> None \<Longrightarrow> target l' = target l \<Longrightarrow>
      wf_config (pcr_config r) \<Longrightarrow> keeps Q h p (f (Inr r) l' w')"
  shows "keeps Q h p (bind (on_device (get_pin_config E)) f l w)"
proof (rule keeps_bind [where R = "\<lambda>x l'. (case x of Inl _ \<Rightarrow> True | Inr r \<Rightarrow> wf_config (pcr_config (r :: pin_config_report))) \<and> keeps_sample l () l' \<and>
        conn l' \<noteq> None \<and> target l' = target l"])
  show "keeps (\<lambda>x l'. (case x of Inl _ \<Rightarrow> True | Inr r \<Rightarrow> wf_config (pcr_config (r :: pin_config_report))) \<and>
      keeps_sample l () l' \<and> conn l' \<noteq> None \<and> target l' = target l) h p
    (on_device (get_pin_config E) l w)"
  proof (rule keeps_on_device [OF assms(1,2)])
  fix r d w'
  assume "get_pin_config E (c_device c) w = (r, d, w')"
  then show "(case r of Inl _ \<Rightarrow> True | Inr r \<Rightarrow> wf_config (pcr_config r)) \<and>
      keeps_sample l () (l\<lparr>conn := Some (c\<lparr>c_device := d\<rparr>)\<rparr>) \<and>
      conn (l\<lparr>conn := Some (c\<lparr>c_device := d\<rparr>)\<rparr>) \<noteq> None \<and>
      target (l\<lparr>conn := Some (c\<lparr>c_device := d\<rparr>)\<rparr>) = target l"
    using get_pin_config_Inr [of E "c_device c" w] assms(2) sampled_Some [OF assms(2)] by (cases r) auto
  qed
next
  fix x :: "pin_config_report result" and l' w'
  assume "loop_inv h p l'" "(case x of Inl _ \<Rightarrow> True | Inr r \<Rightarrow> wf_config (pcr_config r)) \<and>
      keeps_sample l () l' \<and> conn l' \<noteq> None \<and> target l' = target l"
  then show "keeps Q h p (f x l' w')" using assms(3,4) by (cases x) auto
qed

lemma keeps_device_op:
  assumes "loop_inv h p l" "conn l = Some c"
    and "\<And>x l' w'. loop_inv h p l' \<Longrightarrow> keeps_sample l () l' \<Longrightarrow> conn l' \<noteq> None \<Longrightarrow> target l' = target l \<Longrightarrow>
      keeps Q h p (f x l' w')"
  shows "keeps Q h p (bind (on_device m) f l w)"
proof (rule keeps_bind [where R =
      "\<lambda>x l'. keeps_sample l () l' \<and> conn l' \<noteq> None \<and> target l' = target l"])
  show "keeps (\<lambda>x l'. keeps_sample l () l' \<and> conn l' \<noteq> None \<and> target l' = target l) h p (on_device m l w)"
    by (rule keeps_on_device [OF assms(1,2)]) (use assms(2) sampled_Some [OF assms(2)] in auto)
qed (use assms(3) in auto)

context host
begin

lemma keeps_now:
  assumes "loop_inv h p l" "\<And>t w'. 0 \<le> at_ns t \<Longrightarrow> at_ns t \<le> horizon \<Longrightarrow> keeps Q h p (f t l w')"
  shows "keeps Q h p (bind (now E) f l w)"
proof -
  obtain t w' where n: "e_now E w = (t, w')" by force
  then show ?thesis
    using assms(2) [of t w'] now_range [OF n] by (simp add: keeps_def wp_rules)
qed

lemma keeps_now_plus:
  assumes "loop_inv h p l" "int d \<le> horizon" "\<And>t w'. keeps Q h p (f t l w')"
  shows "keeps Q h p (bind (now_plus E d) f l w)"
proof -
  obtain t w' where n: "e_now E w = (t, w')" by force
  have "instant_add t d = Some (Instant (at_ns t + int d))"
    using now_range [OF n] assms(2) by (simp add: instant_add_def in_time_range_def time_limit_def horizon_def)
  then show ?thesis
    using assms(3) [of "Instant (at_ns t + int d)" w'] n by (simp add: keeps_def now_plus_def wp_rules)
qed

lemma keeps_scan_later: "loop_inv h p l \<Longrightarrow> keeps (\<lambda>_ l'. conn l' = conn l) h p (scan_later E l w)"
  unfolding scan_later_def
  by (intro keeps_look_bind keeps_now_plus keeps_change) (auto simp: loop_inv_def base_inv_def)

lemma keeps_lost:
  assumes "loop_inv h p l"
  shows "keeps (\<lambda>_ l'. conn l' = None) h p (lost E e l w)"
proof (cases "conn l")
  case None
  then show ?thesis using assms by (simp add: lost_def keeps_def wp_rules)
next
  case (Some c)
  show ?thesis
    unfolding lost_def
  proof (intro keeps_look_bind, simp add: Some, rule keeps_also, rule keeps_drop_connection [OF assms])
    fix l w
    assume i: "loop_inv h p l" "conn l = None"
    show "keeps (\<lambda>_ l'. conn l' = None) h p (also_do (emit (Disconnected e)) (scan_later E) l w)"
    proof (rule keeps_also [where R = "\<lambda>_ l'. conn l' = None"])
      show "keeps (\<lambda>_ l'. conn l' = None) h p (emit (Disconnected e) l w)"
        using i by (auto intro: keeps_emit)
    next
      fix l w
      assume "loop_inv h p l" "conn l = None"
      then show "keeps (\<lambda>_ l'. conn l' = None) h p (scan_later E l w)"
        using keeps_scan_later [of h p l w] by (auto intro: keeps_mono)
    qed
  qed
qed

lemma keeps_lost_any [simp]:
  "loop_inv h p l \<Longrightarrow> keeps (keeps_sample l0) h p (lost E e l w)"
  "loop_inv h p l \<Longrightarrow> keeps anything h p (lost E e l w)"
  by (erule keeps_lost [THEN keeps_mono], simp add: sampled_None)+

lemma keeps_restore_later:
  "loop_inv h p l \<Longrightarrow> int d \<le> horizon \<Longrightarrow> keeps (\<lambda>_ l'. conn l' = conn l) h p (restore_later E d l w)"
  unfolding restore_later_def by (intro keeps_now_plus keeps_change) auto

lemma small_durations [simp]:
  "int RESTORE_INTERVAL \<le> horizon" "int SETTLE_TIMEOUT \<le> horizon"
  "int (RESTORE_INTERVAL - d) \<le> horizon" "int RESTORE_INTERVAL - int d \<le> horizon"
  by (simp_all add: RESTORE_INTERVAL_def SETTLE_TIMEOUT_def from_secs_def horizon_def)

lemma keeps_restore_later_any:
  assumes "loop_inv h p l" "int d \<le> horizon" "sampled l0 \<longrightarrow> sampled l"
  shows "keeps (keeps_sample l0) h p (restore_later E d l w)"
  by (rule keeps_restore_later [OF assms(1,2), THEN keeps_mono]) (use assms(3) sampled_conn in blast)

lemma keeps_wrote:
  assumes "loop_inv h p l" "wf_config new"
  shows "keeps (keeps_sample l) h p (wrote E found new l w)"
  unfolding wrote_def
proof (rule keeps_also, rule keeps_set_config [OF assms])
  fix l1 w
  assume l1: "loop_inv h p l1" "conn l1 = conn l \<and> target l1 = target l \<and> config l1 = new"
  let ?l2 = "l1\<lparr>conn := map_option (\<lambda>c. c\<lparr>awaiting_config := True\<rparr>) (conn l1)\<rparr>"
  have l2: "loop_inv h p ?l2" "sampled ?l2 = sampled l"
    using l1 by (auto simp: sampled_def conn_ok_def loop_inv_def option.pred_map comp_def intro!: inv_conn)
  show "keeps (keeps_sample l) h p (also_do (change (\<lambda>l. l\<lparr>conn := map_option (\<lambda>c. c\<lparr>awaiting_config := True\<rparr>) (conn l)\<rparr>))
      (bind (now_plus E SETTLE_TIMEOUT) (\<lambda>t. also_do (change (\<lambda>l. l\<lparr>settle_at := Some t\<rparr>))
       (if driven_outputs found new \<noteq> []
        then emit (OutputsReset (driven_outputs found new) PinConfigWrite) else ret ()))) l1 w)"
    using l2 by (intro keeps_change_also keeps_now_plus keeps_if keeps_emit keeps_ret)
      (auto simp: sampled_def)
qed

lemma keeps_restore_over:
  assumes "loop_inv h p l" "conn l \<noteq> None" "wf_config found" "wf_config tgt"
  shows "keeps (keeps_sample l) h p (restore_over E tgt found l w)"
  unfolding restore_over_def
proof (rule keeps_also, rule keeps_set_config [OF assms(1,3)], rule keeps_if)
  fix l1 and w :: 'w
  assume l1: "loop_inv h p l1" "conn l1 = conn l \<and> target l1 = target l \<and> config l1 = found"
  then show "keeps (keeps_sample l) h p (ret () l1 w)" by (auto intro: keeps_ret simp: sampled_def)
  obtain c where c: "conn l1 = Some c" using assms(2) l1 by auto
  show "keeps (keeps_sample l) h p (bind (on_device (set_pin_config E tgt)) (\<lambda>r. case r of
        Inl e \<Rightarrow> if is_rejected e then fatal e
          else if is_conflict e then restore_later E RESTORE_INTERVAL
          else lost E e
      | Inr _ \<Rightarrow>
          also_do (change (\<lambda>l. l\<lparr>restore_count := restore_count l + 1\<rparr>))
          (bind (look restore_count) (\<lambda>count.
           also_do (emit (PinConfigRestored found count))
            (wrote E found tgt)))) l1 w)"
  proof (rule keeps_device_op [OF l1(1) c])
    fix x l2 w
    assume l2: "loop_inv h p l2" "keeps_sample l1 () l2" "conn l2 \<noteq> None"
    then have s: "sampled l \<longrightarrow> sampled l2" using l1 sampled_conn by blast
    show "keeps (keeps_sample l) h p ((case x of
        Inl e \<Rightarrow> if is_rejected e then fatal e
          else if is_conflict e then restore_later E RESTORE_INTERVAL
          else lost E e
      | Inr _ \<Rightarrow>
          also_do (change (\<lambda>l. l\<lparr>restore_count := restore_count l + 1\<rparr>))
          (bind (look restore_count) (\<lambda>count.
           also_do (emit (PinConfigRestored found count))
            (wrote E found tgt)))) l2 w)"
    proof (cases x)
      case (Inl e)
      then show ?thesis
        unfolding Inl sum.case
        by (intro keeps_if keeps_fatal keeps_lost_any keeps_restore_later_any)
          (use l2(1) s in \<open>simp_all add: stops_def\<close>)
    next
      case (Inr r)
      let ?l3 = "l2\<lparr>restore_count := restore_count l2 + 1\<rparr>"
      show ?thesis
        unfolding Inr sum.case
      proof (intro keeps_change_also keeps_look_bind, rule keeps_also [where R = "keeps_sample l"])
        show "keeps (keeps_sample l) h p (emit (PinConfigRestored found (restore_count ?l3)) ?l3 w)"
          using l2(1) s by (intro keeps_emit) simp_all
      next
        fix l4 w
        assume "loop_inv h p l4" "keeps_sample l () l4"
        then show "keeps (keeps_sample l) h p (wrote E found tgt l4 w)"
          using keeps_wrote [of h p l4 tgt found w] assms(4) by (auto elim: keeps_mono)
      qed
    qed
  qed
qed

lemma keeps_restore_target:
  assumes "loop_inv h p l"
  shows "keeps (keeps_sample l) h p (restore_target E l w)"
proof (cases "target l = None \<or> conn l = None")
  case True
  then show ?thesis
    using assms unfolding restore_target_def
    by (intro keeps_look_bind) (auto intro!: keeps_ret split: option.split)
next
  case False
  then obtain tgt c where tc: "target l = Some tgt" "conn l = Some c" by auto
  have tgt: "wf_config tgt" using inv_target [OF assms tc(1)] .
  show ?thesis
    unfolding restore_target_def
  proof (intro keeps_look_bind, simp only: tc prod.case option.case, intro keeps_change_also,
      rule keeps_now)
    show "loop_inv h p (l\<lparr>restore_at := None\<rparr>)" using assms by simp
    fix t w
    let ?l = "l\<lparr>restore_at := None, last_restore := Some t\<rparr>"
    have l: "loop_inv h p ?l" "conn ?l = Some c" "sampled ?l = sampled l" using assms tc by simp_all
    show "keeps (keeps_sample l) h p (also_do (change (\<lambda>l. l\<lparr>last_restore := Some t\<rparr>))
        (bind (on_device (get_pin_config E)) (\<lambda>r. case r of Inl e \<Rightarrow> lost E e
           | Inr report \<Rightarrow> restore_over E tgt (pcr_config report))) (l\<lparr>restore_at := None\<rparr>) w)"
    proof (intro keeps_change_also, rule keeps_read_config [OF l(1,2)])
      fix r l2 w
      assume "loop_inv h p l2" "keeps_sample ?l () l2" "conn l2 \<noteq> None" "wf_config (pcr_config r)"
      then show "keeps (keeps_sample l) h p ((case Inr r of Inl e \<Rightarrow> lost E e
           | Inr report \<Rightarrow> restore_over E tgt (pcr_config report)) l2 w)"
        using keeps_restore_over [of h p l2 "pcr_config r" tgt w] tgt l(3) by (auto elim: keeps_mono)
    qed simp
  qed
qed

end

section \<open>Reports, the target and connecting\<close>

context host
begin

lemma keeps_restore_target_any:
  "loop_inv h p l \<Longrightarrow> sampled l0 \<longrightarrow> sampled l \<Longrightarrow> keeps (keeps_sample l0) h p (restore_target E l w)"
  by (rule keeps_restore_target [THEN keeps_mono]) simp_all

lemma keeps_restore_or_wait:
  assumes "loop_inv h p l" "sampled l0 \<longrightarrow> sampled l"
  shows "keeps (keeps_sample l0) h p (restore_or_wait E l w)"
  unfolding restore_or_wait_def
proof (intro keeps_look_bind)
  show "keeps (keeps_sample l0) h p ((case last_restore l of None \<Rightarrow> restore_target E
     | Some last_t \<Rightarrow> bind (now E) (\<lambda>t. let elapsed = since t last_t in
         if elapsed < RESTORE_INTERVAL then restore_later E (RESTORE_INTERVAL - elapsed)
         else restore_target E)) l w)"
  proof (cases "last_restore l")
    case None
    then show ?thesis using assms by (simp add: keeps_restore_target_any)
  next
    case (Some t)
    show ?thesis
      unfolding Some option.case Let_def
      by (rule keeps_now [OF assms(1)], intro keeps_if keeps_restore_later_any keeps_restore_target_any)
        (use assms in simp_all)
  qed
qed

lemma keeps_config_changed:
  assumes "loop_inv h p l" "conn l \<noteq> None"
  shows "keeps (keeps_sample l) h p (config_changed E l w)"
proof -
  obtain c where c: "conn l = Some c" using assms(2) by auto
  show ?thesis
    unfolding config_changed_def
  proof (rule keeps_read_config [OF assms(1) c])
    fix r l1 w
    assume l1: "loop_inv h p l1" "keeps_sample l () l1" "wf_config (pcr_config r)"
    let ?new = "pcr_config r"
    have "keeps (keeps_sample l) h p (also_do (set_config ?new) (bind (look target) (\<lambda>t. case t of
        None \<Rightarrow> if changed then emit (PinConfigChanged ?new) else ret ()
      | Some tgt \<Rightarrow> if ?new = tgt then ret () else restore_or_wait E)) l1 w)" for changed
    proof (rule keeps_also, rule keeps_set_config [OF l1(1,3)], intro keeps_look_bind)
      fix l2 w
      assume l2: "loop_inv h p l2" "conn l2 = conn l1 \<and> target l2 = target l1 \<and> config l2 = ?new"
      then have s: "sampled l \<longrightarrow> sampled l2" using l1(2) sampled_conn by blast
      show "keeps (keeps_sample l) h p ((case target l2 of
          None \<Rightarrow> if changed then emit (PinConfigChanged ?new) else ret ()
        | Some tgt \<Rightarrow> if ?new = tgt then ret () else restore_or_wait E) l2 w)"
        by (cases "target l2")
          (use l2(1) s in \<open>simp_all add: keeps_emit keeps_ret keeps_restore_or_wait\<close>)
    qed
    then show "keeps (keeps_sample l) h p ((case Inr r of Inl e \<Rightarrow> lost E e
      | Inr report \<Rightarrow> bind (look (\<lambda>l. pcr_config report \<noteq> config l)) (\<lambda>changed.
         also_do (set_config (pcr_config report)) (bind (look target) (\<lambda>t. case t of
            None \<Rightarrow> if changed then emit (PinConfigChanged (pcr_config report)) else ret ()
          | Some tgt \<Rightarrow> if pcr_config report = tgt then ret () else restore_or_wait E)))) l1 w)"
      by (simp add: keeps_look_bind)
  qed simp
qed

lemma keeps_absorb:
  assumes "loop_inv h p l" "conn l = Some c" "clk_cur (c_clock c) \<noteq> None"
  shows "keeps anything h p (absorb E r l w)"
  using absorb_Ret [OF assms, of r w] by (auto simp: keeps_def)

lemma keeps_absorb_unless:
  assumes "loop_inv h p l" "conn l \<noteq> None" "sampled l"
  shows "keeps anything h p (absorb_unless E stale r l w)"
  unfolding absorb_unless_def
proof (intro keeps_look_bind keeps_if)
  show "keeps anything h p (ret () l w)" using assms by (simp add: keeps_ret)
  show "keeps anything h p (absorb E r l w)"
    using assms sampled_Some keeps_absorb by auto
qed

lemma keeps_status_step:
  assumes "loop_inv h p l" "conn l = Some c" "0 \<le> at_ns at" "at_ns at \<le> horizon"
  shows "keeps anything h p (status_step E r at missed l w)"
proof -
  obtain on where on: "loop_on_off r l w = Ret on l w"
    using loop_on_off_Ret [OF inv_wf [OF assms(1)], of r w] by auto
  obtain stale snap where st: "stale_after (snapshot_seq c) r = (stale, snap)" by force
  let ?c = "c\<lparr>c_clock := clock_add (c_clock c) at (timestamp_us r), snapshot_seq := snap\<rparr>"
  let ?news = "flags_contains (sr_reason r) CONFIG_CHANGED"
  define c2 where "c2 = (if ?news \<and> \<not> stale then ?c\<lparr>awaiting_config := False\<rparr> else ?c)"
  define l2 where "l2 = (if ?news \<and> \<not> stale then l\<lparr>conn := Some c2, settle_at := None\<rparr>
    else l\<lparr>conn := Some c2\<rparr>)"
  have ck: "clock_ok (c_clock c2)" "clk_cur (c_clock c2) \<noteq> None"
    using clock_ok_add [of "c_clock c" at "timestamp_us r"] inv_clock [OF assms(1,2)] assms(3,4)
      clock_add_cur [of "c_clock c" at "timestamp_us r"]
    by (auto simp: c2_def sample_ok_def)
  have l2: "loop_inv h p l2" "conn l2 = Some c2" "sampled l2"
    using inv_conn [OF assms(1), of "Some c2"] ck by (auto simp: l2_def)
  define rest where "rest = (if ?news
      then also_do (config_changed E)
        (bind (look conn) (\<lambda>c. if c = None then ret () else absorb_unless E stale r))
      else absorb_unless E stale r)"
  have "status_step E r at missed l w =
      also_do (emit (StatusReceived r missed on)) (also_do (suspend_event r) rest) l2 w"
  proof -
    define clear where "clear = (if ?news \<and> \<not> stale
         then also_do (change_conn (\<lambda>c. c\<lparr>awaiting_config := False\<rparr>))
           (change (\<lambda>l. l\<lparr>settle_at := None\<rparr>)) else ret () :: ('w, unit) loop_op)"
    have "status_step E r at missed l w = also_do (change_conn (\<lambda>c. c\<lparr>c_clock :=
        clock_add (c_clock c) at (timestamp_us r), snapshot_seq := snap\<rparr>)) (also_do clear
        (also_do (emit (StatusReceived r missed on)) (also_do (suspend_event r) rest))) l w"
      unfolding status_step_def bind_Ret [of "loop_on_off r", OF on]
        bind_Ret [of the_conn, OF the_conn_Ret [OF assms(2)]] st
        prod.case Let_def clear_def rest_def ..
    also have "\<dots> = also_do clear (also_do (emit (StatusReceived r missed on))
        (also_do (suspend_event r) rest)) (l\<lparr>conn := Some ?c\<rparr>) w"
      by (rule also_Ret, rule change_conn_Ret, rule assms(2))
    finally have 1: "status_step E r at missed l w = also_do clear (also_do (emit (StatusReceived r missed on))
        (also_do (suspend_event r) rest)) (l\<lparr>conn := Some ?c\<rparr>) w" .
    have "clear (l\<lparr>conn := Some ?c\<rparr>) w = Ret () l2 w"
    proof (cases "?news \<and> \<not> stale")
      case True
      then have "clear = also_do (change_conn (\<lambda>c. c\<lparr>awaiting_config := False\<rparr>))
          (change (\<lambda>l. l\<lparr>settle_at := None\<rparr>))"
        and "l2 = l\<lparr>conn := Some (?c\<lparr>awaiting_config := False\<rparr>), settle_at := None\<rparr>"
        unfolding clear_def l2_def c2_def if_P [OF True] by simp_all
      then show ?thesis by (simp add: also_do_def bind_def change_conn_def change_def)
    next
      case False
      then have "clear = ret ()" "l2 = l\<lparr>conn := Some ?c\<rparr>"
        unfolding clear_def l2_def c2_def if_not_P [OF False] by simp_all
      then show ?thesis by (simp add: ret_def)
    qed
    then show ?thesis unfolding 1 by (rule also_Ret)
  qed
  moreover have "keeps anything h p (also_do (emit (StatusReceived r missed on))
      (also_do (suspend_event r) rest) l2 w)"
  proof (rule keeps_also [where R = "\<lambda>_ l'. conn l' = conn l2"])
    show "keeps (\<lambda>_ l'. conn l' = conn l2) h p (emit (StatusReceived r missed on) l2 w)"
      using l2 by (auto intro: keeps_emit)
  next
    fix l3 w
    assume l3: "loop_inv h p l3" "conn l3 = conn l2"
    show "keeps anything h p (also_do (suspend_event r) rest l3 w)"
    proof (rule keeps_also, rule keeps_suspend_event [OF l3(1)])
      fix l4 w
      assume l4: "loop_inv h p l4" "conn l4 = conn l3"
      then have c4: "conn l4 \<noteq> None" "sampled l4" using l3 l2 sampled_conn by (metis option.distinct(1))+
      have "keeps anything h p (also_do (config_changed E)
          (bind (look conn) (\<lambda>c. if c = None then ret () else absorb_unless E stale r)) l4 w)"
      proof (rule keeps_also, rule keeps_config_changed [OF l4(1) c4(1)], intro keeps_look_bind keeps_if)
        fix l5 and w :: 'w
        assume l5: "loop_inv h p l5" "keeps_sample l4 () l5"
        show "keeps anything h p (ret () l5 w)" using l5 by (simp add: keeps_ret)
        show "keeps anything h p (absorb_unless E stale r l5 w)" if "conn l5 \<noteq> None"
          using keeps_absorb_unless [OF l5(1) that] l5(2) c4(2) by simp
      qed
      then show "keeps anything h p (rest l4 w)"
        using keeps_absorb_unless [OF l4(1) c4] by (simp add: rest_def)
    qed
  qed
  ultimately show ?thesis by simp
qed

lemma keeps_received:
  assumes "loop_inv h p l" "conn l = Some c" "0 \<le> at_ns at" "at_ns at \<le> horizon"
  shows "keeps anything h p (received E data at l w)"
proof (cases "decode_status (take REPORT_PAYLOAD_LEN (drop 1 data))")
  case (Inl e)
  then show ?thesis using assms by (simp add: received_def keeps_ret)
next
  case (Inr r)
  have "keeps anything h p (status_step E r at missed (l\<lparr>conn := Some (c\<lparr>c_last_seq := Some (seq r)\<rparr>)\<rparr>) w)" for missed
    using inv_conn [OF assms(1), of "Some (c\<lparr>c_last_seq := Some (seq r)\<rparr>)"] inv_clock [OF assms(1,2)] assms(3,4)
    by (intro keeps_status_step) auto
  then show ?thesis
    using Inr assms by (simp add: received_def keeps_ret bind_def the_conn_def also_do_def change_conn_def Let_def)
qed

lemma keeps_snapshot:
  assumes "loop_inv h p l" "conn l \<noteq> None"
  shows "keeps anything h p (snapshot E l w)"
proof -
  obtain c where c: "conn l = Some c" using assms(2) by auto
  show ?thesis
    unfolding snapshot_def
  proof (rule keeps_device_op [OF assms(1) c])
    fix x l1 w
    assume l1: "loop_inv h p l1" "conn l1 \<noteq> None"
    show "keeps anything h p ((case x of Inl e \<Rightarrow> lost E e
       | Inr report \<Rightarrow>
           also_do (change_conn (\<lambda>c. c\<lparr>snapshot_seq :=
               (if seq report \<noteq> 0 \<and> \<not> more_events report then Some (seq report) else None)\<rparr>))
           (bind (now E) (\<lambda>t. ignore_fatal (status_step E report t 0)))) l1 w)"
    proof (cases x)
      case (Inl e)
      then show ?thesis using l1 by simp
    next
      case (Inr r)
      obtain c1 where c1: "conn l1 = Some c1" using l1 by auto
      let ?c = "c1\<lparr>snapshot_seq := (if seq r \<noteq> 0 \<and> \<not> more_events r then Some (seq r) else None)\<rparr>"
      have i: "loop_inv h p (l1\<lparr>conn := Some ?c\<rparr>)"
        using inv_conn [OF l1(1), of "Some ?c"] inv_clock [OF l1(1) c1] by simp
      have "keeps anything h p (bind (now E) (\<lambda>t. ignore_fatal (status_step E r t 0)) (l1\<lparr>conn := Some ?c\<rparr>) w)"
        by (rule keeps_now [OF i], rule keeps_ignore_fatal, rule keeps_status_step [OF i]) auto
      then show ?thesis using c1 Inr by (simp add: also_do_def bind_def change_conn_def)
    qed
  qed
qed

lemma keeps_write_target:
  assumes "loop_inv h p l" "conn l \<noteq> None" "wf_config new" "pred_option wf_config previous"
  shows "keeps anything h p (write_target E new previous l w)"
proof -
  obtain c where c: "conn (l\<lparr>restore_at := None\<rparr>) = Some c" using assms(2) by auto
  have i: "loop_inv h p (l\<lparr>restore_at := None\<rparr>)" using assms(1) by simp
  show ?thesis
    unfolding write_target_def
  proof (intro keeps_change_also, rule keeps_read_config [OF i c])
    fix e l1 w
    assume "loop_inv h p l1"
    then show "keeps anything h p ((case Inl e of Inl e \<Rightarrow> ret (Inl e) | Inr report \<Rightarrow>
          also_do (set_config (pcr_config report))
          (if pcr_config report = new then ret (Inr ())
           else bind (on_device (set_pin_config E new)) (\<lambda>r. case r of
             Inl e \<Rightarrow> also_do (if is_rejected e then change (\<lambda>l. l\<lparr>target := previous\<rparr>)
                 else if is_conflict e then restore_later E RESTORE_INTERVAL else ret ()) (ret (Inl e))
           | Inr _ \<Rightarrow> also_do (wrote E (pcr_config report) new) (ret (Inr ()))))) l1 w)"
      by (simp add: keeps_ret)
  next
    fix r l1 w
    assume l1: "loop_inv h p l1" "conn l1 \<noteq> None" "wf_config (pcr_config r)"
    have "keeps anything h p (also_do (set_config (pcr_config r))
          (if pcr_config r = new then ret (Inr ())
           else bind (on_device (set_pin_config E new)) (\<lambda>x. case x of
             Inl e \<Rightarrow> also_do (if is_rejected e then change (\<lambda>l. l\<lparr>target := previous\<rparr>)
                 else if is_conflict e then restore_later E RESTORE_INTERVAL else ret ()) (ret (Inl e))
           | Inr _ \<Rightarrow> also_do (wrote E (pcr_config r) new) (ret (Inr ())))) l1 w)"
    proof (rule keeps_also, rule keeps_set_config [OF l1(1,3)], rule keeps_if)
      fix l2 and w :: 'w
      assume l2: "loop_inv h p l2" "conn l2 = conn l1 \<and> target l2 = target l1 \<and> config l2 = pcr_config r"
      then show "keeps anything h p (ret (Inr ()) l2 w)" by (simp add: keeps_ret)
      obtain c2 where c2: "conn l2 = Some c2" using l1 l2 by auto
      show "keeps anything h p (bind (on_device (set_pin_config E new)) (\<lambda>x. case x of
             Inl e \<Rightarrow> also_do (if is_rejected e then change (\<lambda>l. l\<lparr>target := previous\<rparr>)
                 else if is_conflict e then restore_later E RESTORE_INTERVAL else ret ()) (ret (Inl e))
           | Inr _ \<Rightarrow> also_do (wrote E (pcr_config r) new) (ret (Inr ()))) l2 w)"
      proof (rule keeps_device_op [OF l2(1) c2])
        fix x l3 w
        assume l3: "loop_inv h p l3"
        show "keeps anything h p ((case x of
             Inl e \<Rightarrow> also_do (if is_rejected e then change (\<lambda>l. l\<lparr>target := previous\<rparr>)
                 else if is_conflict e then restore_later E RESTORE_INTERVAL else ret ()) (ret (Inl e))
           | Inr _ \<Rightarrow> also_do (wrote E (pcr_config r) new) (ret (Inr ()))) l3 w)"
        proof (cases x)
          case (Inl e)
          have "keeps anything h p ((if is_rejected e then change (\<lambda>l. l\<lparr>target := previous\<rparr>)
                 else if is_conflict e then restore_later E RESTORE_INTERVAL else ret ()) l3 w)"
            by (intro keeps_if keeps_change keeps_ret keeps_any [OF keeps_restore_later])
              (use l3 assms(4) inv_set_target in simp_all)
          then show ?thesis
            unfolding Inl sum.case by (rule keeps_also) (simp add: keeps_ret)
        next
          case (Inr y)
          show ?thesis
            unfolding Inr sum.case
            by (rule keeps_also, rule keeps_wrote [OF l3 assms(3)]) (simp add: keeps_ret)
        qed
      qed
    qed
    then show "keeps anything h p ((case Inr r of Inl e \<Rightarrow> ret (Inl e) | Inr report \<Rightarrow>
          also_do (set_config (pcr_config report))
          (if pcr_config report = new then ret (Inr ())
           else bind (on_device (set_pin_config E new)) (\<lambda>r. case r of
             Inl e \<Rightarrow> also_do (if is_rejected e then change (\<lambda>l. l\<lparr>target := previous\<rparr>)
                 else if is_conflict e then restore_later E RESTORE_INTERVAL else ret ()) (ret (Inl e))
           | Inr _ \<Rightarrow> also_do (wrote E (pcr_config report) new) (ret (Inr ()))))) l1 w)"
      by simp
  qed
qed

lemma keeps_set_target:
  assumes "loop_inv h p l" "wf_config new"
  shows "keeps anything h p (set_target E new l w)"
proof -
  have t: "loop_inv h p (l\<lparr>target := Some new\<rparr>)" using inv_set_target [OF assms(1), of "Some new"] assms(2) by simp
  have prev: "pred_option wf_config (target l)" using assms(1) by (simp add: loop_inv_def base_inv_def)
  have "keeps anything h p ((case conn l of None \<Rightarrow> ret (Inr ()) | Some _ \<Rightarrow> write_target E new (target l))
      (l\<lparr>target := Some new\<rparr>) w)"
    using t assms(2) prev by (cases "conn l") (auto simp: keeps_ret intro: keeps_write_target)
  then show ?thesis
    unfolding set_target_def
    by (intro keeps_look_bind)
      (auto simp: keeps_ret assms(1) intro!: keeps_look_bind keeps_change_also split: prod.split)
qed

end

end
