(* ===== verification/Watch_Frame.thy ===== *)
theory Watch_Frame
  imports Watch_App
begin

text \<open>
  What a device does to the world. The locale \<open>port\<close> is a contract on the environment: a relation
  \<open>R\<close> between a world and what a call leaves of it, for worlds \<open>W\<close> and handles \<open>V\<close> that are valid
  in them. Every operation of a device that takes no report from its queue stays within such a
  relation. \<open>frame\<close> extends the contract to reading.
\<close>

section \<open>Partial correctness\<close>

text \<open>What holds when an operation returns or stops the watcher.\<close>

definition wlp :: "('w, 'a) outcome \<Rightarrow> ('a \<Rightarrow> watch_loop \<Rightarrow> 'w \<Rightarrow> bool) \<Rightarrow>
    (watch_loop \<Rightarrow> 'w \<Rightarrow> bool) \<Rightarrow> bool" where
  "wlp r Q F = (case r of Ret x l w \<Rightarrow> Q x l w | Fatal e l w \<Rightarrow> F l w | Panic \<Rightarrow> True | Blocks \<Rightarrow> True)"

named_theorems wlp_rules \<open>weakest liberal preconditions of the basic operations\<close>

lemma wlp_outcome [simp]:
  "wlp (Ret x l w) Q F = Q x l w" "wlp (Fatal e l w) Q F = F l w" "wlp Panic Q F" "wlp Blocks Q F"
  by (simp_all add: wlp_def)

lemma wlp_mono:
  assumes "wlp r Q F" "\<And>x l w. Q x l w \<Longrightarrow> Q' x l w" "\<And>l w. F l w \<Longrightarrow> F' l w"
  shows "wlp r Q' F'"
  using assms by (cases r) auto

lemma wlp_bind [wlp_rules]: "wlp (bind m f l w) Q F = wlp (m l w) (\<lambda>x l w. wlp (f x l w) Q F) F"
  by (cases "m l w") (simp_all add: bind_def)

lemma wlp_also_do [wlp_rules]: "wlp (also_do m n l w) Q F = wlp (m l w) (\<lambda>_ l w. wlp (n l w) Q F) F"
  by (simp add: also_do_def wlp_bind)

lemma wlp_ignore_fatal [wlp_rules]: "wlp (ignore_fatal m l w) Q F = wlp (m l w) Q (\<lambda>l w. Q () l w)"
  by (cases "m l w") (simp_all add: ignore_fatal_def)

lemma wlp_basic [wlp_rules]:
  "wlp (ret x l w) Q F = Q x l w" "wlp (fatal e l w) Q' F = F l w" "wlp (change f l w) Q1 F = Q1 () (f l) w"
  "wlp (look g l w) Q2 F = Q2 (g l) l w" "wlp (emit ev l w) Q1 F = Q1 () (l\<lparr>pending := pending l @ [ev]\<rparr>) w"
  by (simp_all add: ret_def fatal_def change_def look_def emit_def)

lemma wlp_or_panic [wlp_rules]: "wlp (or_panic y l w) Q F = (\<forall>x. y = Some x \<longrightarrow> Q x l w)"
  by (simp add: or_panic_def split: option.split)

lemma wlp_now [wlp_rules]: "wlp (now E l w) Q F = (\<forall>t w'. e_now E w = (t, w') \<longrightarrow> Q t l w')"
  by (simp add: now_def split: prod.split)

lemma wlp_now_plus [wlp_rules]: "wlp (now_plus E d l w) Q F =
    (\<forall>t w' u. e_now E w = (t, w') \<longrightarrow> instant_add t d = Some u \<longrightarrow> Q u l w')"
  by (auto simp: now_plus_def wlp_rules)

lemma wlp_the_conn [wlp_rules]: "wlp (the_conn l w) Q F = (\<forall>c. conn l = Some c \<longrightarrow> Q c l w)"
  by (auto simp: the_conn_def split: option.split)

lemma wlp_change_conn [wlp_rules]:
  "wlp (change_conn f l w) Q F = (\<forall>c. conn l = Some c \<longrightarrow> Q () (l\<lparr>conn := Some (f c)\<rparr>) w)"
  by (auto simp: change_conn_def split: option.split)

lemma wlp_on_device [wlp_rules]:
  "wlp (on_device m l w) Q F = (\<forall>c r d w'. conn l = Some c \<longrightarrow> m (c_device c) w = (r, d, w') \<longrightarrow>
     Q r (l\<lparr>conn := Some (c\<lparr>c_device := d\<rparr>)\<rparr>) w')"
  by (auto simp: on_device_def split: option.split prod.split)

text \<open>The parts of the state an operation leaves alone, as a state without the others.\<close>

definition no_news :: "watch_loop \<Rightarrow> watch_loop" where
  "no_news l = l\<lparr>pending := [], known := [], config := [], failure := [], failures := 0\<rparr>"

lemma no_news_fields:
  assumes "no_news l' = no_news l"
  shows "conn l' = conn l \<and> scan_at l' = scan_at l \<and> restore_at l' = restore_at l \<and> settle_at l' = settle_at l \<and>
    last_restore l' = last_restore l \<and> restore_count l' = restore_count l \<and> target l' = target l"
  using assms by (cases l; cases l') (simp add: no_news_def)

lemma no_news_simps [simp]:
  "no_news (l\<lparr>pending := x1\<rparr>) = no_news l" "no_news (l\<lparr>known := x2\<rparr>) = no_news l"
  "no_news (l\<lparr>config := x3\<rparr>) = no_news l" "no_news (l\<lparr>failure := x4\<rparr>) = no_news l"
  "no_news (l\<lparr>failures := x5\<rparr>) = no_news l"
  by (simp_all add: no_news_def)

text \<open>Such an operation may be followed by whatever holds of every state that differs in the news only.\<close>

lemma wlp_quiet:
  assumes "wlp r (\<lambda>_ l' w'. no_news l' = no_news l \<and> w' = w) (\<lambda>_ _. False)"
    and "\<And>x l'. no_news l' = no_news l \<Longrightarrow> Q x l' w"
  shows "wlp r Q F"
  by (rule wlp_mono [OF assms(1)]) (use assms(2) in auto)

lemma quiet_set_config: "wlp (set_config new l w) (\<lambda>_ l' w'. no_news l' = no_news l \<and> w' = w) F"
  by (simp add: set_config_def)

lemma quiet_failed: "wlp (failed e l w) (\<lambda>_ l' w'. no_news l' = no_news l \<and> w' = w) F"
  by (simp add: failed_def wlp_rules)

lemma quiet_reset_failures: "wlp (reset_failures l w) (\<lambda>_ l' w'. no_news l' = no_news l \<and> w' = w) F"
  by (simp add: reset_failures_def wlp_rules)

lemma quiet_suspend_event: "wlp (suspend_event r l w) (\<lambda>_ l' w'. no_news l' = no_news l \<and> w' = w) F"
  by (simp add: suspend_event_def wlp_rules)

lemma quiet_outputs_event:
  "wlp (outputs_event found driven re l w) (\<lambda>_ l' w'. no_news l' = no_news l \<and> w' = w) F"
  by (simp add: outputs_event_def wlp_rules)

lemma quiet_absorb_level:
  "wlp (absorb_level r g learned l w) (\<lambda>_ l' w'. no_news l' = no_news l \<and> w' = w) F"
  by (auto simp: absorb_level_def active_low_of_def Let_def wlp_rules split: option.split)

lemma quiet_absorb_levels:
  "wlp (absorb_levels r gs learned l w) (\<lambda>_ l' w'. no_news l' = no_news l \<and> w' = w) F"
proof (induction gs arbitrary: learned l w)
  case (Cons g gs)
  have "wlp (absorb_levels r gs x l' w) (\<lambda>_ l'' w'. no_news l'' = no_news l \<and> w' = w) F"
    if "no_news l' = no_news l" for x l'
    using Cons.IH [of x l' w] that by simp
  then show ?case
    by (simp add: wlp_rules) (rule wlp_quiet [OF quiet_absorb_level])
qed (simp add: wlp_rules)

section \<open>The contract\<close>

locale port =
  fixes E :: "'w env" and W :: "'w \<Rightarrow> bool" and V :: "handle \<Rightarrow> 'w \<Rightarrow> bool" and R :: "'w \<Rightarrow> 'w \<Rightarrow> bool"
  assumes R_refl: "R w w" and R_trans: "R u v \<Longrightarrow> R v w \<Longrightarrow> R u w"
    and W_kept: "W w \<Longrightarrow> R w w' \<Longrightarrow> W w'" and V_kept: "W w \<Longrightarrow> V h w \<Longrightarrow> R w w' \<Longrightarrow> V h w'"
    and devices_R: "W w \<Longrightarrow> e_devices E w = (entries, w') \<Longrightarrow> R w w'"
    and open_R: "W w \<Longrightarrow> e_open E entry w = (opened, w') \<Longrightarrow> R w w' \<and> (\<forall>h. opened = Inr h \<longrightarrow> V h w')"
    and close_R: "W w \<Longrightarrow> V h w \<Longrightarrow> R w (e_close E h w)"
    and write_R: "W w \<Longrightarrow> V h w \<Longrightarrow> e_write E h report w = (n, w') \<Longrightarrow> R w w'"
    and get_R: "W w \<Longrightarrow> V h w \<Longrightarrow> e_get_feature E h buf w = (n, data, w') \<Longrightarrow> R w w'"
    and send_R: "W w \<Longrightarrow> V h w \<Longrightarrow> e_send_feature E h report w = (n, w') \<Longrightarrow> R w w'"
    and input_R: "W w \<Longrightarrow> V h w \<Longrightarrow> e_get_input E h buf w = (n, data, w') \<Longrightarrow> R w w'"
    and now_R: "W w \<Longrightarrow> e_now E w = (t, w') \<Longrightarrow> R w w'"
    and wall_R: "W w \<Longrightarrow> e_wall E w = (s, w') \<Longrightarrow> R w w'"

locale frame = port +
  assumes read_R: "W w \<Longrightarrow> V h w \<Longrightarrow> e_read E h buf timeout w = Some (n, data, w') \<Longrightarrow> R w w'"

text \<open>The contract that says nothing of the world; every environment keeps it.\<close>

lemma frame_any: "frame E (\<lambda>_. True) (\<lambda>_ _. True) (\<lambda>_ _. True)"
  by unfold_locales simp_all

text \<open>\<open>u\<close> is the world at the start, and \<open>c\<close> the connection now.\<close>

definition within :: "('w \<Rightarrow> bool) \<Rightarrow> (handle \<Rightarrow> 'w \<Rightarrow> bool) \<Rightarrow> ('w \<Rightarrow> 'w \<Rightarrow> bool) \<Rightarrow> 'w \<Rightarrow>
    connection option \<Rightarrow> 'w \<Rightarrow> bool" where
  "within W V R u c w \<longleftrightarrow> W w \<and> R u w \<and> pred_option (\<lambda>c. V (dev_handle (c_device c)) w) c"

definition stays :: "('w \<Rightarrow> bool) \<Rightarrow> (handle \<Rightarrow> 'w \<Rightarrow> bool) \<Rightarrow> ('w \<Rightarrow> 'w \<Rightarrow> bool) \<Rightarrow> ('w, 'a) dev_op \<Rightarrow> bool" where
  "stays W V R m \<longleftrightarrow> (\<forall>d w r d' w'. W w \<longrightarrow> V (dev_handle d) w \<longrightarrow> m d w = (r, d', w') \<longrightarrow>
     R w w' \<and> dev_handle d' = dev_handle d)"

lemma within_None: "within W V R u None w \<longleftrightarrow> W w \<and> R u w"
  and within_Some: "within W V R u (Some c) w \<longleftrightarrow> W w \<and> R u w \<and> V (dev_handle (c_device c)) w"
  by (simp_all add: within_def)

lemma within_fields [simp]:
  "within W V R u (Some (c\<lparr>awaiting_config := a\<rparr>)) w = within W V R u (Some c) w"
  "within W V R u (Some (c\<lparr>snapshot_seq := q\<rparr>)) w = within W V R u (Some c) w"
  "within W V R u (Some (c\<lparr>c_last_seq := q\<rparr>)) w = within W V R u (Some c) w"
  "within W V R u (Some (c\<lparr>c_clock := k, snapshot_seq := q\<rparr>)) w = within W V R u (Some c) w"
  by (simp_all add: within_Some)

context port
begin

lemma within_step: "within W V R u c w \<Longrightarrow> R w w' \<Longrightarrow> within W V R u c w'"
  by (cases c) (auto simp: within_def intro: W_kept V_kept R_trans)

lemma within_clocks:
  assumes c: "within W V R u c w"
  shows within_now: "e_now E w = (t, w') \<Longrightarrow> within W V R u c w'"
    and within_wall: "e_wall E w = (s, w') \<Longrightarrow> within W V R u c w'"
proof -
  have w: "W w" using c by (simp add: within_def)
  show "within W V R u c w'" if "e_now E w = (t, w')" using within_step [OF c now_R [OF w that]] .
  show "within W V R u c w'" if "e_wall E w = (s, w')" using within_step [OF c wall_R [OF w that]] .
qed

section \<open>Devices\<close>

lemma staysD: "stays W V R m \<Longrightarrow> W w \<Longrightarrow> V (dev_handle d) w \<Longrightarrow> m d w = (r, d', w') \<Longrightarrow>
    R w w' \<and> dev_handle d' = dev_handle d"
  unfolding stays_def by blast

lemma stays_return: "stays W V R (return_op r)"
  unfolding stays_def
proof (intro allI impI)
  fix d and w :: 'w and r' d' w'
  assume "return_op r d w = (r', d', w')"
  then show "R w w' \<and> dev_handle d' = dev_handle d" using R_refl [of w] by (simp only: return_op_eq)
qed

lemma stays_seq:
  assumes "stays W V R m" "\<And>x. stays W V R (f x)"
  shows "stays W V R (seq_op m f)"
  unfolding stays_def
proof (intro allI impI)
  fix d w r d2 w2
  assume d: "W w" "V (dev_handle d) w" and s: "seq_op m f d w = (r, d2, w2)"
  obtain x d1 w1 where m: "m d w = (x, d1, w1)" by (metis prod_cases3)
  note 1 = staysD [OF assms(1) d m]
  show "R w w2 \<and> dev_handle d2 = dev_handle d"
  proof (cases x)
    case (Inr y)
    have w1: "W w1" "V (dev_handle d1) w1" using W_kept [OF d(1)] V_kept [OF d] 1 by auto
    have "f y d1 w1 = (r, d2, w2)" using s m Inr by (simp add: seq_op_def)
    then have "R w1 w2 \<and> dev_handle d2 = dev_handle d1" by (rule staysD [OF assms(2) w1])
    then show ?thesis using 1 R_trans by auto
  qed (use 1 s m in \<open>simp add: seq_op_def\<close>)
qed

lemma stays_get_feature: "stays W V R (get_feature E rid)"
  by (auto simp: stays_def get_feature_def Let_def split: prod.splits sum.splits if_splits dest: get_R)

lemma stays_info: "stays W V R (info E)"
proof -
  have "stays W V R (\<lambda>d w. if protocol_version i \<noteq> PROTOCOL_VERSION
      then (Inl (ProtocolVersion (protocol_version i)), d, w) else (Inr i, d\<lparr>dev_info := Some i\<rparr>, w))" for i
    by (auto simp: stays_def R_refl split: if_splits)
  then have op: "stays W V R (seq_op (get_feature E REPORT_ID_DEVICE_INFO) (\<lambda>payload.
       seq_op (return_op (decode_device_info payload)) (\<lambda>i d w.
         if protocol_version i \<noteq> PROTOCOL_VERSION
         then (Inl (ProtocolVersion (protocol_version i)), d, w)
         else (Inr i, d\<lparr>dev_info := Some i\<rparr>, w))))" (is "stays W V R ?op")
    by (intro stays_seq stays_get_feature stays_return)
  show ?thesis
    unfolding stays_def
  proof (intro allI impI)
    fix d w r d' w'
    assume d: "W w" "V (dev_handle d) w" and i: "info E d w = (r, d', w')"
    show "R w w' \<and> dev_handle d' = dev_handle d"
    proof (cases "dev_info d")
      case None
      then show ?thesis using i by (intro staysD [OF op d]) (simp add: info_def)
    qed (use i in \<open>simp add: info_def R_refl\<close>)
  qed
qed

lemma stays_get_pin_config: "stays W V R (get_pin_config E)"
proof -
  have "stays W V R (\<lambda>d w. (Inr report, d\<lparr>dev_config := Some (pcr_config report)\<rparr>, w))" for report :: pin_config_report
    by (simp add: stays_def R_refl)
  then show ?thesis
    unfolding get_pin_config_def by (intro stays_seq stays_get_feature stays_return)
qed

lemma stays_send_feature: "stays W V R (send_feature E report)"
  by (auto simp: stays_def send_feature_def split: prod.splits dest: send_R)

lemma stays_next_request_id: "stays W V R next_request_id"
  by (simp add: stays_def next_request_id_def R_refl split: prod.split)

lemma stays_set_pin_config: "stays W V R (set_pin_config E cfg)"
  unfolding set_pin_config_def
  by (intro stays_seq stays_info)
    (auto split: prod.split intro!: stays_seq stays_return stays_next_request_id stays_send_feature stays_get_pin_config)

lemma stays_request_status: "stays W V R (request_status E)"
  by (auto simp: stays_def request_status_def Let_def split: prod.splits sum.splits if_splits dest: input_R)

lemma stays_set_outputs: "stays W V R (set_outputs E lvls)"
proof -
  have "stays W V R (write_outputs E m v)" for m v
    by (auto simp: stays_def write_outputs_def split: prod.splits sum.splits if_splits dest: write_R)
  then show ?thesis
    unfolding set_outputs_def by (intro stays_seq stays_return) (auto split: prod.split)
qed

lemma stays_apply_target: "stays W V R (apply_target E tgt found)"
  unfolding apply_target_def
  by (auto split: option.split intro!: stays_seq stays_return stays_set_pin_config)

lemma stays_within:
  assumes "stays W V R m" "within W V R u (Some c) w" "m (c_device c) w = (r, d, w')"
  shows "within W V R u (Some (c\<lparr>c_device := d\<rparr>)) w'"
proof -
  have c: "W w" "V (dev_handle (c_device c)) w" using assms(2) by (simp_all add: within_Some)
  have r: "R w w' \<and> dev_handle d = dev_handle (c_device c)" by (rule staysD [OF assms(1) c assms(3)])
  then show ?thesis using within_step [OF assms(2)] by (simp add: within_Some)
qed

end

end
