(* ===== verification/Watch_Behaviour.thy ===== *)
theory Watch_Behaviour
  imports Watch_Keeps Watch_Frame Fake_Theorems
begin

text \<open>
  What single operations of the watcher do, against descriptions that do not follow the code:
  absorbing a report, which reports are stale, when failures to connect are reported, what
  becomes of the target, which outputs a write drives, and the time of an edge.
\<close>

section \<open>Absorbing a report without edges\<close>

text \<open>The changes a report shows for pins that are known, and the pins it shows for the first time.\<close>

definition inferred_changes :: "watch_loop \<Rightarrow> status_report \<Rightarrow> u8 list \<Rightarrow> event list" where
  "inferred_changes l r gs = map (\<lambda>g. change_event g (on_at l r g) (sr_level r g) None None True)
     (filter (\<lambda>g. map_of (known l) g = Some (\<not> on_at l r g)) gs)"

definition newly_seen :: "watch_loop \<Rightarrow> status_report \<Rightarrow> u8 list \<Rightarrow> (u8 \<times> bool) list" where
  "newly_seen l r gs = map (\<lambda>g. (g, on_at l r g)) (filter (\<lambda>g. map_of (known l) g = None) gs)"

lemma absorb_level_exact:
  assumes "wf_config (config l)" "unat g < 30" "\<forall>k \<in> fst ` set learned. k < g"
  shows "absorb_level r g learned l w = Ret (learned @ newly_seen l r [g])
    (told (inferred_changes l r [g]) (bt_insert g (on_at l r g) (known l)) l) w"
  using insert_last [OF assms(3), of "on_at l r g"]
  by (cases "map_of (known l) g")
    (auto simp: absorb_level_def bind_def also_do_def look_def change_def ret_def emit_def Let_def
      active_low_of_Ret [OF assms(1,2)] on_at_def newly_seen_def inferred_changes_def told_def)

lemma absorb_levels_exact:
  assumes "wf_config (config l)" "\<forall>g \<in> set gs. unat g < 30" "sorted_wrt (<) gs"
    and "\<forall>k \<in> fst ` set learned. \<forall>g \<in> set gs. k < g"
  shows "absorb_levels r gs learned l w = Ret (learned @ newly_seen l r gs)
    (told (inferred_changes l r gs) (fold (\<lambda>g. bt_insert g (on_at l r g)) gs (known l)) l) w"
  using assms
proof (induction gs arbitrary: l learned)
  case Nil
  then show ?case by (simp add: ret_def newly_seen_def inferred_changes_def)
next
  case (Cons g gs)
  let ?l = "told (inferred_changes l r [g]) (bt_insert g (on_at l r g) (known l)) l"
  have g: "g \<notin> set gs" using Cons.prems(3) by auto
  have 1: "absorb_level r g learned l w = Ret (learned @ newly_seen l r [g]) ?l w"
    using Cons.prems by (intro absorb_level_exact) auto
  have 2: "absorb_levels r gs (learned @ newly_seen l r [g]) ?l w =
      Ret ((learned @ newly_seen l r [g]) @ newly_seen ?l r gs)
        (told (inferred_changes ?l r gs) (fold (\<lambda>g. bt_insert g (on_at ?l r g)) gs (known ?l)) ?l) w"
    using Cons.prems by (intro Cons.IH) (auto simp: newly_seen_def split: if_splits)
  have same: "newly_seen ?l r gs = newly_seen l r gs" "inferred_changes ?l r gs = inferred_changes l r gs"
    using g by (auto simp: newly_seen_def inferred_changes_def intro!: map_cong filter_cong)
  have cons: "newly_seen l r (g # gs) = newly_seen l r [g] @ newly_seen l r gs"
    "inferred_changes l r (g # gs) = inferred_changes l r [g] @ inferred_changes l r gs"
    by (simp_all add: newly_seen_def inferred_changes_def)
  show ?case
    using 2 by (simp add: bind_def 1 same cons)
qed

lemma fold_insert_map: "map_of (fold (\<lambda>g. bt_insert g (f g)) gs m) g =
    (if g \<in> set gs then Some (f g) else map_of m g)"
  by (induction gs arbitrary: m) auto

lemma fold_insert_ordered_gs: "bt_ordered m \<Longrightarrow> bt_ordered (fold (\<lambda>g. bt_insert g (f g)) gs m)"
  by (induction gs arbitrary: m) auto

text \<open>The ON/OFF of a report: what is known after absorbing it.\<close>

definition report_on :: "watch_loop \<Rightarrow> status_report \<Rightarrow> (u8, bool) btree" where
  "report_on l r = map (\<lambda>g. (g, on_at l r g)) (mask_to_gpios (monitored r))"

lemma known_after:
  assumes "known_ok k"
  shows "bt_retain (sr_is_monitored r) (fold (\<lambda>g. bt_insert g (on_at l r g)) (mask_to_gpios (monitored r)) k) =
    report_on l r"
proof (rule bt_ordered_eq)
  let ?gs = "mask_to_gpios (monitored r)"
  show "bt_ordered (bt_retain (sr_is_monitored r) (fold (\<lambda>g. bt_insert g (on_at l r g)) ?gs k))"
    using assms by (intro bt_ordered_retain fold_insert_ordered_gs) (simp add: known_ok_def)
  show "bt_ordered (report_on l r)"
    using sorted_mask_to_gpios [of "monitored r"] by (simp add: report_on_def bt_ordered_def comp_def)
  have mon: "g \<in> set ?gs \<longleftrightarrow> unat g < 30 \<and> sr_is_monitored r g" for g
    by (auto simp: set_mask_to_gpios sr_is_monitored_def)
  show "map_of (bt_retain (sr_is_monitored r) (fold (\<lambda>g. bt_insert g (on_at l r g)) ?gs k)) = map_of (report_on l r)"
  proof
    fix g
    have "map_of k g = None \<or> unat g < 30" using known_ok_keys [OF assms, of g] by (cases "map_of k g") auto
    then show "map_of (bt_retain (sr_is_monitored r) (fold (\<lambda>g. bt_insert g (on_at l r g)) ?gs k)) g =
        map_of (report_on l r) g"
      using mon [of g] by (auto simp: report_on_def map_of_map_pair fold_insert_map)
  qed
qed

text \<open>C13: Absorbing a report without edge events tells exactly what changed: one inferred change, in
  the order of the pins, for every known pin whose ON/OFF is now the opposite, then one
  announcement of the pins not known before, and nothing else; from then on the watcher knows
  exactly the monitored pins of the report.\<close>

theorem absorb_without_edges:
  assumes "events r = []" "wf_config (config l)" "known_ok (known l)"
  shows "absorb E r l w = Ret () (l\<lparr>
      pending := pending l @ inferred_changes l r (mask_to_gpios (monitored r)) @
        (case newly_seen l r (mask_to_gpios (monitored r)) of [] \<Rightarrow> [] | on \<Rightarrow> [InitialOnOff on]),
      known := report_on l r\<rparr>) w"
proof -
  let ?gs = "mask_to_gpios (monitored r)"
  have levels: "absorb_levels r ?gs [] l w = Ret (newly_seen l r ?gs)
      (told (inferred_changes l r ?gs) (fold (\<lambda>g. bt_insert g (on_at l r g)) ?gs (known l)) l) w"
    using absorb_levels_exact [OF assms(2), of ?gs "[]" r w] sorted_mask_to_gpios [of "monitored r"]
    by (simp add: set_mask_to_gpios)
  show ?thesis
    using levels known_after [OF assms(3), of r l] assms(1)
    by (cases "newly_seen l r ?gs")
      (simp_all add: absorb_def also_do_def bind_def ret_def change_def emit_def told_def)
qed

definition idle_loop :: watch_loop where
  "idle_loop = initial_loop \<lparr>opt_serial = None, opt_target = None, opt_active_low = [], opt_interval = 1\<rparr> (Instant 0)"

theorem absorb_without_edges_witness:
  "absorb dead_env (quiet_report 1) (idle_loop\<lparr>known := [(3, True)]\<rparr>) 0 = Ret () idle_loop 0"
proof -
  have "known_ok [(3, True)]" by (simp add: known_ok_def bt_keys_def bt_ordered_def)
  then show ?thesis
    using absorb_without_edges [of "quiet_report 1" "idle_loop\<lparr>known := [(3, True)]\<rparr>" dead_env 0]
    by (simp add: idle_loop_def initial_loop_def quiet_report_def inferred_changes_def newly_seen_def
        report_on_def mask_to_gpios_def mask_bit_def)
qed

section \<open>Stale reports\<close>

text \<open>C22: A report sent before the snapshot is told apart by its number, across the wrap of the 16-bit
  counter: with the snapshot numbered \<open>m\<close>, a report numbered \<open>n\<close> is stale exactly when \<open>n \<le> m\<close>,
  as long as the two are less than half of the number space apart; the first newer report ends
  the comparison. An answer to a request is never stale.\<close>

theorem stale_exact:
  assumes "seq r = word_of_nat n" "n \<le> m + 32767" "m \<le> n + 32768"
  shows "stale_after (Some (word_of_nat m)) r =
    (if flags_contains (sr_reason r) HOST_REQUEST then (False, Some (word_of_nat m))
     else if n \<le> m then (True, Some (word_of_nat m)) else (False, None))"
proof -
  have "seq r - word_of_nat m = word_of_int (int n - int m)" using assms(1) by simp
  then have u: "uint (seq r - word_of_nat m) = (int n - int m) mod 65536"
    by (simp only: uint_word_of_int) simp
  show ?thesis
  proof (cases "n \<le> m")
    case True
    have "(int n - int m) mod 65536 = (if n = m then 0 else int n - int m + 65536)"
    proof (cases "n = m")
      case False
      have "(int n - int m) mod 65536 = (int n - int m + 65536) mod 65536" by simp
      also have "\<dots> = int n - int m + 65536"
        using True False assms(3) by (intro mod_pos_pos_trivial) auto
      finally show ?thesis using False by simp
    qed simp
    then have "uint (seq r - word_of_nat m) = 0 \<or> 0x8000 \<le> uint (seq r - word_of_nat m)"
      using u True assms(3) by (auto split: if_splits)
    then have "seq r - word_of_nat m = 0 \<or> 0x8000 \<le> seq r - word_of_nat m"
      by (simp add: word_le_def uint_0_iff)
    then show ?thesis using True by (simp add: stale_after_def)
  next
    case False
    then have "(int n - int m) mod 65536 = int n - int m" using assms(2) by simp
    then have "uint (seq r - word_of_nat m) \<noteq> 0" "\<not> 0x8000 \<le> uint (seq r - word_of_nat m)"
      using u False assms(2) by auto
    then have "seq r - word_of_nat m \<noteq> 0" "\<not> 0x8000 \<le> seq r - word_of_nat m"
      by (auto simp: word_le_def)
    then show ?thesis using False by (simp add: stale_after_def)
  qed
qed

theorem stale_exact_witness:
  "stale_after (Some (word_of_nat 65535)) (quiet_report (word_of_nat 65537)) = (False, None) \<and>
   stale_after (Some (word_of_nat 65537)) (quiet_report (word_of_nat 65535)) = (True, Some (word_of_nat 65537))"
proof -
  have "\<not> flags_contains (sr_reason (quiet_report x)) HOST_REQUEST" "seq (quiet_report x) = x" for x
    by (simp_all add: quiet_report_def flags_contains_def wire_defs)
  then show ?thesis
    using stale_exact [of "quiet_report (word_of_nat 65537)" 65537 65535]
      stale_exact [of "quiet_report (word_of_nat 65535)" 65535 65537] by simp
qed

section \<open>Failures\<close>

text \<open>A run of failed attempts, without a connection in between.\<close>

fun fail_all :: "error list \<Rightarrow> ('w, unit) loop_op" where
  "fail_all [] = ret ()"
| "fail_all (e # es) = also_do (failed e) (fail_all es)"

text \<open>The errors that happen for the second time in a row.\<close>

definition same_cause :: "error list \<Rightarrow> nat \<Rightarrow> nat \<Rightarrow> bool" where
  "same_cause es i j \<longleftrightarrow> error_display (es ! i) = error_display (es ! j)"

definition twice :: "error list \<Rightarrow> error list" where
  "twice es = map ((!) es) (filter (\<lambda>i. 1 \<le> i \<and> same_cause es i (i - 1) \<and>
     (2 \<le> i \<longrightarrow> \<not> same_cause es (i - 1) (i - 2))) [0..<length es])"

text \<open>How often the last error happened in a row.\<close>

fun streak :: "error list \<Rightarrow> nat" where
  "streak [] = 0"
| "streak (e # es) = (case es of [] \<Rightarrow> 1
     | f # _ \<Rightarrow> if error_display e = error_display f then Suc (streak es) else 1)"

text \<open>The state after the errors \<open>es\<close>, the latest first.\<close>

definition failing :: "error list \<Rightarrow> watch_loop \<Rightarrow> watch_loop" where
  "failing es l = l\<lparr>failure := (case es of [] \<Rightarrow> [] | e # _ \<Rightarrow> error_display e),
     failures := word_of_nat (streak es), pending := pending l @ map ConnectFailed (twice (rev es))\<rparr>"

lemma streak_le: "streak es \<le> length es"
  by (induction es rule: streak.induct) (auto split: list.split)

lemma streak_simps [simp]:
  "streak [e] = 1" "0 < streak (e # es)"
  "streak (e # f # es) = (if error_display e = error_display f then Suc (streak (f # es)) else 1)"
  by (simp_all split: list.split)

declare streak.simps(2) [simp del]

lemma u32_eq_2: "n < 2 ^ 32 \<Longrightarrow> (word_of_nat n :: u32) = 2 \<longleftrightarrow> n = 2"
proof -
  assume "n < 2 ^ 32"
  then have "unat (word_of_nat n :: u32) = n" by (simp add: unat_of_nat)
  then show ?thesis by (auto simp: word_unat_eq_iff)
qed

lemma twice_snoc:
  "twice (es @ [e]) = twice es @ (if streak (e # rev es) = 2 then [e] else [])"
proof -
  have old: "filter (\<lambda>i. 1 \<le> i \<and> same_cause (es @ [e]) i (i - 1) \<and>
      (2 \<le> i \<longrightarrow> \<not> same_cause (es @ [e]) (i - 1) (i - 2))) [0..<length es] =
    filter (\<lambda>i. 1 \<le> i \<and> same_cause es i (i - 1) \<and> (2 \<le> i \<longrightarrow> \<not> same_cause es (i - 1) (i - 2))) [0..<length es]"
    by (rule filter_cong) (auto simp: same_cause_def nth_append)
  have new: "1 \<le> length es \<and> same_cause (es @ [e]) (length es) (length es - 1) \<and>
      (2 \<le> length es \<longrightarrow> \<not> same_cause (es @ [e]) (length es - 1) (length es - 2)) \<longleftrightarrow>
    streak (e # rev es) = 2"
  proof (cases es rule: rev_exhaust)
    case Nil
    then show ?thesis by simp
  next
    case (snoc fs f)
    then show ?thesis
      by (cases fs rule: rev_exhaust) (auto simp: same_cause_def nth_append)
  qed
  have "map ((!) (es @ [e])) (filter P [0..<length es]) = map ((!) es) (filter P [0..<length es])" for P
    by (auto simp: nth_append)
  then show ?thesis using old new by (simp add: twice_def)
qed

lemma failed_step:
  assumes "length es < 2 ^ 32 - 1"
  shows "failed e (failing es l) w = Ret () (failing (e # es) l) w"
proof -
  have n: "streak (e # es) = Suc (if es = [] \<or> error_display e \<noteq> error_display (hd es) then 0 else streak es)"
    by (cases es) auto
  have "streak (e # es) < 2 ^ 32" using streak_le [of es] assms by (simp add: n)
  then have two: "(word_of_nat (streak (e # es)) :: u32) = 2 \<longleftrightarrow> streak (e # es) = 2" by (rule u32_eq_2)
  have tw: "twice (rev es @ [e]) = twice (rev es) @ (if streak (e # es) = 2 then [e] else [])"
    using twice_snoc [of "rev es" e] by simp
  have cnt: "(word_of_nat (streak (e # es)) :: u32) =
      (if es = [] \<or> error_display e \<noteq> error_display (hd es) then 0 else word_of_nat (streak es)) + 1"
    by (simp add: n)
  have step: "(if error_display e \<noteq> failure (failing es l)
      then (failing es l)\<lparr>failure := error_display e, failures := 0\<rparr> else failing es l)\<lparr>failures :=
        failures (if error_display e \<noteq> failure (failing es l)
          then (failing es l)\<lparr>failure := error_display e, failures := 0\<rparr> else failing es l) + 1\<rparr> =
    (failing (e # es) l)\<lparr>pending := pending (failing es l)\<rparr>"
    using cnt by (cases es) (auto simp: failing_def)
  have "failures (failing (e # es) l) = word_of_nat (streak (e # es))" by (simp add: failing_def)
  then have "failed e (failing es l) w =
      (if streak (e # es) = 2 then emit (ConnectFailed e) else ret ())
        ((failing (e # es) l)\<lparr>pending := pending (failing es l)\<rparr>) w"
    using two by (simp add: failed_def also_do_def bind_def change_def look_def step [unfolded if_not_P])
  then show ?thesis
    by (auto simp: emit_def change_def ret_def failing_def tw)
qed

lemma fail_all_run:
  assumes "length es + length fs < 2 ^ 32"
  shows "fail_all fs (failing es l) w = Ret () (failing (rev fs @ es) l) w"
  using assms
proof (induction fs arbitrary: es)
  case Nil
  then show ?case by (simp add: ret_def)
next
  case (Cons e fs)
  have "failed e (failing es l) w = Ret () (failing (e # es) l) w"
    using Cons.prems by (intro failed_step) simp
  moreover have "fail_all fs (failing (e # es) l) w = Ret () (failing (rev fs @ e # es) l) w"
    using Cons by simp
  ultimately show ?case by (simp add: also_do_def bind_def)
qed

text \<open>C23: Of failed attempts to connect, fewer than \<open>2 ^ 32\<close> in a row, exactly those are reported that are
  the second in a row with the same cause; a cause that lasts is reported once, one that comes
  back is reported again.\<close>

theorem failures_reported_once:
  assumes "failure l = []" "failures l = 0" "length es < 2 ^ 32"
  shows "\<exists>l'. fail_all es l w = Ret () l' w \<and> pending l' = pending l @ map ConnectFailed (twice es)"
proof -
  have "failing [] l = l" using assms by (simp add: failing_def twice_def)
  then show ?thesis using fail_all_run [of "[]" es l w] assms(3) by (simp add: failing_def)
qed

theorem failures_reported_once_witness:
  "\<exists>l'. fail_all [UnsupportedPlatform, UnsupportedPlatform, UnsupportedPlatform] idle_loop (0 :: nat) = Ret () l' 0 \<and>
     pending l' = [ConnectFailed UnsupportedPlatform]"
  using failures_reported_once [of idle_loop "[UnsupportedPlatform, UnsupportedPlatform, UnsupportedPlatform]" "0 :: nat"]
  by (simp add: idle_loop_def initial_loop_def twice_def same_cause_def upt_rec)

section \<open>The target\<close>

text \<open>The target and the timer of a restore, after an answer to a new target.\<close>

definition target_answer :: "pin_config option \<Rightarrow> pin_config \<Rightarrow> unit result \<Rightarrow> watch_loop \<Rightarrow> bool" where
  "target_answer previous new r l \<longleftrightarrow>
     target l = (if \<exists>e. r = Inl e \<and> is_rejected e then previous else Some new) \<and>
     (restore_at l \<noteq> None \<longleftrightarrow> (\<exists>e. r = Inl e \<and> is_conflict e)) \<and> conn l \<noteq> None"

lemma wrote_keeps:
  assumes "conn l \<noteq> None"
  shows "wlp (wrote E found new l w) (\<lambda>_ l' _. target l' = target l \<and> restore_at l' = restore_at l \<and> conn l' \<noteq> None) F"
  unfolding wrote_def wlp_also_do
  by (rule wlp_quiet [OF quiet_set_config]) (use assms in \<open>auto simp: wlp_rules dest!: no_news_fields\<close>)

lemma get_config_link_error:
  "get_pin_config E d w = (Inl e, d', w') \<Longrightarrow> \<not> is_rejected e \<and> \<not> is_conflict e"
  by (cases e) (auto simp: is_rejected_def is_conflict_def dest: get_pin_config_error)

lemma rejected_not_conflict: "is_rejected e \<Longrightarrow> \<not> is_conflict e"
  by (cases e) (simp_all add: is_rejected_def is_conflict_def)

lemma write_target_answer:
  assumes "target l = Some new" "conn l \<noteq> None"
  shows "wlp (write_target E new previous l w) (\<lambda>r l' _. target_answer previous new r l') (\<lambda>_ _. True)"
proof -
  have written: "wlp (wrote E found new l2 w2) (\<lambda>_ l' _. target_answer previous new (Inr ()) l') F"
    if "target l2 = Some new" "restore_at l2 = None" "conn l2 \<noteq> None" for found l2 w2 F
    by (rule wlp_mono [OF wrote_keeps [OF that(3)]]) (use that in \<open>auto simp: target_answer_def\<close>)
  have put: "wlp (bind (on_device (set_pin_config E new)) (\<lambda>r. case r of
       Inl e \<Rightarrow> also_do (if is_rejected e then change (\<lambda>l. l\<lparr>target := previous\<rparr>)
           else if is_conflict e then restore_later E RESTORE_INTERVAL else ret ()) (ret (Inl e))
     | Inr _ \<Rightarrow> also_do (wrote E found new) (ret (Inr ()))) l2 w2) (\<lambda>r l' _. target_answer previous new r l') (\<lambda>_ _. True)"
    if "target l2 = Some new" "restore_at l2 = None" for found l2 w2
    using that rejected_not_conflict
    by (auto simp: wlp_bind wlp_on_device wlp_also_do wlp_basic restore_later_def wlp_now_plus target_answer_def
        split: sum.split intro!: written [unfolded target_answer_def, simplified])
  show ?thesis
    unfolding write_target_def wlp_also_do [of "change f" for f] wlp_basic wlp_bind [of "on_device (get_pin_config E)"]
      wlp_on_device
  proof (intro allI impI)
    fix c r d w'
    let ?l = "l\<lparr>restore_at := None, conn := Some (c\<lparr>c_device := d\<rparr>)\<rparr>"
    assume r: "get_pin_config E (c_device c) w = (r, d, w')"
    show "wlp ((case r of Inl e \<Rightarrow> ret (Inl e) | Inr report \<Rightarrow> also_do (set_config (pcr_config report))
      (if pcr_config report = new then ret (Inr ()) else bind (on_device (set_pin_config E new)) (\<lambda>r. case r of
       Inl e \<Rightarrow> also_do (if is_rejected e then change (\<lambda>l. l\<lparr>target := previous\<rparr>)
           else if is_conflict e then restore_later E RESTORE_INTERVAL else ret ()) (ret (Inl e))
     | Inr _ \<Rightarrow> also_do (wrote E (pcr_config report) new) (ret (Inr ()))))) ?l w')
       (\<lambda>r l' _. target_answer previous new r l') (\<lambda>_ _. True)"
    proof (cases r)
      case (Inl e)
      then show ?thesis
        using get_config_link_error r assms(1) by (fastforce simp: wlp_basic target_answer_def)
    next
      case (Inr report)
      show ?thesis
        unfolding Inr sum.case wlp_also_do [of "set_config f" for f]
      proof (rule wlp_quiet [OF quiet_set_config])
        fix l1
        assume n: "no_news l1 = no_news ?l"
        have l1: "target l1 = Some new" "restore_at l1 = None" "conn l1 \<noteq> None"
          using no_news_fields [OF n] assms(1) by simp_all
        show "wlp ((if pcr_config report = new then ret (Inr ()) else bind (on_device (set_pin_config E new)) (\<lambda>r. case r of
           Inl e \<Rightarrow> also_do (if is_rejected e then change (\<lambda>l. l\<lparr>target := previous\<rparr>)
               else if is_conflict e then restore_later E RESTORE_INTERVAL else ret ()) (ret (Inl e))
         | Inr _ \<Rightarrow> also_do (wrote E (pcr_config report) new) (ret (Inr ())))) l1 w')
           (\<lambda>r l' _. target_answer previous new r l') (\<lambda>_ _. True)"
        proof (cases "pcr_config report = new")
          case True
          show ?thesis unfolding if_P [OF True] wlp_basic using l1 by (simp add: target_answer_def)
        next
          case False
          show ?thesis unfolding if_not_P [OF False] by (rule put [OF l1(1,2)])
        qed
      qed
    qed
  qed
qed

lemma set_target_answer:
  assumes "set_target E new l w = Ret r l' w'" "conn l \<noteq> None"
    and "\<And>i. wl_info l = Some i \<Longrightarrow> fst (validate_pin_config new (available i)) = RESULT_OK"
  shows "target_answer (target l) new r l'"
proof -
  obtain res g where v: "(case wl_info l of None \<Rightarrow> (RESULT_OK, RESULT_GPIO_NONE)
      | Some i \<Rightarrow> validate_pin_config new (available i)) = (res, g)" by force
  have "res = RESULT_OK" using v assms(3) by (auto split: option.splits)
  then have "write_target E new (target l) (l\<lparr>target := Some new\<rparr>) w = Ret r l' w'"
    using assms(1,2) v by (auto simp: set_target_def also_do_def bind_def look_def change_def)
  then show ?thesis
    using write_target_answer [of "l\<lparr>target := Some new\<rparr>" new E "target l" w] assms(2) by simp
qed

text \<open>C20: Replacing the target keeps the old one exactly when the new one is rejected, by the check
  against the board or by the board itself; after any other error the new target stays. A target
  that does not suit a board already met is refused without touching it.\<close>

theorem target_kept_when_rejected:
  assumes "set_target E new l w = Ret r l' w'"
  shows "target l' = (if \<exists>e. r = Inl e \<and> is_rejected e then target l else Some new) \<and>
    (\<forall>i. wl_info l = Some i \<and> fst (validate_pin_config new (available i)) \<noteq> RESULT_OK \<longrightarrow>
      (\<exists>res g. r = Inl (PinConfigRejected res g True)) \<and> l' = l \<and> w' = w)"
proof (cases "\<exists>i. wl_info l = Some i \<and> fst (validate_pin_config new (available i)) \<noteq> RESULT_OK")
  case True
  then show ?thesis
    using assms by (auto simp: set_target_def bind_def look_def ret_def is_rejected_def split: prod.splits)
next
  case ok: False
  show ?thesis
  proof (cases "conn l")
    case None
    then show ?thesis
      using assms ok by (auto simp: set_target_def also_do_def bind_def look_def ret_def change_def
          split: option.splits prod.splits)
  next
    case (Some c)
    then show ?thesis using set_target_answer [OF assms] ok by (auto simp: target_answer_def)
  qed
qed

theorem target_kept_when_rejected_witness:
  "target (case set_target dead_env unused_config idle_loop 0 of Ret r l w \<Rightarrow> l) = Some unused_config"
proof -
  have s: "set_target dead_env unused_config idle_loop 0 = Ret (Inr ()) (idle_loop\<lparr>target := Some unused_config\<rparr>) 0"
    by (simp add: set_target_def also_do_def bind_def look_def ret_def change_def idle_loop_def initial_loop_def)
  show ?thesis using target_kept_when_rejected [OF s] by (simp add: s)
qed

text \<open>C21: What becomes of a new target that a connected device could not be given, if the target suits the
  board: the device is still held, and the target is the new one unless the device rejected it,
  but a write is scheduled only after a conflict with another program. After any other error none
  is, and one that was scheduled before is cancelled. The documentation of \<open>set_target_pins\<close>
  promises another write after every failure but a rejection, which the code does not do by
  itself.\<close>

theorem retried_only_after_conflict:
  assumes "set_target E new l w = Ret r l' w'" "conn l \<noteq> None"
    and "\<And>i. wl_info l = Some i \<Longrightarrow> fst (validate_pin_config new (available i)) = RESULT_OK"
  shows "conn l' \<noteq> None \<and>
    target l' = (if \<exists>e. r = Inl e \<and> is_rejected e then target l else Some new) \<and>
    (restore_at l' \<noteq> None \<longleftrightarrow> (\<exists>e. r = Inl e \<and> is_conflict e))"
  using set_target_answer [OF assms] by (simp add: target_answer_def)

theorem retried_only_after_conflict_witness:
  "\<exists>l' w'. set_target dead_env unused_config
     (idle_loop\<lparr>conn := Some (new_connection sample_device False), restore_at := Some (Instant 5)\<rparr>) 0 =
       Ret (Inl (Io dead_error)) l' w' \<and> target l' = Some unused_config \<and> restore_at l' = None"
proof -
  let ?l = "idle_loop\<lparr>conn := Some (new_connection sample_device False), restore_at := Some (Instant 5)\<rparr>"
  obtain l' w' where s: "set_target dead_env unused_config ?l 0 = Ret (Inl (Io dead_error)) l' w'"
    "target l' = Some unused_config"
    by (simp add: set_target_def write_target_def also_do_def bind_def look_def ret_def change_def on_device_def
        idle_loop_def initial_loop_def new_connection_def get_pin_config_def seq_op_def get_feature_def Let_def
        dead_env_def)
  show ?thesis
    using retried_only_after_conflict [OF s(1)] s by (auto simp: idle_loop_def initial_loop_def is_conflict_def)
qed

section \<open>Outputs driven by a write\<close>

text \<open>C24: The outputs the watcher says a write drove are those the board drove: after the write a pin
  that is now an output has its initial level if it is among them, and its old level if not.\<close>

theorem driven_outputs_exact:
  assumes "n < 30" "is_output (new ! n)"
  shows "bit (levels_after prev new ins lv) n =
    (if word_of_nat n \<in> set (driven_outputs prev new) then param (new ! n) \<noteq> 0 else bit lv n)"
proof -
  have u: "unat (word_of_nat n :: u8) = n" using assms(1) by (simp add: unat_of_nat)
  have "\<not> is_monitored (new ! n)" using assms(2) is_monitored_not_output by blast
  then show ?thesis
    using assms bit_levels_after [of n prev new ins lv] u
    by (auto simp: new_level_def driven_outputs_def set_gpio_range)
qed

theorem driven_outputs_exact_witness:
  "bit (levels_after unused_config one_output 0 0) 3"
proof -
  have o: "one_output ! 3 = output_setting True"
    by (simp add: one_output_def wf_config_length [OF wf_unused])
  have "word_of_nat 3 \<in> set (driven_outputs unused_config one_output)"
    using o by (simp add: driven_outputs_def set_gpio_range is_output_def output_setting_def unused_setting_def)
  then show ?thesis
    using driven_outputs_exact [of 3 one_output unused_config 0 0] o
    by (simp add: is_output_def output_setting_def)
qed

section \<open>The time of an edge\<close>

text \<open>The two windows of clock samples: when the current one began, its samples, and those of the
  window before.\<close>

definition window_step :: "sample \<Rightarrow> instant option \<times> sample list \<times> sample list \<Rightarrow>
    instant option \<times> sample list \<times> sample list" where
  "window_step s ws = (case ws of (start, cur, prev) \<Rightarrow>
     (case start of
        Some t \<Rightarrow> if since (fst s) t < CLOCK_WINDOW then (start, cur @ [s], prev) else (Some (fst s), [s], cur)
      | None \<Rightarrow> (Some (fst s), [s], cur)))"

definition windows :: "sample list \<Rightarrow> instant option \<times> sample list \<times> sample list" where
  "windows ss = fold window_step ss (None, [], [])"

definition clock_after :: "sample list \<Rightarrow> device_clock" where
  "clock_after ss = fold (\<lambda>(t, us) c. clock_add c t us) ss empty_clock"

text \<open>The samples that still count.\<close>

definition recent :: "sample list \<Rightarrow> sample set" where
  "recent ss = (case windows ss of (_, cur, prev) \<Rightarrow> set cur \<union> set prev)"

lemma windows_tracked:
  "case windows ss of (start, cur, prev) \<Rightarrow> cur_start (clock_after ss) = start \<and> tracks (clock_after ss) cur prev \<and>
     (ss \<noteq> [] \<longrightarrow> cur \<noteq> []) \<and> set cur \<union> set prev \<subseteq> set ss"
proof (induction ss rule: rev_induct)
  case Nil
  then show ?case using tracks_empty by (simp add: windows_def clock_after_def empty_clock_def)
next
  case (snoc s ss)
  obtain t us where s: "s = (t, us)" by (cases s)
  obtain start cur prev where w: "windows ss = (start, cur, prev)" by (metis prod_cases3)
  have IH: "cur_start (clock_after ss) = start" "tracks (clock_after ss) cur prev"
    "set cur \<union> set prev \<subseteq> set ss" using snoc by (simp_all add: w)
  have c: "clock_after (ss @ [s]) = clock_add (clock_after ss) t us" by (simp add: clock_after_def s)
  have st: "cur_start (clock_add (clock_after ss) t us) = fst (window_step s (start, cur, prev))"
    using IH(1,2) by (auto simp: clock_add_def window_step_def Let_def s tracks_def split: option.splits)
  have ws: "windows (ss @ [s]) = window_step s (start, cur, prev)" by (simp add: windows_def flip: w)
  show ?case
  proof (cases "\<exists>t0. start = Some t0 \<and> since t t0 < CLOCK_WINDOW")
    case True
    then have "windows (ss @ [s]) = (start, cur @ [s], prev)"
      unfolding ws by (auto simp: window_step_def s)
    moreover have "windows_add (cur_start (clock_after ss)) s (cur, prev) = (cur @ [s], prev)"
      using True IH(1) by (auto simp: windows_add_def s)
    ultimately show ?thesis
      using tracks_add [OF IH(2), of t us, folded s] IH(3) st c ws by auto
  next
    case False
    then have "windows (ss @ [s]) = (Some t, [s], cur)"
      unfolding ws by (auto simp: window_step_def s split: option.split)
    moreover have "windows_add (cur_start (clock_after ss)) s (cur, prev) = ([s], cur)"
      using False IH(1) by (auto simp: windows_add_def s split: option.split)
    ultimately show ?thesis
      using tracks_add [OF IH(2), of t us, folded s] IH(3) st c ws by auto
  qed
qed

lemma offset_exact:
  assumes "0 \<le> at_ns base" "at_ns base \<le> 2 ^ 62 * 1000000000" "\<bar>micros\<bar> < 2 ^ 64"
  shows "offset base micros = Some (Instant (at_ns base + 1000 * micros))"
proof -
  have "nat \<bar>micros\<bar> mod 2 ^ 64 = nat \<bar>micros\<bar>" using assms(3) by simp
  then show ?thesis
    using assms
    by (auto simp: offset_def Let_def from_micros_def instant_add_def instant_checked_sub_def
        in_time_range_def time_limit_def split: option.splits)
qed

text \<open>C19: The host time of a device time is the device time plus the smallest host-minus-device
  difference seen in the current window of 30 seconds and the one before: of all reports that
  still count, the one that took the shortest on its way decides.\<close>

theorem clock_estimate:
  assumes "ss \<noteq> []" "\<forall>s \<in> set ss. 0 \<le> at_ns (fst s) \<and> at_ns (fst s) \<le> 2 ^ 62 * 1000000000"
  shows "instant_at (clock_after ss) us = Some (Instant (Min (drift ` recent ss) + 1000 * uint us)) \<and>
    recent ss \<noteq> {} \<and> recent ss \<subseteq> set ss"
proof -
  obtain start cur prev where w: "windows ss = (start, cur, prev)" by (metis prod_cases3)
  have t: "tracks (clock_after ss) cur prev" "cur \<noteq> []" "set cur \<union> set prev \<subseteq> set ss"
    using windows_tracked [of ss] assms(1) by (simp_all add: w)
  have r: "recent ss = set cur \<union> set prev" by (simp add: recent_def w)
  obtain s where s: "best_sample (clock_after ss) = Some s"
    using t(1,2) by (auto simp: best_sample_def tracks_def split: option.splits)
  have "hd cur \<in> set cur \<union> set prev" using t(2) by simp
  then have mem: "s \<in> recent ss" "\<And>t. t \<in> recent ss \<Longrightarrow> drift s \<le> drift t"
    using best_sample_least [OF t(1) s] by (simp_all only: r)
  have min: "Min (drift ` recent ss) = drift s"
    using mem by (intro Min_eqI) (auto simp: r)
  have "0 \<le> at_ns (fst s)" "at_ns (fst s) \<le> 2 ^ 62 * 1000000000"
    using mem(1) t(3) assms(2) by (auto simp: r)
  moreover have "\<bar>uint us - uint (snd s)\<bar> < 2 ^ 64"
  proof -
    have "0 \<le> uint us" "uint us < 2 ^ 64" "0 \<le> uint (snd s)" "uint (snd s) < 2 ^ 64"
      using uint_lt2p [of us] uint_lt2p [of "snd s"] by simp_all
    then show ?thesis by linarith
  qed
  ultimately have "offset (fst s) (uint us - uint (snd s)) =
      Some (Instant (at_ns (fst s) + 1000 * (uint us - uint (snd s))))" by (rule offset_exact)
  then show ?thesis
    using s min mem(1) t(3) r by (auto simp: instant_at_def drift_def algebra_simps)
qed

theorem clock_estimate_witness:
  "instant_at (clock_after [(Instant 5000, 1)]) 3 = Some (Instant (Min (drift ` recent [(Instant 5000, 1)]) + 3000))"
  using clock_estimate [of "[(Instant 5000, 1)]" 3] by simp

end
