(* ===== verification/Watch_Turns.thy ===== *)
theory Watch_Turns
  imports Watch_Keeps
begin

text \<open>
  The invariant for connecting, for requests, and for whole turns of the thread.
\<close>

section \<open>Turns\<close>

lemma apply_target_wf:
  assumes "apply_target E tgt found d w = (Inr (c, driven, aw), d', w')" "wf_config found"
    and "pred_option wf_config tgt"
  shows "wf_config c \<and> (tgt = Some c \<or> tgt = None \<and> c = found)"
  using assms by (auto simp: apply_target_def seq_op_Inr split: option.splits if_splits)

context host
begin

lemma keeps_connected:
  assumes "loop_inv h p l" "wf_config found"
  shows "keeps anything h p (connected E entry i d (found, driven, aw) l w)"
  unfolding connected_def prod.case
proof (intro keeps_change_also)
  let ?l = "l\<lparr>conn := Some (new_connection d aw)\<rparr>"
  have l: "loop_inv h p ?l" "conn ?l \<noteq> None"
    using inv_conn [OF assms(1), of "Some (new_connection d aw)"] by (simp_all add: new_connection_def)
  show "keeps anything h p (also_do reset_failures (bind (look ever_connected) (\<lambda>re.
      also_do (change (\<lambda>l. l\<lparr>ever_connected := True\<rparr>)) (also_do (set_config found)
      (also_do (emit (Connected (de_serial entry) (de_path entry) i found re))
      (also_do (outputs_event found driven re)
      (also_do (if aw then bind (now_plus E SETTLE_TIMEOUT) (\<lambda>t. change (\<lambda>l. l\<lparr>settle_at := Some t\<rparr>))
          else snapshot E)
      (ret (Inr ())))))))) ?l w)"
  proof (rule keeps_also, rule keeps_reset_failures [OF l(1)], intro keeps_look_bind keeps_change_also)
    fix l1 w and re
    assume l1: "loop_inv h p l1" "conn l1 = conn ?l"
    have i1: "loop_inv h p (l1\<lparr>ever_connected := True\<rparr>)" using l1 by simp
    show "keeps anything h p (also_do (set_config found)
      (also_do (emit (Connected (de_serial entry) (de_path entry) i found (ever_connected l1)))
      (also_do (outputs_event found driven (ever_connected l1))
      (also_do (if aw then bind (now_plus E SETTLE_TIMEOUT) (\<lambda>t. change (\<lambda>l. l\<lparr>settle_at := Some t\<rparr>))
          else snapshot E)
      (ret (Inr ()))))) (l1\<lparr>ever_connected := True\<rparr>) w)"
    proof (rule keeps_also, rule keeps_set_config [OF i1 assms(2)],
        rule keeps_also [where R = "\<lambda>_ l'. conn l' = conn ?l"])
      fix l2 w
      assume l2: "loop_inv h p l2" "conn l2 = conn (l1\<lparr>ever_connected := True\<rparr>) \<and>
        target l2 = target (l1\<lparr>ever_connected := True\<rparr>) \<and> config l2 = found"
      show "keeps (\<lambda>_ l'. conn l' = conn ?l) h p
          (emit (Connected (de_serial entry) (de_path entry) i found (ever_connected l1)) l2 w)"
        using l1 l2 by (auto intro: keeps_emit)
    next
      fix l3 w
      assume l3: "loop_inv h p l3" "conn l3 = conn ?l"
      show "keeps anything h p (also_do (outputs_event found driven (ever_connected l1))
          (also_do (if aw then bind (now_plus E SETTLE_TIMEOUT) (\<lambda>t. change (\<lambda>l. l\<lparr>settle_at := Some t\<rparr>))
            else snapshot E) (ret (Inr ()))) l3 w)"
      proof (rule keeps_also, rule keeps_outputs_event [OF l3(1)],
          rule keeps_also [where R = "anything"], rule keeps_if)
        fix l4 w
        assume l4: "loop_inv h p l4" "conn l4 = conn l3"
        show "keeps anything h p (bind (now_plus E SETTLE_TIMEOUT) (\<lambda>t. change (\<lambda>l. l\<lparr>settle_at := Some t\<rparr>)) l4 w)"
          using l4 by (intro keeps_now_plus keeps_change) simp_all
        show "keeps anything h p (snapshot E l4 w)"
          using l4 l3 by (intro keeps_snapshot) simp_all
      qed (simp add: keeps_ret)
    qed
  qed
qed

lemma keeps_connect:
  assumes "loop_inv h p l"
  shows "keeps anything h p (connect E entry l w)"
proof -
  have fail: "keeps anything h p (Ret (Inl e) (l\<lparr>wl_info := i\<rparr>) w)"
    "keeps anything h p (Ret (Inl e) l w)" for e i w
    using assms by (simp_all add: keeps_def)
  have stop: "is_rejected e \<Longrightarrow> keeps anything h p (Fatal e (l\<lparr>wl_info := i\<rparr>) w)" for e i w
    using assms by (simp add: keeps_def stops_def)
  have tgt: "pred_option wf_config (target l)" using assms by (simp add: loop_inv_def base_inv_def)
  have conn: "keeps anything h p (connected E entry i d fda (l\<lparr>wl_info := Some i\<rparr>) w)"
    if "wf_config (fst fda)" for i d fda w
    using that assms keeps_connected [of h p "l\<lparr>wl_info := Some i\<rparr>" "fst fda" entry i d] by (cases fda) auto
  have tw: "wf_config (fst fda)" if "apply_target E (target l) found d w = (Inr fda, d', w')"
      "wf_config found" for found d w fda d' w'
    using apply_target_wf [of E "target l" found d w "fst fda" "fst (snd fda)" "snd (snd fda)" d' w'] that tgt
    by simp
  show ?thesis
    unfolding connect_def
    by (auto simp: fail stop split!: prod.split sum.split if_split intro!: conn
        dest!: get_pin_config_Inr tw)
qed

lemma keeps_try_entries:
  assumes "loop_inv h p l"
  shows "keeps anything h p (try_entries E entries l w)"
  unfolding try_entries_def
proof (rule keeps_look_bind)
  show "keeps anything h p ((case matching_entries (wl_serial l) entries of
       [] \<Rightarrow> also_do reset_failures (scan_later E)
     | entry # others \<Rightarrow>
         if wl_serial l = None \<and> others \<noteq> []
         then fatal (SeveralDevices (map de_serial (entry # others)))
         else
           also_do (change (\<lambda>l. l\<lparr>wl_serial := Some (de_serial entry)\<rparr>))
           (bind (connect E entry) (\<lambda>r. case r of
              Inr _ \<Rightarrow> ret ()
            | Inl e \<Rightarrow> also_do (failed e) (scan_later E)))) l w)"
  proof (cases "matching_entries (wl_serial l) entries")
    case Nil
    then show ?thesis
      by simp (rule keeps_also, rule keeps_reset_failures [OF assms], rule keeps_any, rule keeps_scan_later)
  next
    case (Cons entry others)
    have k: "keeps anything h p (bind (connect E entry) (\<lambda>r. case r of
          Inr _ \<Rightarrow> ret () | Inl e \<Rightarrow> also_do (failed e) (scan_later E))
        (l\<lparr>wl_serial := Some (de_serial entry)\<rparr>) w)"
    proof (rule keeps_bind, rule keeps_connect)
      fix x l1 w
      assume l1: "loop_inv h p l1"
      show "keeps anything h p ((case x of Inr _ \<Rightarrow> ret () | Inl e \<Rightarrow> also_do (failed e) (scan_later E)) l1 w)"
      proof (cases x)
        case (Inl e)
        show ?thesis
          unfolding Inl sum.case
          by (rule keeps_also, rule keeps_failed [OF l1], rule keeps_any, rule keeps_scan_later)
      qed (simp add: l1 keeps_ret)
    qed (simp add: assms)
    show ?thesis
      unfolding Cons list.case
      by (intro keeps_if keeps_fatal keeps_change_also k) (simp_all add: assms stops_def)
  qed
qed

lemma keeps_try_connect:
  assumes "loop_inv h p l"
  shows "keeps anything h p (try_connect E l w)"
  unfolding try_connect_def
proof (rule keeps_bind [where R = anything])
  show "keeps anything h p (list_devices E l w)"
    using assms by (simp add: list_devices_def keeps_def split: prod.split)
  fix x l1 w
  assume l1: "loop_inv h p l1"
  show "keeps anything h p ((case x of
      Inl e \<Rightarrow> if e = UnsupportedPlatform then fatal e else also_do (failed e) (scan_later E)
    | Inr entries \<Rightarrow> try_entries E entries) l1 w)"
  proof (cases x)
    case (Inl e)
    have "keeps anything h p (also_do (failed e) (scan_later E) l1 w)"
      by (rule keeps_also, rule keeps_failed [OF l1], rule keeps_any, rule keeps_scan_later)
    then show ?thesis
      unfolding Inl sum.case by (intro keeps_if keeps_fatal) (simp_all add: l1 stops_def)
  next
    case (Inr es)
    then show ?thesis using keeps_try_entries l1 by simp
  qed
qed

end

definition request_ok :: "request_op \<Rightarrow> bool" where
  "request_ok r \<longleftrightarrow> (case r of SetOutputs _ \<Rightarrow> True | SetTarget tgt \<Rightarrow> wf_config tgt)"

context host
begin

lemma keeps_run_request:
  assumes "loop_inv h p l" "request_ok r"
  shows "keeps anything h p (run_request E r l w)"
proof (cases r)
  case (SetOutputs lvls)
  show ?thesis
  proof (cases "conn l")
    case None
    then show ?thesis
      using assms by (simp add: run_request_def SetOutputs keeps_look_bind keeps_ret)
  next
    case (Some c)
    then show ?thesis
      using keeps_on_device [OF assms(1) Some, of "set_outputs E lvls" w anything]
      by (simp add: run_request_def SetOutputs keeps_look_bind)
  qed
next
  case (SetTarget tgt)
  then show ?thesis using assms keeps_set_target by (simp add: run_request_def request_ok_def)
qed

lemma keeps_run_requests:
  "loop_inv h p l \<Longrightarrow> list_all (\<lambda>(_, r). request_ok r) rs \<Longrightarrow> keeps anything h p (run_requests E rs l w)"
proof (induction rs arbitrary: l w)
  case Nil
  then show ?case by (simp add: keeps_ret)
next
  case (Cons x rs)
  obtain n r where x: "x = (n, r)" by (cases x)
  have r: "request_ok r" "list_all (\<lambda>(_, r). request_ok r) rs" using Cons.prems by (simp_all add: x)
  show ?case
    unfolding x run_requests.simps
  proof (rule keeps_bind, rule keeps_run_request [OF Cons.prems(1) r(1)])
    fix a l1 w
    assume "loop_inv h p l1"
    then show "keeps anything h p (bind (run_requests E rs) (\<lambda>as. ret ((n, a) # as)) l1 w)"
      using Cons.IH [OF _ r(2)] by (auto intro!: keeps_bind keeps_ret)
  qed
qed

lemma keeps_read_report:
  assumes "loop_inv h p l" "conn l \<noteq> None"
  shows "keeps (\<lambda>x l'. conn l' \<noteq> None \<and> (case x of Inl _ \<Rightarrow> True | Inr (n, buf) \<Rightarrow> n \<le> length buf)) h p
    (read_report E timeout l w)"
proof -
  obtain c where c: "conn l = Some c" using assms(2) by auto
  show ?thesis
  proof (cases "e_read E (dev_handle (c_device c)) (replicate REPORT_LEN 0) (Some timeout) w")
    case None
    then show ?thesis by (simp add: read_report_def c read_raw_def keeps_def)
  next
    case (Some a)
    obtain r data w' where a: "a = (r, data, w')" by (cases a)
    have "loop_inv h p (l\<lparr>conn := Some (c\<lparr>c_device := d\<rparr>)\<rparr>)" for d
      using inv_conn [OF assms(1), of "Some (c\<lparr>c_device := d\<rparr>)"] inv_clock [OF assms(1) c] by simp
    moreover have "loop_inv h p (l\<lparr>conn := Some c\<rparr>)"
      using inv_conn [OF assms(1), of "Some c"] inv_clock [OF assms(1) c] by simp
    ultimately show ?thesis
      using Some read_bound [of "dev_handle (c_device c)" "replicate REPORT_LEN 0" "Some timeout" w]
      by (cases r) (auto simp: read_report_def c read_raw_def keeps_def a)
  qed
qed

lemma keeps_read_device:
  assumes "loop_inv h p l" "conn l \<noteq> None"
  shows "keeps anything h p (read_device E timeout l w)"
  unfolding read_device_def
proof (rule keeps_bind, rule keeps_read_report [OF assms])
  fix x :: "(nat \<times> bytes) result" and l1 and w :: 'w
  assume l1: "loop_inv h p l1"
    "conn l1 \<noteq> None \<and> (case x of Inl _ \<Rightarrow> True | Inr (n, buf) \<Rightarrow> n \<le> length buf)"
  obtain c where c: "conn l1 = Some c" using l1 by auto
  show "keeps anything h p ((case x of Inl e \<Rightarrow> lost E e
      | Inr (n, buf) \<Rightarrow> if n = 0 then ret ()
         else bind (or_panic (if n \<le> length buf then Some (take n buf) else None))
           (\<lambda>data. bind (now E) (\<lambda>t. received E data t))) l1 w)"
  proof (cases x)
    case (Inl e)
    then show ?thesis using l1 by simp
  next
    case (Inr nb)
    obtain n buf where nb: "nb = (n, buf)" by (cases nb)
    have "keeps anything h p (bind (now E) (\<lambda>t. received E (take n buf) t) l1 w)"
      by (rule keeps_now [OF l1(1)], rule keeps_received [OF l1(1) c])
    then show ?thesis
      using l1 Inr nb by (simp add: keeps_ret bind_Ret [of "or_panic _"] or_panic_def)
  qed
qed

lemma keeps_settle:
  assumes "loop_inv h p l"
  shows "keeps anything h p (settle E l w)"
proof (cases "conn l")
  case None
  then show ?thesis using assms
    unfolding settle_def by (intro keeps_change_also keeps_look_bind) (simp add: keeps_ret)
next
  case (Some c)
  let ?l = "l\<lparr>settle_at := None, conn := Some (c\<lparr>awaiting_config := False\<rparr>)\<rparr>"
  have i: "loop_inv h p ?l"
    using inv_conn [of h p "l\<lparr>settle_at := None\<rparr>" "Some (c\<lparr>awaiting_config := False\<rparr>)"]
      inv_clock [OF assms Some] assms by simp
  have "settle E l w = snapshot E ?l w"
    using Some by (simp add: settle_def also_do_def bind_def change_def look_def change_conn_def)
  then show ?thesis using keeps_snapshot [OF i] by simp
qed

lemma keeps_idle_turn:
  assumes "loop_inv h p l"
  shows "keeps anything h p (idle_turn E l w)"
  unfolding idle_turn_def
proof (rule keeps_now [OF assms], rule keeps_look_bind, intro keeps_if)
  fix t w'
  show "keeps anything h p (scan E l w')"
    unfolding scan_def by (intro keeps_change_also keeps_try_connect) (simp add: assms)
  show "keeps anything h p (restore E l w')"
    unfolding restore_def
    by (intro keeps_change_also keeps_any [OF keeps_restore_target]) (simp add: assms)
  show "keeps anything h p (settle E l w')" by (rule keeps_settle [OF assms])
  show "keeps anything h p (ret () l w')" by (simp add: assms keeps_ret)
  assume "\<not> (pending l \<noteq> [] \<or> conn l = None)"
  then show "keeps anything h p (read_device E (read_timeout l t) l w')"
    by (intro keeps_read_device [OF assms]) simp
qed

lemma keeps_turn_body:
  assumes "loop_inv h p l" "list_all (\<lambda>(_, r). request_ok r) rs"
  shows "keeps anything h p (turn_body E rs l w)"
  unfolding turn_body_def
proof (intro keeps_if)
  show "keeps anything h p (run_requests E rs l w)" using assms by (rule keeps_run_requests)
  show "keeps anything h p (also_do (idle_turn E) (ret []) l w)"
    by (rule keeps_also, rule keeps_idle_turn [OF assms(1)]) (simp add: keeps_ret)
qed

end

section \<open>Answers\<close>

text \<open>Requests neither stop the watcher nor wait: each is answered, in the order of the queue.\<close>

definition answers_only :: "('w, 'a) outcome \<Rightarrow> bool" where
  "answers_only r = (case r of Ret x l w \<Rightarrow> True | Panic \<Rightarrow> True | _ \<Rightarrow> False)"

named_theorems answer_rules \<open>operations that neither stop the watcher nor wait\<close>

lemma answers_bind [answer_rules]:
  "answers_only (m l w) \<Longrightarrow> (\<And>x l w. answers_only (f x l w)) \<Longrightarrow> answers_only (bind m f l w)"
  by (cases "m l w") (simp_all add: bind_def answers_only_def)

lemma answers_also [answer_rules]:
  "answers_only (m l w) \<Longrightarrow> (\<And>l w. answers_only (n l w)) \<Longrightarrow> answers_only (also_do m n l w)"
  unfolding also_do_def by (rule answers_bind)

lemma answers_basic [answer_rules]:
  "answers_only (ret x l w)" "answers_only (change g l w)" "answers_only (look h l w)"
  "answers_only (or_panic y l w)" "answers_only (now E l w)" "answers_only (emit ev l w)"
  "answers_only (on_device m l w)" "answers_only (set_config c l w)"
  by (simp_all add: answers_only_def ret_def change_def look_def or_panic_def now_def emit_def
      on_device_def set_config_def split: option.split prod.split)

lemma answers_now_plus [answer_rules]: "answers_only (now_plus E d l w)"
  unfolding now_plus_def by (intro answer_rules)

lemma answers_wrote [answer_rules]: "answers_only (wrote E found new l w)"
  unfolding wrote_def by (intro answer_rules) (auto intro: answer_rules)

lemma answers_restore_later [answer_rules]: "answers_only (restore_later E d l w)"
  unfolding restore_later_def by (intro answer_rules)

lemma answers_write_target [answer_rules]: "answers_only (write_target E new previous l w)"
  unfolding write_target_def
  by (intro answer_rules) (auto split!: sum.split intro!: answer_rules)

lemma answers_run_request [answer_rules]: "answers_only (run_request E r l w)"
  unfolding run_request_def set_target_def
  by (auto split!: request_op.split option.split prod.split intro!: answer_rules)

lemma answers_run_requests [answer_rules]: "answers_only (run_requests E rs l w)"
proof (induction rs arbitrary: l w)
  case (Cons x rs)
  then show ?case by (cases x) (auto intro!: answer_rules)
qed (simp add: answer_rules)

lemma run_requests_numbers:
  "run_requests E rs l w = Ret as l' w' \<Longrightarrow> map fst as = map fst rs"
proof (induction rs arbitrary: as l w)
  case (Cons x rs)
  then show ?case
    by (cases x) (fastforce simp: bind_def ret_def split: outcome.splits)
qed (simp add: ret_def)

lemma turn_body_answers:
  "turn_body E rs l w = Ret as l' w' \<Longrightarrow> map fst as = map fst rs"
  "turn_body E rs l w = Fatal e l' w' \<Longrightarrow> rs = []"
  "turn_body E rs l w = Blocks \<Longrightarrow> rs = []"
  using run_requests_numbers [of E rs l w as l' w'] answers_run_requests [of E rs l w]
  by (auto simp: turn_body_def also_do_def bind_def ret_def answers_only_def
      split: if_splits outcome.splits)

section \<open>The system\<close>

definition history :: "'w system \<Rightarrow> event list" where
  "history s = sys_taken s @ out (sys_shared s) @ pending (sys_loop s)"

definition sys_inv :: "'w system \<Rightarrow> bool" where
  "sys_inv s \<longleftrightarrow> sys_thread s \<noteq> Crashed \<and>
     list_all (\<lambda>(_, r). request_ok r) (requests (sys_shared s)) \<and>
     flips (sys_taken s @ out (sys_shared s)) \<and>
     (sys_thread s = Running \<longrightarrow>
        loop_inv (sys_taken s @ out (sys_shared s)) [] (sys_loop s) \<and>
        length (out (sys_shared s)) \<le> OUT_CAPACITY) \<and>
     (finished (sys_shared s) \<longleftrightarrow> sys_thread s = Ended) \<and>
     (sys_thread s = Ended \<longrightarrow> requests (sys_shared s) = []) \<and>
     map fst (sys_replies s) @ map fst (requests (sys_shared s)) = sys_posted s \<and>
     pred_option stops (sh_error (sys_shared s))"

lemma deliver_spec:
  assumes "deliver pend queue = (pend', queue')"
  shows "\<exists>d. queue' = queue @ d \<and> pend = d @ pend' \<and> (pend' = [] \<or> OUT_CAPACITY \<le> length queue') \<and>
    (length queue \<le> OUT_CAPACITY \<longrightarrow> length queue' \<le> OUT_CAPACITY)"
  using assms
proof (induction pend queue rule: deliver.induct)
  case (2 e pend queue)
  show ?case
  proof (cases "length queue < OUT_CAPACITY")
    case True
    with 2 obtain d where "queue' = (queue @ [e]) @ d" "pend = d @ pend'"
      "pend' = [] \<or> OUT_CAPACITY \<le> length queue'"
      "length (queue @ [e]) \<le> OUT_CAPACITY \<longrightarrow> length queue' \<le> OUT_CAPACITY" by auto
    with True show ?thesis by (intro exI [of _ "e # d"]) auto
  qed (use 2 in auto)
qed simp

lemma inv_flips: "loop_inv h p l \<Longrightarrow> flips (h @ pending l)"
  by (simp add: loop_inv_def agrees_def)

lemma inv_delivered:
  assumes "loop_inv (tk @ queue) [] l" "pending l = d @ pend'"
  shows "loop_inv (tk @ queue @ d) pend' (l\<lparr>pending := pend'\<rparr>)"
  using assms by (simp add: loop_inv_def base_inv_def)

lemma inv_weaken: "loop_inv h p l \<Longrightarrow> loop_inv h [] l"
  by (simp add: loop_inv_def base_inv_def)

lemma take_event_Some:
  "take_event sh = (Some (Inr e), sh') \<longleftrightarrow> (\<exists>es. out sh = e # es \<and> sh' = sh\<lparr>out := es\<rparr>)"
  by (auto simp: take_event_def split: list.splits if_splits)

lemma post_request_None:
  "post_request n r sh = (None, sh') \<longleftrightarrow>
     \<not> finished sh \<and> \<not> stopping sh \<and> sh' = sh\<lparr>requests := requests sh @ [(n, r)]\<rparr>"
  by (auto simp: post_request_def)

lemma post_request_Some: "post_request n r sh = (Some a, sh') \<Longrightarrow> sh' = sh"
  by (auto simp: post_request_def split: if_splits)

lemma set_target_pins_Some: "set_target_pins n tgt sh = (Some a, sh') \<Longrightarrow> sh' = sh"
  by (auto simp: set_target_pins_def post_request_def split: if_splits sum.splits)

lemma set_target_pins_None:
  "set_target_pins n tgt sh = (None, sh') \<longleftrightarrow> check_target tgt = Inr () \<and>
     post_request n (SetTarget tgt) sh = (None, sh')"
  by (auto simp: set_target_pins_def split: sum.splits)

context host
begin

text \<open>What a turn does to the system, by the way the thread goes on.\<close>

lemma turn_cases:
  assumes "sys_inv s" "sys_thread s = Running"
  obtains (closed)  "stopping (sys_shared s)" "sys_thread (turn E s) = Ended"
      "out (sys_shared (turn E s)) = []" "sh_error (sys_shared (turn E s)) = sh_error (sys_shared s)"
      "sys_taken (turn E s) = sys_taken s" "finished (sys_shared (turn E s))"
      "requests (sys_shared (turn E s)) = []" "sys_posted (turn E s) = sys_posted s"
      "map fst (sys_replies (turn E s)) = map fst (sys_replies s) @ map fst (requests (sys_shared s))"
  | (goes_on) es where "\<not> stopping (sys_shared s)" "sys_thread (turn E s) = Running"
      "history (turn E s) = history s @ es" "sys_taken (turn E s) = sys_taken s"
      "loop_inv (sys_taken s @ out (sys_shared (turn E s))) [] (sys_loop (turn E s))"
      "length (out (sys_shared (turn E s))) \<le> OUT_CAPACITY"
      "requests (sys_shared (turn E s)) = []" "\<not> finished (sys_shared (turn E s))"
      "sh_error (sys_shared (turn E s)) = sh_error (sys_shared s)" "sys_posted (turn E s) = sys_posted s"
      "map fst (sys_replies (turn E s)) = map fst (sys_replies s) @ map fst (requests (sys_shared s))"
  | (fatal_stop) e es where "\<not> stopping (sys_shared s)" "sys_thread (turn E s) = Ended" "stops e"
      "history (turn E s) = history s @ es" "sys_taken (turn E s) = sys_taken s"
      "flips (sys_taken s @ out (sys_shared (turn E s)))" "pending (sys_loop (turn E s)) = []"
      "requests (sys_shared (turn E s)) = []" "finished (sys_shared (turn E s))"
      "sh_error (sys_shared (turn E s)) = Some e" "sys_posted (turn E s) = sys_posted s"
      "map fst (sys_replies (turn E s)) = map fst (sys_replies s) @ map fst (requests (sys_shared s))"
  | (stuck) "\<not> stopping (sys_shared s)" "sys_thread (turn E s) = Stuck"
      "history (turn E s) = history s" "sys_taken (turn E s) = sys_taken s"
      "requests (sys_shared (turn E s)) = []" "\<not> finished (sys_shared (turn E s))"
      "sh_error (sys_shared (turn E s)) = sh_error (sys_shared s)"
      "flips (sys_taken s @ out (sys_shared (turn E s)))" "sys_posted (turn E s) = sys_posted s"
      "map fst (sys_replies (turn E s)) = map fst (sys_replies s) @ map fst (requests (sys_shared s))"
proof -
  let ?sh = "sys_shared s" and ?l = "sys_loop s"
  obtain pend' queue' where del: "deliver (pending ?l) (out ?sh) = (pend', queue')" by force
  obtain d where d: "queue' = out ?sh @ d" "pending ?l = d @ pend'" "length queue' \<le> OUT_CAPACITY"
    using deliver_spec [OF del] assms by (auto simp: sys_inv_def)
  let ?l' = "?l\<lparr>pending := pend'\<rparr>"
  have i: "loop_inv (sys_taken s @ queue') pend' ?l'"
    using inv_delivered [of "sys_taken s" "out ?sh" ?l d pend'] assms d by (simp add: sys_inv_def)
  have hist: "history s = sys_taken s @ queue' @ pend'" by (simp add: history_def d)
  have run: "\<not> finished ?sh" using assms by (simp add: sys_inv_def)
  show thesis
  proof (cases "stopping ?sh")
    case True
    then show thesis
      using closed del by (simp add: turn_def end_thread_def finish_def dropped_def comp_def case_prod_beta Let_def)
  next
    case False
    have reqs: "list_all (\<lambda>(_, r). request_ok r) (requests ?sh)" using assms by (simp add: sys_inv_def)
    have k: "keeps anything (sys_taken s @ queue') pend' (turn_body E (requests ?sh) ?l' (sys_world s))"
      by (rule keeps_turn_body [OF i reqs])
    show thesis
    proof (cases "turn_body E (requests ?sh) ?l' (sys_world s)")
      case (Ret answers l w)
      then have li: "loop_inv (sys_taken s @ queue') pend' l" using k by (simp add: keeps_def)
      then obtain es where "pending l = pend' @ es" by (auto simp: loop_inv_def base_inv_def)
      then show thesis
        using goes_on [of es] turn_body_answers(1) [OF Ret] False del Ret li d(3) run hist inv_weaken [OF li] assms(2)
        by (simp add: turn_def Let_def history_def)
    next
      case (Fatal e l w)
      then have li: "loop_inv (sys_taken s @ queue') pend' l" "stops e" using k by (simp_all add: keeps_def)
      then obtain es where es: "pending l = pend' @ es" by (auto simp: loop_inv_def base_inv_def)
      have "flips (sys_taken s @ queue' @ pend' @ es)" using inv_flips [OF li(1)] es by simp
      then have "flips (sys_taken s @ out ?sh @ pending ?l @ es)" by (simp add: d)
      then show thesis
        using fatal_stop [of e es] turn_body_answers(2) [OF Fatal] False del Fatal li hist es
        by (cases "conn l") (simp_all add: turn_def end_thread_def finish_def dropped_def Let_def history_def)
    next
      case Panic
      then show thesis using k by (simp add: keeps_def)
    next
      case Blocks
      have "flips (sys_taken s @ queue')" using inv_flips [OF i] flips_prefix by auto
      then show thesis
        using stuck turn_body_answers(3) [OF Blocks] False del Blocks hist run by (simp add: turn_def Let_def history_def)
    qed
  qed
qed

lemma turn_inv:
  assumes "sys_inv s" "sys_thread s = Running"
  shows "sys_inv (turn E s)"
  using assms
proof (cases rule: turn_cases)
  case closed
  have "flips (sys_taken s)" using assms(1) flips_prefix by (auto simp: sys_inv_def)
  with closed assms show ?thesis by (simp add: sys_inv_def)
next
  case (goes_on es)
  have "flips (sys_taken s @ out (sys_shared (turn E s)))"
    using inv_flips [OF goes_on(5)] flips_prefix by auto
  with goes_on assms show ?thesis by (simp add: sys_inv_def)
next
  case (fatal_stop e es)
  with assms show ?thesis by (simp add: sys_inv_def)
next
  case stuck
  with assms show ?thesis by (simp add: sys_inv_def)
qed

lemma sys_step_inv:
  assumes "sys_step E outside s s'" "sys_inv s"
  shows "sys_inv s'"
  using assms(1)
proof (cases rule: sys_step.cases)
  case thread_turn
  then show ?thesis using turn_inv assms by simp
next
  case (app_take e sh)
  then show ?thesis using assms by (auto simp: take_event_Some sys_inv_def)
next
  case (app_outputs n lvls sh)
  then show ?thesis using assms by (auto simp: post_request_None sys_inv_def request_ok_def)
next
  case (app_target tgt n sh)
  then show ?thesis
    using assms by (auto simp: set_target_pins_None post_request_None sys_inv_def request_ok_def)
next
  case (app_refused_outputs n lvls a sh)
  then show ?thesis using assms post_request_Some by (fastforce simp: sys_inv_def)
next
  case (app_refused_target tgt n a sh)
  then show ?thesis using assms set_target_pins_Some by (fastforce simp: sys_inv_def)
next
  case app_close
  then show ?thesis using assms by (simp add: sys_inv_def request_close_def)
next
  case (world_moves w)
  then show ?thesis using assms by (simp add: sys_inv_def)
qed

lemma start_inv:
  assumes "pred_option wf_config (opt_target opt)" "int (opt_interval opt) \<le> horizon"
  shows "sys_inv (start_system opt t0 w)"
  using assms by (simp add: sys_inv_def start_system_def initial_shared_def initial_loop_def
      loop_inv_def base_inv_def)

lemma reachable_inv:
  assumes "reachable E outside opt t0 s"
    and "pred_option wf_config (opt_target opt)" "int (opt_interval opt) \<le> horizon"
  shows "sys_inv s"
  using assms(1)
proof (induction rule: reachable.induct)
  case (start w)
  show ?case by (rule start_inv [OF assms(2,3)])
next
  case (step s s')
  then show ?case using sys_step_inv by blast
qed

end

end
