(* ===== verification/Watch_Theorems.thy ===== *)
theory Watch_Theorems
  imports Watch_Turns Fake_Theorems
begin

text \<open>
  What the watcher promises to the application, whatever the environment, the application and
  the thread do in which order: properties of every reachable state of the system and of its
  steps. The witnesses run the watcher on the simulated boards of \<open>Fake_Bus\<close>.
\<close>

section \<open>Every reachable state\<close>

definition good_options :: "watch_options \<Rightarrow> bool" where
  "good_options opt \<longleftrightarrow> pred_option wf_config (opt_target opt) \<and> int (opt_interval opt) \<le> horizon"

lemma sys_reachable_inv:
  "host E \<Longrightarrow> reachable E outside opt t0 s \<Longrightarrow> good_options opt \<Longrightarrow> sys_inv s"
  using host.reachable_inv unfolding good_options_def by blast

text \<open>A watcher on the simulated bus, before its first turn and after it.\<close>

definition any_board :: watch_options where
  "any_board = \<lparr>opt_serial = None, opt_target = None, opt_active_low = [], opt_interval = DEFAULT_SCAN_INTERVAL\<rparr>"

definition pico_start :: "fake_world system" where
  "pico_start = start_system any_board (Instant 0) pico_world"

lemma any_board_good: "good_options any_board"
  by (simp add: good_options_def any_board_def DEFAULT_SCAN_INTERVAL_def from_secs_def horizon_def)

lemma pico_turn_reachable: "reachable fake_env test_step any_board (Instant 0) (turn fake_env pico_start)"
proof (rule reachable.step)
  show "reachable fake_env test_step any_board (Instant 0) pico_start"
    unfolding pico_start_def by (rule reachable.start)
  show "sys_step fake_env test_step pico_start (turn fake_env pico_start)"
    by (rule thread_turn) (simp add: pico_start_def start_system_def)
qed

text \<open>C3: The thread of the watcher never panics: no index, no \<open>expect\<close> and no sum of an instant and
  a duration fails, whatever the devices answer, as long as the scan interval and the clocks
  are far from the limits of \<open>Instant\<close>.\<close>

theorem watcher_never_panics:
  assumes "host E" "reachable E outside opt t0 s" "good_options opt"
  shows "sys_thread s \<noteq> Crashed"
  using sys_reachable_inv [OF assms] by (simp add: sys_inv_def)

theorem watcher_never_panics_witness: "sys_thread (turn fake_env pico_start) \<noteq> Crashed"
  by (rule watcher_never_panics [OF fake_host.host_axioms pico_turn_reachable any_board_good])

text \<open>
  The condition on the scan interval is needed. \<open>watch\<close> accepts every positive interval; with
  \<open>Duration::MAX\<close> the first scan that finds no device overflows \<open>Instant::now() + interval\<close>.
  The thread is gone, but \<open>finished\<close> is not set, so the application is never told.
\<close>

definition longest_interval :: watch_options where
  "longest_interval = any_board\<lparr>opt_interval := 2 ^ 64 * 1000000000 - 1\<rparr>"

lemma long_interval_crashes:
  "check_options longest_interval = Inr () \<and>
   (let s = turn fake_env (start_system longest_interval (Instant 0) empty_world) in
     sys_thread s = Crashed \<and> \<not> finished (sys_shared s) \<and>
     take_event (sys_shared s) = (None, sys_shared s))"
  by (simp add: longest_interval_def any_board_def check_options_def start_system_def initial_loop_def
      initial_shared_def turn_def turn_body_def idle_turn_def scan_def try_connect_def list_devices_def
      fake_env_def bus_devices_def empty_world_def try_entries_def matching_entries_def scan_later_def
      reset_failures_def now_plus_def now_def due_def fake_now_def bind_def also_do_def change_def look_def ret_def or_panic_def instant_add_def in_time_range_def
      time_limit_def take_event_def and_then_def bt_keys_def Let_def CLOCK_END_def less_eq_instant_def)

text \<open>C4: Every change the application is told is a change: an \<open>OnOffChange\<close> comes only for a pin
  whose ON/OFF was announced before and was the opposite. And what the watcher knows of a pin
  is what the events told so far say, those still to be delivered included.\<close>

theorem changes_are_changes:
  assumes "host E" "reachable E outside opt t0 s" "good_options opt"
  shows "flips (sys_taken s @ out (sys_shared s)) \<and>
    (sys_thread s = Running \<longrightarrow> flips (history s) \<and>
      (\<forall>g b. map_of (known (sys_loop s)) g = Some b \<longrightarrow> replay (history s) g = Some b))"
  using sys_reachable_inv [OF assms]
  by (simp add: sys_inv_def loop_inv_def agrees_def history_def)

theorem changes_are_changes_witness: "flips (sys_taken (turn fake_env pico_start) @ out (sys_shared (turn fake_env pico_start)))"
  using changes_are_changes [OF fake_host.host_axioms pico_turn_reachable any_board_good] by (rule conjunct1)

text \<open>C8: Events reach the application in the order in which they happened and none is lost, repeated
  or changed: each step of the system appends to the history, unless it is the end of a closed
  watcher, which drops what was not taken.\<close>

theorem events_in_order:
  assumes "host E" "reachable E outside opt t0 s" "good_options opt" "sys_step E outside s s'"
  shows "(\<exists>es. history s' = history s @ es) \<or>
    stopping (sys_shared s) \<and> sys_thread s' = Ended \<and> out (sys_shared s') = [] \<and> sys_taken s' = sys_taken s"
  using assms(4)
proof (cases rule: sys_step.cases)
  case thread_turn
  show ?thesis
    by (rule host.turn_cases [OF assms(1) sys_reachable_inv [OF assms(1-3)] thread_turn(2)])
      (simp_all add: thread_turn(1))
next
  case (app_take e sh)
  then show ?thesis by (auto simp: take_event_Some history_def)
next
  case (app_outputs n lvls sh)
  then show ?thesis by (auto simp: post_request_None history_def)
next
  case (app_target tgt n sh)
  then show ?thesis by (auto simp: set_target_pins_None post_request_None history_def)
next
  case (app_refused_outputs n lvls a sh)
  then show ?thesis using post_request_Some by (fastforce simp: history_def)
next
  case (app_refused_target tgt n a sh)
  then show ?thesis using set_target_pins_Some by (fastforce simp: history_def)
qed (simp_all add: history_def request_close_def)

theorem events_in_order_witness:
  "\<exists>es. history (turn fake_env pico_start) = history pico_start @ es"
proof -
  have "sys_step fake_env test_step pico_start (turn fake_env pico_start)"
    by (rule thread_turn) (simp add: pico_start_def start_system_def)
  moreover have "reachable fake_env test_step any_board (Instant 0) pico_start"
    unfolding pico_start_def by (rule reachable.start)
  ultimately show ?thesis
    using events_in_order [OF fake_host.host_axioms _ any_board_good]
    by (fastforce simp: pico_start_def start_system_def initial_shared_def)
qed

text \<open>C18: The requests of the application are answered in the order in which they were queued, each
  exactly once: the answers given and the requests waiting are those that were queued. When the
  watcher has ended, all have been answered.\<close>

theorem answers_in_order:
  assumes "host E" "reachable E outside opt t0 s" "good_options opt"
  shows "map fst (sys_replies s) @ map fst (requests (sys_shared s)) = sys_posted s \<and>
    (sys_thread s = Ended \<longrightarrow> map fst (sys_replies s) = sys_posted s)"
  using sys_reachable_inv [OF assms] by (auto simp: sys_inv_def)

theorem answers_in_order_witness:
  "map fst (sys_replies (turn fake_env pico_start)) @ map fst (requests (sys_shared (turn fake_env pico_start))) =
    sys_posted (turn fake_env pico_start)"
  using answers_in_order [OF fake_host.host_axioms pico_turn_reachable any_board_good] by blast

text \<open>While the watcher runs, at most 16 events wait for the application; a turn delivers as many
  pending events as there is room for, in order.\<close>

theorem delivery_bounded:
  assumes "host E" "reachable E outside opt t0 s" "good_options opt" "sys_thread s = Running"
  shows "length (out (sys_shared s)) \<le> 16 \<and>
    (case deliver (pending (sys_loop s)) (out (sys_shared s)) of (pend', queue') \<Rightarrow>
      queue' @ pend' = out (sys_shared s) @ pending (sys_loop s) \<and> length queue' \<le> 16 \<and>
      (pend' = [] \<or> length queue' = 16))"
proof -
  have len: "length (out (sys_shared s)) \<le> 16"
    using sys_reachable_inv [OF assms(1-3)] assms(4) by (simp add: sys_inv_def OUT_CAPACITY_def)
  obtain pend' queue' where d: "deliver (pending (sys_loop s)) (out (sys_shared s)) = (pend', queue')" by force
  show ?thesis using deliver_spec [OF d] len by (auto simp: d OUT_CAPACITY_def)
qed

theorem delivery_bounded_witness: "length (out (sys_shared pico_start)) \<le> 16"
proof -
  have "reachable fake_env test_step any_board (Instant 0) pico_start" "sys_thread pico_start = Running"
    unfolding pico_start_def by (rule reachable.start) (simp add: start_system_def)
  then show ?thesis
    using delivery_bounded [OF fake_host.host_axioms _ any_board_good] by blast
qed

text \<open>Why a thread has ended, and who asks it to stop.\<close>

definition ended_for_a_reason :: "'w system \<Rightarrow> bool" where
  "ended_for_a_reason s \<longleftrightarrow>
     (sys_thread s = Ended \<longrightarrow> stopping (sys_shared s) \<or> sh_error (sys_shared s) \<noteq> None) \<and>
     (sh_error (sys_shared s) \<noteq> None \<longrightarrow> sys_thread s = Ended)"

lemma end_reason_turn:
  assumes "ended_for_a_reason s" "sys_thread s = Running"
  shows "ended_for_a_reason (turn E s)"
  using assms
  by (auto simp: ended_for_a_reason_def turn_def end_thread_def finish_def Let_def split: prod.split outcome.split)

lemma end_reason_step:
  assumes "sys_step E outside s s'" "ended_for_a_reason s"
  shows "ended_for_a_reason s'"
  using assms(1)
proof (cases rule: sys_step.cases)
  case thread_turn
  then show ?thesis using end_reason_turn [OF assms(2)] by simp
next
  case (app_refused_outputs n lvls a sh)
  then show ?thesis using assms(2) post_request_Some by (fastforce simp: ended_for_a_reason_def)
next
  case (app_refused_target tgt n a sh)
  then show ?thesis using assms(2) set_target_pins_Some by (fastforce simp: ended_for_a_reason_def)
qed (use assms(2) in \<open>auto simp: ended_for_a_reason_def take_event_Some request_close_def post_request_None
  set_target_pins_None\<close>)

lemma end_reason: "reachable E outside opt t0 s \<Longrightarrow> ended_for_a_reason s"
proof (induction rule: reachable.induct)
  case (start w)
  then show ?case by (simp add: ended_for_a_reason_def start_system_def initial_shared_def)
qed (rule end_reason_step)

lemma stopped_by_close:
  assumes "sys_step E outside s s'" "stopping (sys_shared s')" "\<not> stopping (sys_shared s)"
  shows "s' = s\<lparr>sys_shared := request_close (sys_shared s)\<rparr>"
  using assms(1)
proof (cases rule: sys_step.cases)
  case thread_turn
  then show ?thesis
    using assms(2,3)
    by (auto simp: turn_def end_thread_def finish_def Let_def split: prod.splits outcome.splits option.splits if_splits)
next
  case (app_refused_outputs n lvls a sh)
  then show ?thesis using assms(2,3) post_request_Some by fastforce
next
  case (app_refused_target tgt n a sh)
  then show ?thesis using assms(2,3) set_target_pins_Some by fastforce
qed (use assms(2,3) in \<open>auto simp: take_event_Some post_request_None set_target_pins_None\<close>)

text \<open>C16: The watcher ends only because it was closed or with one of three errors: an unsupported platform,
  several devices without a serial number to choose by, or a rejected configuration. A thread
  that has ended without an error was asked to stop, only a call that closes asks it to, and an
  error is kept only by a thread that has ended. From then on nothing more is queued, every
  request is refused with \<open>WatcherClosed\<close>, and once the events are taken so is every call for
  one. The clocks and the scan interval are within \<open>horizon\<close>, and reads stay in their buffer.\<close>

theorem end_is_final:
  assumes "host E" "reachable E outside opt t0 s" "good_options opt"
  shows "(\<forall>e. sh_error (sys_shared s) = Some e \<longrightarrow>
      e = UnsupportedPlatform \<or> (\<exists>ss. e = SeveralDevices ss) \<or> is_rejected e) \<and>
    (sys_thread s = Ended \<longrightarrow> stopping (sys_shared s) \<or> sh_error (sys_shared s) \<noteq> None) \<and>
    (sh_error (sys_shared s) \<noteq> None \<longrightarrow> sys_thread s = Ended) \<and>
    (\<forall>s'. sys_step E outside s s' \<longrightarrow> stopping (sys_shared s') \<longrightarrow> \<not> stopping (sys_shared s) \<longrightarrow>
      s' = s\<lparr>sys_shared := request_close (sys_shared s)\<rparr>) \<and>
    (finished (sys_shared s) \<longleftrightarrow> sys_thread s = Ended) \<and>
    (sys_thread s = Ended \<longrightarrow>
      (\<forall>n r. post_request n r (sys_shared s) = (Some (Inl WatcherClosed), sys_shared s)) \<and>
      (out (sys_shared s) = [] \<longrightarrow> take_event (sys_shared s) = (Some (Inl WatcherClosed), sys_shared s)) \<and>
      (\<forall>s'. sys_step E outside s s' \<longrightarrow> sys_thread s' = Ended \<and> history s' = history s))"
proof -
  have inv: "sys_inv s" using sys_reachable_inv [OF assms] .
  have "sys_thread s' = Ended \<and> history s' = history s" if "sys_step E outside s s'" "sys_thread s = Ended" for s'
    using that(1)
  proof (cases rule: sys_step.cases)
    case (app_take e sh)
    then show ?thesis using that(2) by (auto simp: take_event_Some history_def)
  next
    case (app_refused_outputs n lvls a sh)
    then show ?thesis using that(2) post_request_Some by (fastforce simp: history_def)
  next
    case (app_refused_target tgt n a sh)
    then show ?thesis using that(2) set_target_pins_Some by (fastforce simp: history_def)
  qed (use that(2) inv in \<open>auto simp: history_def request_close_def post_request_None set_target_pins_None\<close>)
  then show ?thesis
    using inv end_reason [OF assms(2), unfolded ended_for_a_reason_def] stopped_by_close [of E outside s]
    by (auto simp: sys_inv_def stops_def post_request_def take_event_def)
qed

theorem end_is_final_witness:
  "finished (sys_shared (turn fake_env pico_start)) \<longleftrightarrow> sys_thread (turn fake_env pico_start) = Ended"
  using end_is_final [OF fake_host.host_axioms pico_turn_reachable any_board_good] by blast

end
