(* ===== verification/Watch_Timers.thy ===== *)
theory Watch_Timers
  imports Watch_Frame
begin

text \<open>
  Every operation of the watcher thread stays within the contract \<open>port\<close>, with the reads \<open>frame\<close>,
  and keeps the timers in step with the connection, \<open>timed\<close>: while no device is connected a scan
  is scheduled, while one is there none is, and a connection that waits for the report of its
  own write waits only so long. The invariant of the system follows for every environment.
\<close>

section \<open>The timers\<close>

fun on_time :: "connection option \<Rightarrow> instant option \<Rightarrow> instant option \<Rightarrow> instant option \<Rightarrow> bool" where
  "on_time None scan_t restore_t settle_t \<longleftrightarrow> scan_t \<noteq> None \<and> restore_t = None \<and> settle_t = None"
| "on_time (Some c) scan_t restore_t settle_t \<longleftrightarrow> scan_t = None \<and> (awaiting_config c \<longleftrightarrow> settle_t \<noteq> None)"

definition timed :: "watch_loop \<Rightarrow> bool" where
  "timed l \<longleftrightarrow> on_time (conn l) (scan_at l) (restore_at l) (settle_at l)"

definition steady :: "('w \<Rightarrow> bool) \<Rightarrow> (handle \<Rightarrow> 'w \<Rightarrow> bool) \<Rightarrow> ('w \<Rightarrow> 'w \<Rightarrow> bool) \<Rightarrow> 'w \<Rightarrow>
    watch_loop \<Rightarrow> 'w \<Rightarrow> bool" where
  "steady W V R u l w \<longleftrightarrow> within W V R u (conn l) w \<and> timed l"

lemma steady_quiet: "no_news l' = no_news l \<Longrightarrow> steady W V R u l' w = steady W V R u l w"
  using no_news_fields [of l' l] by (simp add: steady_def timed_def)

lemma steady_quietI: "no_news l' = no_news l \<Longrightarrow> steady W V R u l w \<Longrightarrow> steady W V R u l' w"
  using steady_quiet by metis

lemma steady_pending [simp]: "steady W V R u (l\<lparr>pending := p\<rparr>) w = steady W V R u l w"
  by (rule steady_quiet) simp

lemma steady_unrelated [simp]:
  "steady W V R u (l\<lparr>last_restore := x1\<rparr>) w = steady W V R u l w"
  "steady W V R u (l\<lparr>restore_count := x2\<rparr>) w = steady W V R u l w"
  "steady W V R u (l\<lparr>target := x3\<rparr>) w = steady W V R u l w"
  by (simp_all add: steady_def timed_def)

lemma steady_restore_at:
  "steady W V R u l w \<Longrightarrow> conn l \<noteq> None \<or> t = None \<Longrightarrow> steady W V R u (l\<lparr>restore_at := t\<rparr>) w"
  by (cases "conn l") (auto simp: steady_def timed_def)

lemma steady_device:
  "steady W V R u l w \<Longrightarrow> conn l = Some c \<Longrightarrow> within W V R u (Some (c\<lparr>c_device := d\<rparr>)) w' \<Longrightarrow>
    steady W V R u (l\<lparr>conn := Some (c\<lparr>c_device := d\<rparr>)\<rparr>) w'"
  by (simp add: steady_def timed_def)

context port
begin

abbreviation (input) fine :: "'w \<Rightarrow> 'a \<Rightarrow> watch_loop \<Rightarrow> 'w \<Rightarrow> bool" where
  "fine u \<equiv> (\<lambda>_ l w. steady W V R u l w)"

lemma steady_now: "steady W V R u l w \<Longrightarrow> e_now E w = (t, w') \<Longrightarrow> steady W V R u l w'"
  by (auto simp: steady_def intro: within_now)

lemma steady_on_device:
  assumes "stays W V R m" "steady W V R u l w"
    and "\<And>r c w'. steady W V R u (l\<lparr>conn := Some c\<rparr>) w' \<Longrightarrow> Q r (l\<lparr>conn := Some c\<rparr>) w'"
  shows "wlp (on_device m l w) Q F"
  unfolding wlp_on_device
proof (intro allI impI)
  fix c r d w'
  assume c: "conn l = Some c" and m: "m (c_device c) w = (r, d, w')"
  have "within W V R u (Some c) w" using assms(2) c by (simp add: steady_def)
  then show "Q r (l\<lparr>conn := Some (c\<lparr>c_device := d\<rparr>)\<rparr>) w'"
    by (intro assms(3) steady_device [OF assms(2) c] stays_within [OF assms(1) _ m])
qed

lemma steady_lost:
  assumes "steady W V R u l w"
  shows "wlp (lost E e l w) (fine u) F"
proof (cases "conn l")
  case (Some c)
  then have "R w (e_close E (dev_handle (c_device c)) w)"
    using assms by (intro close_R) (simp_all add: steady_def within_Some)
  then have "within W V R u None (e_close E (dev_handle (c_device c)) w)"
    using assms Some by (auto simp: steady_def within_Some within_None intro: R_trans W_kept)
  then show ?thesis
    using Some by (auto simp: lost_def wlp_rules drop_connection_def scan_later_def steady_def timed_def
        intro: within_now)
qed (use assms in \<open>simp add: lost_def wlp_rules\<close>)

lemma steady_wrote:
  assumes "steady W V R u l w" "conn l \<noteq> None"
  shows "wlp (wrote E found new l w) (fine u) F"
  unfolding wrote_def wlp_also_do
proof (rule wlp_quiet [OF quiet_set_config])
  fix l'
  assume "no_news l' = no_news l"
  then have l': "steady W V R u l' w" "conn l' \<noteq> None"
    using assms steady_quiet no_news_fields by metis+
  then obtain c where c: "conn l' = Some c" by auto
  then show "wlp (change (\<lambda>l. l\<lparr>conn := map_option (\<lambda>c. c\<lparr>awaiting_config := True\<rparr>) (conn l)\<rparr>) l' w)
     (\<lambda>_ l w. wlp (bind (now_plus E SETTLE_TIMEOUT) (\<lambda>t. also_do (change (\<lambda>l. l\<lparr>settle_at := Some t\<rparr>))
       (if driven_outputs found new \<noteq> []
        then emit (OutputsReset (driven_outputs found new) PinConfigWrite) else ret ())) l w) (fine u) F) F"
    using l' by (auto simp: wlp_rules steady_def timed_def intro: within_now)
qed

lemma steady_restore_later:
  assumes "steady W V R u l w" "conn l \<noteq> None"
  shows "wlp (restore_later E d l w) (fine u) F"
  using assms by (auto simp: restore_later_def wlp_rules intro: steady_restore_at steady_now)

lemma steady_restore_over:
  assumes "steady W V R u l w" "conn l \<noteq> None"
  shows "wlp (restore_over E tgt found l w) (fine u) (steady W V R u)"
  unfolding restore_over_def wlp_also_do
proof (rule wlp_quiet [OF quiet_set_config])
  fix l'
  assume "no_news l' = no_news l"
  then have l': "steady W V R u l' w" using assms steady_quiet by metis
  have "wlp (bind (on_device (set_pin_config E tgt)) (\<lambda>r. case r of
        Inl e \<Rightarrow> if is_rejected e then fatal e
          else if is_conflict e then restore_later E RESTORE_INTERVAL
          else lost E e
      | Inr _ \<Rightarrow>
          also_do (change (\<lambda>l. l\<lparr>restore_count := restore_count l + 1\<rparr>))
          (bind (look restore_count) (\<lambda>count.
           also_do (emit (PinConfigRestored found count)) (wrote E found tgt)))) l' w) (fine u) (steady W V R u)"
    unfolding wlp_bind
    by (rule steady_on_device [OF stays_set_pin_config l'])
      (auto simp: wlp_rules intro!: steady_restore_later steady_lost steady_wrote split: sum.split)
  then show "wlp ((if found = tgt then ret ()
      else bind (on_device (set_pin_config E tgt)) (\<lambda>r. case r of
        Inl e \<Rightarrow> if is_rejected e then fatal e
          else if is_conflict e then restore_later E RESTORE_INTERVAL
          else lost E e
      | Inr _ \<Rightarrow>
          also_do (change (\<lambda>l. l\<lparr>restore_count := restore_count l + 1\<rparr>))
          (bind (look restore_count) (\<lambda>count.
           also_do (emit (PinConfigRestored found count)) (wrote E found tgt))))) l' w) (fine u) (steady W V R u)"
    using l' by (simp add: wlp_rules)
qed

lemma steady_restore_target:
  assumes "steady W V R u l w"
  shows "wlp (restore_target E l w) (fine u) (steady W V R u)"
proof (cases "target l = None \<or> conn l = None")
  case True
  then show ?thesis using assms by (auto simp: restore_target_def wlp_rules split: option.split)
next
  case False
  then obtain tgt c where tc: "target l = Some tgt" "conn l = Some c" by auto
  have "wlp (on_device (get_pin_config E) (l\<lparr>restore_at := None, last_restore := Some t\<rparr>) w')
      (\<lambda>r l w. wlp ((case r of Inl e \<Rightarrow> lost E e | Inr report \<Rightarrow> restore_over E tgt (pcr_config report)) l w)
        (fine u) (steady W V R u)) (steady W V R u)"
    if "e_now E w = (t, w')" for t w'
  proof (rule steady_on_device [OF stays_get_pin_config])
    show "steady W V R u (l\<lparr>restore_at := None, last_restore := Some t\<rparr>) w'"
      using steady_restore_at [OF steady_now [OF assms that], of None] by simp
  qed (auto intro: steady_lost steady_restore_over split: sum.split)
  then show ?thesis
    by (simp add: restore_target_def wlp_rules tc del: wlp_on_device)
qed

lemma steady_restore_or_wait:
  assumes "steady W V R u l w" "conn l \<noteq> None"
  shows "wlp (restore_or_wait E l w) (fine u) (steady W V R u)"
  using assms
  by (auto simp: restore_or_wait_def wlp_basic wlp_bind wlp_now Let_def split: option.split
      intro: steady_restore_target steady_restore_later steady_now)

lemma steady_config_changed:
  assumes "steady W V R u l w"
  shows "wlp (config_changed E l w) (fine u) (steady W V R u)"
  unfolding config_changed_def wlp_bind
proof (rule steady_on_device [OF stays_get_pin_config assms])
  fix r :: "pin_config_report result" and c w'
  assume l: "steady W V R u (l\<lparr>conn := Some c\<rparr>) w'" (is "steady W V R u ?l w'")
  show "wlp ((case r of Inl e \<Rightarrow> lost E e
   | Inr report \<Rightarrow> bind (look (\<lambda>l. pcr_config report \<noteq> config l)) (\<lambda>changed.
       also_do (set_config (pcr_config report))
       (bind (look target) (\<lambda>t. case t of
          None \<Rightarrow> if changed then emit (PinConfigChanged (pcr_config report)) else ret ()
        | Some tgt \<Rightarrow> if pcr_config report = tgt then ret () else restore_or_wait E)))) ?l w') (fine u) (steady W V R u)"
  proof (cases r)
    case (Inl e)
    then show ?thesis using steady_lost [OF l] by simp
  next
    case (Inr report)
    have "wlp (bind (look target) (\<lambda>t. case t of
          None \<Rightarrow> if changed then emit (PinConfigChanged (pcr_config report)) else ret ()
        | Some tgt \<Rightarrow> if pcr_config report = tgt then ret () else restore_or_wait E) l' w') (fine u) (steady W V R u)"
      if "no_news l' = no_news ?l" for l' changed
    proof -
      have "steady W V R u l' w'" "conn l' \<noteq> None"
        using steady_quietI [OF that l] no_news_fields [OF that] by simp_all
      then show ?thesis
        by (auto simp: wlp_basic wlp_bind split: option.split intro: steady_restore_or_wait)
    qed
    note follow = this
    show ?thesis
      unfolding Inr sum.case wlp_bind wlp_basic wlp_also_do
      by (rule wlp_quiet [OF quiet_set_config], rule follow [unfolded wlp_bind wlp_basic])
  qed
qed

section \<open>Reports\<close>

lemma within_event_time:
  assumes "within W V R u k w"
  shows "wlp (event_time E start l w) (\<lambda>_ l' w'. l' = l \<and> within W V R u k w') F"
proof (cases start)
  case (Some us)
  have "within W V R u k w2" if "e_now E w = (t, w1)" "e_wall E w1 = (s, w2)" for t w1 s w2
    using within_wall [OF within_now [OF assms that(1)] that(2)] .
  then show ?thesis
    by (auto simp: Some event_time_def wlp_rules clock_at_def split: option.splits prod.splits if_splits)
qed (use assms in \<open>simp add: event_time_def wlp_rules\<close>)

lemma within_absorb_event:
  assumes "within W V R u (conn l) w"
  shows "wlp (absorb_event E us e l w) (\<lambda>_ l' w'. no_news l' = no_news l \<and> within W V R u (conn l) w') F"
proof -
  have time: "wlp (event_time E start l1 w) Q F"
    if "within W V R u (conn l1) w" "\<And>x w'. within W V R u (conn l1) w' \<Longrightarrow> Q x l1 w'" for start l1 Q
    by (rule wlp_mono [OF within_event_time [OF that(1)]]) (use that(2) in auto)
  show ?thesis
    using assms unfolding absorb_event_def active_low_of_def Let_def wlp_rules
    by (auto simp: wlp_rules split: option.split intro!: time)
qed

lemma within_absorb_events:
  "within W V R u (conn l) w \<Longrightarrow>
    wlp (absorb_events E us es l w) (\<lambda>_ l' w'. no_news l' = no_news l \<and> within W V R u (conn l) w') F"
proof (induction es arbitrary: l w)
  case (Cons e es)
  show ?case
    unfolding absorb_events.simps wlp_also_do
  proof (rule wlp_mono [OF within_absorb_event [OF Cons.prems]])
    fix l1 w1
    assume 1: "no_news l1 = no_news l \<and> within W V R u (conn l) w1"
    then have "conn l1 = conn l" using no_news_fields by blast
    then show "wlp (absorb_events E us es l1 w1) (\<lambda>_ l' w'. no_news l' = no_news l \<and> within W V R u (conn l) w') F"
      using Cons.IH [of l1 w1] 1 by simp
  qed
qed (simp add: wlp_rules)

lemma within_absorb:
  assumes "within W V R u (conn l) w"
  shows "wlp (absorb E r l w) (\<lambda>_ l' w'. no_news l' = no_news l \<and> within W V R u (conn l) w') F"
  unfolding absorb_def wlp_also_do
proof (rule wlp_mono [OF within_absorb_events [OF assms]])
  fix l1 w1
  assume l1: "no_news l1 = no_news l \<and> within W V R u (conn l) w1"
  show "wlp (bind (absorb_levels r (mask_to_gpios (monitored r)) []) (\<lambda>learned.
      also_do (change (\<lambda>l. l\<lparr>known := bt_retain (sr_is_monitored r) (known l)\<rparr>))
       (if learned \<noteq> [] then emit (InitialOnOff learned) else ret ())) l1 w1)
      (\<lambda>_ l' w'. no_news l' = no_news l \<and> within W V R u (conn l) w') F"
    unfolding wlp_bind
    by (rule wlp_quiet [OF quiet_absorb_levels]) (use l1 in \<open>simp add: wlp_rules\<close>)
qed

lemma steady_absorb:
  assumes "steady W V R u l w"
  shows "wlp (absorb E r l w) (fine u) F"
proof (rule wlp_mono [OF within_absorb])
  show "within W V R u (conn l) w" using assms by (simp add: steady_def)
  fix l' w'
  assume "no_news l' = no_news l \<and> within W V R u (conn l) w'"
  then show "steady W V R u l' w'"
    using assms no_news_fields [of l' l] by (simp add: steady_def timed_def)
qed

lemma steady_absorb_unless:
  "steady W V R u l w \<Longrightarrow> wlp (absorb_unless E stale r l w) (fine u) F"
  by (simp add: absorb_unless_def wlp_rules steady_absorb)

lemma steady_status_tail:
  assumes "steady W V R u l w"
  shows "wlp (also_do (emit ev) (also_do (suspend_event r)
     (if news then also_do (config_changed E)
        (bind (look conn) (\<lambda>c. if c = None then ret () else absorb_unless E stale r))
      else absorb_unless E stale r)) l w) (fine u) (steady W V R u)"
  unfolding wlp_also_do wlp_basic
proof (rule wlp_quiet [OF quiet_suspend_event])
  fix l1
  assume "no_news l1 = no_news (l\<lparr>pending := pending l @ [ev]\<rparr>)"
  then have l1: "steady W V R u l1 w" by (rule steady_quietI) (simp add: assms)
  have "wlp (also_do (config_changed E)
      (bind (look conn) (\<lambda>c. if c = None then ret () else absorb_unless E stale r)) l1 w) (fine u) (steady W V R u)"
    unfolding wlp_also_do
    by (rule wlp_mono [OF steady_config_changed [OF l1]])
      (auto simp: wlp_bind wlp_basic intro: steady_absorb_unless)
  then show "wlp ((if news then also_do (config_changed E)
        (bind (look conn) (\<lambda>c. if c = None then ret () else absorb_unless E stale r))
      else absorb_unless E stale r) l1 w) (fine u) (steady W V R u)"
    using steady_absorb_unless [OF l1] by simp
qed

lemma steady_status_step:
  assumes "steady W V R u l w"
  shows "wlp (status_step E r at missed l w) (fine u) (steady W V R u)"
proof -
  have 1: "steady W V R u (l\<lparr>conn := Some (c\<lparr>c_clock := k, snapshot_seq := q\<rparr>)\<rparr>) w"
    "steady W V R u (l\<lparr>conn := Some (c\<lparr>c_clock := k, snapshot_seq := q, awaiting_config := False\<rparr>), settle_at := None\<rparr>) w"
    if "conn l = Some c" for c k q
    using assms that by (simp_all add: steady_def timed_def within_Some)
  show ?thesis
    unfolding status_step_def loop_on_off_def
    by (auto simp: wlp_bind wlp_basic wlp_or_panic wlp_the_conn wlp_change_conn
        wlp_also_do [of "change_conn f" for f] wlp_also_do [of "if b then m else ret ()" for b m]
        wlp_also_do [of _ "change f" for f]
        Let_def split: prod.split if_split intro!: 1 steady_status_tail [where news = True, unfolded if_True]
        steady_status_tail [where news = False, unfolded if_False])
qed

lemma steady_snapshot:
  assumes "steady W V R u l w"
  shows "wlp (snapshot E l w) (fine u) F"
  unfolding snapshot_def wlp_bind
proof (rule steady_on_device [OF stays_request_status assms])
  fix r :: "status_report result" and c w'
  assume l: "steady W V R u (l\<lparr>conn := Some c\<rparr>) w'" (is "steady W V R u ?l w'")
  have "steady W V R u (?l\<lparr>conn := Some (c\<lparr>snapshot_seq := q\<rparr>)\<rparr>) w2" if "e_now E w' = (t, w2)" for q t w2
    using steady_now [OF l that] by (simp add: steady_def timed_def within_Some)
  then show "wlp ((case r of Inl e \<Rightarrow> lost E e | Inr report \<Rightarrow>
       also_do (change_conn (\<lambda>c. c\<lparr>snapshot_seq :=
           (if seq report \<noteq> 0 \<and> \<not> more_events report then Some (seq report) else None)\<rparr>))
       (bind (now E) (\<lambda>t. ignore_fatal (status_step E report t 0)))) ?l w') (fine u) F"
    using l by (auto simp: wlp_bind wlp_also_do wlp_change_conn wlp_now wlp_ignore_fatal
        split: sum.split intro!: steady_lost steady_status_step)
qed

lemma steady_received:
  assumes "steady W V R u l w"
  shows "wlp (received E data at l w) (fine u) (steady W V R u)"
proof -
  have "steady W V R u (l\<lparr>conn := Some (c\<lparr>c_last_seq := q\<rparr>)\<rparr>) w" if "conn l = Some c" for c q
    using assms that by (simp add: steady_def timed_def within_Some)
  then show ?thesis
    using assms by (auto simp: received_def wlp_basic wlp_bind wlp_the_conn wlp_also_do wlp_change_conn Let_def
        split: sum.split intro!: steady_status_step)
qed

section \<open>Connecting\<close>

text \<open>While the thread connects there is neither a connection nor a timer.\<close>

definition idle_at :: "watch_loop \<Rightarrow> bool" where
  "idle_at l \<longleftrightarrow> conn l = None \<and> restore_at l = None \<and> settle_at l = None"

lemma idle_at_quiet: "no_news l' = no_news l \<Longrightarrow> idle_at l' = idle_at l"
  using no_news_fields [of l' l] by (simp add: idle_at_def)

lemma steady_scan_later:
  assumes "idle_at l" "within W V R u None w"
  shows "wlp (scan_later E l w) (fine u) F"
  using assms by (auto simp: scan_later_def wlp_rules steady_def timed_def idle_at_def intro: within_now)

lemma steady_connected:
  assumes "idle_at l" "scan_at l = None" "within W V R u (Some (new_connection d (snd (snd fda)))) w"
  shows "wlp (connected E entry i d fda l w) (\<lambda>r l' w'. steady W V R u l' w' \<and> r = Inr ()) F"
proof -
  obtain found driven aw where fda: "fda = (found, driven, aw)" by (cases fda)
  let ?c = "new_connection d aw"
  have last: "wlp (also_do (if aw then bind (now_plus E SETTLE_TIMEOUT) (\<lambda>t. change (\<lambda>l. l\<lparr>settle_at := Some t\<rparr>))
        else snapshot E) (ret (Inr ())) l1 w) (\<lambda>r l' w'. steady W V R u l' w' \<and> r = Inr ()) F"
    if "conn l1 = Some ?c" "idle_at (l1\<lparr>conn := None\<rparr>)" "scan_at l1 = None" for l1
  proof (cases aw)
    case True
    then show ?thesis
      using that assms(3) fda
      by (auto simp: wlp_rules steady_def timed_def idle_at_def new_connection_def intro: within_now)
  next
    case False
    then have "steady W V R u l1 w"
      using that assms(3) fda by (simp add: steady_def timed_def idle_at_def new_connection_def)
    then show ?thesis
      using False by (auto simp: wlp_also_do wlp_basic intro: steady_snapshot)
  qed
  show ?thesis
    unfolding connected_def fda prod.case wlp_also_do wlp_bind wlp_basic
  proof (rule wlp_quiet [OF quiet_reset_failures], rule wlp_quiet [OF quiet_set_config],
      rule wlp_quiet [OF quiet_outputs_event], rule last [unfolded wlp_also_do wlp_basic])
    fix l1 l2 l3 ev
    assume n: "no_news l1 = no_news (l\<lparr>conn := Some ?c\<rparr>)"
      "no_news l2 = no_news (l1\<lparr>ever_connected := True\<rparr>)" "no_news l3 = no_news (l2\<lparr>pending := pending l2 @ ev\<rparr>)"
    then show "conn l3 = Some ?c" "idle_at (l3\<lparr>conn := None\<rparr>)" "scan_at l3 = None"
      using assms no_news_fields [OF n(1)] no_news_fields [OF n(2)] no_news_fields [OF n(3)]
      by (simp_all add: idle_at_def)
  qed
qed

lemma within_open:
  assumes "within W V R u None w" "e_open E entry w = (Inr h, w1)" "device_new E h serial w1 = (d, w2)"
  shows "within W V R u (Some (new_connection d a)) w2 \<and> dev_handle d = h"
proof -
  have "within W V R u None w1" "V h w1"
    using within_step [OF assms(1)] open_R [OF _ assms(2)] assms(1) by (auto simp: within_None)
  then have "within W V R u (Some (new_connection (d\<lparr>dev_handle := h\<rparr>) a)) w1"
    by (simp add: within_Some within_None new_connection_def)
  moreover obtain t where "e_wall E w1 = (t, w2)" "dev_handle d = h"
    using assms(3) by (auto simp: device_new_def fresh_ids_def split: prod.splits)
  ultimately show ?thesis using within_wall by (fastforce simp: within_Some new_connection_def)
qed

text \<open>One operation of the device that is being connected.\<close>

lemma within_op:
  assumes "stays W V R m" "within W V R u (Some (new_connection d a)) w" "m d w = (r, d', w')"
  shows "within W V R u (Some (new_connection d' a)) w' \<and> dev_handle d' = dev_handle d"
proof -
  have d: "W w" "V (dev_handle d) w" using assms(2) by (simp_all add: within_Some new_connection_def)
  have "R w w' \<and> dev_handle d' = dev_handle d" by (rule staysD [OF assms(1) d assms(3)])
  then show ?thesis using within_step [OF assms(2)] by (simp add: within_Some new_connection_def)
qed

lemma within_close:
  assumes "within W V R u (Some (new_connection d a)) w"
  shows "within W V R u None (e_close E (dev_handle d) w)"
proof -
  have "R w (e_close E (dev_handle d) w)"
    using assms by (intro close_R) (simp_all add: within_Some new_connection_def)
  then show ?thesis using within_step [OF assms] by (simp add: within_Some within_None)
qed

text \<open>What connecting comes to: an error, the end of the watcher, or a connection.\<close>

lemma connect_cases:
  assumes "within W V R u None w"
  obtains
    (failed) e x w' where "connect E entry l w = Ret (Inl e) (l\<lparr>wl_info := x\<rparr>) w'" "within W V R u None w'"
  | (rejected) e x w' where "connect E entry l w = Fatal e (l\<lparr>wl_info := x\<rparr>) w'" "within W V R u None w'"
  | (connected) i d fda w' h w1 d2 w2 d3 w3 report d4 w4
    where "connect E entry l w = connected E entry i d fda (l\<lparr>wl_info := Some i\<rparr>) w'"
      "within W V R u (Some (new_connection d (snd (snd fda)))) w'"
      "e_open E entry w = (Inr h, w1)" "device_new E h (de_serial entry) w1 = (d2, w2)"
      "info E d2 w2 = (Inr i, d3, w3)" "get_pin_config E d3 w3 = (Inr report, d4, w4)"
      "apply_target E (target l) (pcr_config report) d4 w4 = (Inr fda, d, w')"
proof -
  obtain opened w1 where o: "e_open E entry w = (opened, w1)" by force
  show thesis
  proof (cases opened)
    case (Inl e)
    have "within W V R u None w1"
      using within_step [OF assms] open_R [OF _ o] assms by (simp add: within_None)
    then show thesis using failed [of e "wl_info l" w1] by (simp add: connect_def o Inl)
  next
    case op: (Inr h)
    obtain d w2 where n: "device_new E h (de_serial entry) w1 = (d, w2)" by force
    obtain ri d3 w3 where i: "info E d w2 = (ri, d3, w3)" by (metis prod_cases3)
    obtain rg d4 w4 where g: "get_pin_config E d3 w3 = (rg, d4, w4)" by (metis prod_cases3)
    have 2: "within W V R u (Some (new_connection d a)) w2 \<and> dev_handle d = h" for a
      using within_open [OF assms _ n] o op by simp
    have 3: "within W V R u (Some (new_connection d3 a)) w3 \<and> dev_handle d3 = h" for a
      using within_op [OF stays_info _ i, of u a] 2 by auto
    have 4: "within W V R u (Some (new_connection d4 a)) w4 \<and> dev_handle d4 = h" for a
      using within_op [OF stays_get_pin_config _ g, of u a] 3 by auto
    have closed: "within W V R u None (e_close E h w3)" "within W V R u None (e_close E h w4)"
      using within_close [OF conjunct1 [OF 3 [of True]]] within_close [OF conjunct1 [OF 4 [of True]]] 3 4 by simp_all
    show thesis
    proof (cases ri)
      case (Inl e)
      then show thesis
        using failed [of e "wl_info l" "e_close E h w3"] closed by (simp add: connect_def o op n i)
    next
      case ri: (Inr inf)
      show thesis
      proof (cases rg)
        case (Inl e)
        then show thesis
          using failed [of e "Some inf" "e_close E h w4"] closed by (simp add: connect_def o op n i ri g)
      next
        case rg: (Inr report)
        obtain x d5 w5 where a: "apply_target E (target l) (pcr_config report) d4 w4 = (x, d5, w5)"
          by (metis prod_cases3)
        have 5: "within W V R u (Some (new_connection d5 b)) w5 \<and> dev_handle d5 = h" for b
          using within_op [OF stays_apply_target _ a, of u b] 4 by auto
        have closed5: "within W V R u None (e_close E h w5)"
          using within_close [OF conjunct1 [OF 5 [of True]]] 5 by simp
        show thesis
        proof (cases x)
          case (Inl e)
          then show thesis
            using failed [of e "Some inf" "e_close E h w5"] rejected [of e "Some inf" "e_close E h w5"] closed5
            by (cases "is_rejected e") (simp_all add: connect_def o op n i ri g rg a)
        next
          case (Inr fda)
          then show thesis
            using connected [of inf d5 fda w5 h w1 d w2 d3 w3 report d4 w4] 5 o op n i ri g rg a
            by (simp add: connect_def)
        qed
      qed
    qed
  qed
qed

lemma steady_connect:
  assumes "idle_at l" "scan_at l = None" "within W V R u None w"
  shows "wlp (connect E entry l w) (\<lambda>r l' w'. case r of Inr _ \<Rightarrow> steady W V R u l' w'
    | Inl _ \<Rightarrow> idle_at l' \<and> scan_at l' = None \<and> within W V R u None w') (\<lambda>l' w'. conn l' = None \<and> within W V R u None w')"
  using assms(3)
proof (cases rule: connect_cases [where entry = entry and l = l])
  case (connected i d fda w')
  then show ?thesis
    using assms(1,2) unfolding connected(1)
    by (intro wlp_mono [OF steady_connected]) (auto simp: idle_at_def)
qed (use assms(1,2) in \<open>simp_all add: idle_at_def\<close>)

lemma steady_try_entries:
  assumes "idle_at l" "scan_at l = None" "within W V R u None w"
  shows "wlp (try_entries E entries l w) (fine u) (\<lambda>l' w'. within W V R u (conn l') w')"
proof -
  have later: "wlp (scan_later E l1 w1) (fine u) F"
    if "no_news l1 = no_news l2" "idle_at l2" "within W V R u None w1" for l1 l2 w1 F
    using that idle_at_quiet by (blast intro: steady_scan_later)
  have none: "wlp (also_do reset_failures (scan_later E) l w) (fine u) F" for F
    unfolding wlp_also_do
    by (rule wlp_quiet [OF quiet_reset_failures]) (use assms in \<open>blast intro: later\<close>)
  have failing: "wlp (also_do (failed e) (scan_later E) l1 w1) (fine u) F"
    if "idle_at l1" "within W V R u None w1" for e l1 w1 F
    unfolding wlp_also_do
    by (rule wlp_quiet [OF quiet_failed]) (use that in \<open>blast intro: later\<close>)
  have some: "wlp (bind (connect E entry) (\<lambda>r. case r of Inr _ \<Rightarrow> ret () | Inl e \<Rightarrow> also_do (failed e) (scan_later E))
      (l\<lparr>wl_serial := s\<rparr>) w) (fine u) (\<lambda>l' w'. within W V R u (conn l') w')" for entry s
    unfolding wlp_bind
    by (rule wlp_mono [OF steady_connect])
      (use assms in \<open>auto simp: idle_at_def wlp_basic intro: failing split: sum.splits\<close>)
  show ?thesis
  proof (cases "matching_entries (wl_serial l) entries")
    case Nil
    then show ?thesis using none by (simp add: try_entries_def wlp_bind wlp_basic)
  next
    case (Cons entry others)
    show ?thesis
      unfolding try_entries_def wlp_bind [of "look wl_serial"] wlp_basic Cons list.case
    proof (cases "wl_serial l = None \<and> others \<noteq> []")
      case True
      show "wlp ((if wl_serial l = None \<and> others \<noteq> [] then fatal (SeveralDevices (map de_serial (entry # others)))
          else also_do (change (\<lambda>l. l\<lparr>wl_serial := Some (de_serial entry)\<rparr>))
            (bind (connect E entry) (\<lambda>r. case r of Inr _ \<Rightarrow> ret () | Inl e \<Rightarrow> also_do (failed e) (scan_later E)))) l w)
          (fine u) (\<lambda>l' w'. within W V R u (conn l') w')"
        unfolding if_P [OF True] wlp_basic using assms by (simp add: idle_at_def)
    next
      case False
      show "wlp ((if wl_serial l = None \<and> others \<noteq> [] then fatal (SeveralDevices (map de_serial (entry # others)))
          else also_do (change (\<lambda>l. l\<lparr>wl_serial := Some (de_serial entry)\<rparr>))
            (bind (connect E entry) (\<lambda>r. case r of Inr _ \<Rightarrow> ret () | Inl e \<Rightarrow> also_do (failed e) (scan_later E)))) l w)
          (fine u) (\<lambda>l' w'. within W V R u (conn l') w')"
        unfolding if_not_P [OF False] wlp_also_do wlp_basic by (rule some)
    qed
  qed
qed

lemma steady_try_connect:
  assumes "idle_at l" "scan_at l = None" "within W V R u None w"
  shows "wlp (try_connect E l w) (fine u) (\<lambda>l' w'. within W V R u (conn l') w')"
proof -
  obtain r w' where d: "e_devices E w = (r, w')" by force
  have w': "within W V R u None w'"
    using within_step [OF assms(3)] devices_R [OF _ d] assms(3) by (simp add: within_None)
  have "wlp (also_do (failed e) (scan_later E) l w') (fine u) (\<lambda>l' w'. within W V R u (conn l') w')" for e
    unfolding wlp_also_do
    by (rule wlp_quiet [OF quiet_failed]) (use assms w' idle_at_quiet in \<open>blast intro: steady_scan_later\<close>)
  then show ?thesis
    using assms w' steady_try_entries [OF assms(1,2) w']
    by (auto simp: try_connect_def wlp_bind list_devices_def d wlp_basic idle_at_def split: sum.split)
qed

section \<open>Turns\<close>

lemma steady_scan:
  assumes "steady W V R u l w" "scan_at l \<noteq> None"
  shows "wlp (scan E l w) (fine u) (\<lambda>l' w'. within W V R u (conn l') w')"
proof -
  have "conn l = None" using assms by (cases "conn l") (auto simp: steady_def timed_def)
  then have "idle_at (l\<lparr>scan_at := None\<rparr>)" "within W V R u None w"
    using assms by (simp_all add: steady_def timed_def idle_at_def)
  then show ?thesis by (simp add: scan_def wlp_also_do wlp_basic steady_try_connect)
qed

lemma steady_settle:
  assumes "steady W V R u l w" "settle_at l \<noteq> None"
  shows "wlp (settle E l w) (fine u) F"
proof -
  obtain c where c: "conn l = Some c"
    using assms by (cases "conn l") (auto simp: steady_def timed_def)
  have "steady W V R u (l\<lparr>settle_at := None, conn := Some (c\<lparr>awaiting_config := False\<rparr>)\<rparr>) w"
    using assms c by (simp add: steady_def timed_def)
  then show ?thesis
    by (simp add: settle_def wlp_also_do wlp_bind wlp_basic c wlp_change_conn steady_snapshot)
qed

end

context frame
begin

lemma steady_read_device:
  assumes "steady W V R u l w"
  shows "wlp (read_device E timeout l w) (fine u) (steady W V R u)"
proof -
  have read: "steady W V R u (l\<lparr>conn := Some (c\<lparr>c_device := d\<rparr>)\<rparr>) w'"
    if "conn l = Some c" "read_raw E buf t (c_device c) w = Some (r, d, w')" for c buf t r d w'
  proof -
    note m = that(2)
    have c: "within W V R u (Some c) w" using assms that(1) by (simp add: steady_def)
    obtain n data where "e_read E (dev_handle (c_device c)) buf t w = Some (n, data, w')" "d = c_device c"
      using m by (auto simp: read_raw_def split: option.splits prod.splits sum.splits)
    then have "R w w'" "d = c_device c" using read_R c by (auto simp: within_Some)
    then have "within W V R u (Some (c\<lparr>c_device := d\<rparr>)) w'" using within_step [OF c] by simp
    then show ?thesis by (rule steady_device [OF assms that(1)])
  qed
  show ?thesis
    unfolding read_device_def wlp_bind
    by (auto simp: read_report_def wlp_bind wlp_basic wlp_or_panic wlp_now
        split: option.split prod.split sum.split intro!: steady_lost steady_received intro: read steady_now [OF read])
qed

lemma steady_idle_turn:
  assumes "steady W V R u l w"
  shows "wlp (idle_turn E l w) (fine u) (\<lambda>l' w'. within W V R u (conn l') w')"
proof -
  have weak: "wlp r (fine u) (\<lambda>l' w'. within W V R u (conn l') w')" if "wlp r (fine u) (steady W V R u)" for r
    by (rule wlp_mono [OF that]) (simp_all add: steady_def)
  show ?thesis
    unfolding idle_turn_def wlp_bind wlp_now wlp_basic restore_def
    using assms by (auto simp: wlp_basic wlp_also_do due_def split: option.splits
        intro!: steady_scan steady_settle weak [OF steady_read_device] weak [OF steady_restore_target]
          steady_restore_at intro: steady_now)
qed

lemma steady_write_target:
  assumes "steady W V R u l w" "conn l \<noteq> None"
  shows "wlp (write_target E new previous l w) (fine u) F"
proof -
  have put: "wlp (bind (on_device (set_pin_config E new)) (\<lambda>r. case r of
       Inl e \<Rightarrow> also_do (if is_rejected e then change (\<lambda>l. l\<lparr>target := previous\<rparr>)
           else if is_conflict e then restore_later E RESTORE_INTERVAL else ret ()) (ret (Inl e))
     | Inr _ \<Rightarrow> also_do (wrote E found new) (ret (Inr ()))) l1 w1) (fine u) F"
    if "steady W V R u l1 w1" for found l1 w1
    unfolding wlp_bind
    by (rule steady_on_device [OF stays_set_pin_config that])
      (auto simp: wlp_also_do wlp_basic intro!: steady_wrote steady_restore_later split: sum.split)
  have go: "wlp (also_do (set_config (pcr_config report))
      (if pcr_config report = new then ret (Inr ()) else bind (on_device (set_pin_config E new)) (\<lambda>r. case r of
       Inl e \<Rightarrow> also_do (if is_rejected e then change (\<lambda>l. l\<lparr>target := previous\<rparr>)
           else if is_conflict e then restore_later E RESTORE_INTERVAL else ret ()) (ret (Inl e))
     | Inr _ \<Rightarrow> also_do (wrote E (pcr_config report) new) (ret (Inr ())))) l1 w1) (fine u) F"
    if l1: "steady W V R u l1 w1" for report l1 w1
    unfolding wlp_also_do [of "set_config c" for c]
  proof (rule wlp_quiet [OF quiet_set_config])
    fix l2
    assume "no_news l2 = no_news l1"
    from steady_quietI [OF this l1] show "wlp ((if pcr_config report = new then ret (Inr ())
      else bind (on_device (set_pin_config E new)) (\<lambda>r. case r of
       Inl e \<Rightarrow> also_do (if is_rejected e then change (\<lambda>l. l\<lparr>target := previous\<rparr>)
           else if is_conflict e then restore_later E RESTORE_INTERVAL else ret ()) (ret (Inl e))
     | Inr _ \<Rightarrow> also_do (wrote E (pcr_config report) new) (ret (Inr ())))) l2 w1) (fine u) F"
      using put by (auto simp: wlp_basic)
  qed
  show ?thesis
    unfolding write_target_def wlp_also_do [of "change f" for f] wlp_basic wlp_bind [of "on_device (get_pin_config E)"]
  proof (rule steady_on_device [OF stays_get_pin_config])
    show "steady W V R u (l\<lparr>restore_at := None\<rparr>) w" using assms(1) by (simp add: steady_restore_at)
    fix r :: "pin_config_report result" and c w'
    assume l1: "steady W V R u (l\<lparr>restore_at := None, conn := Some c\<rparr>) w'" (is "steady W V R u ?l w'")
    show "wlp ((case r of Inl e \<Rightarrow> ret (Inl e) | Inr report \<Rightarrow> also_do (set_config (pcr_config report))
      (if pcr_config report = new then ret (Inr ()) else bind (on_device (set_pin_config E new)) (\<lambda>r. case r of
       Inl e \<Rightarrow> also_do (if is_rejected e then change (\<lambda>l. l\<lparr>target := previous\<rparr>)
           else if is_conflict e then restore_later E RESTORE_INTERVAL else ret ()) (ret (Inl e))
     | Inr _ \<Rightarrow> also_do (wrote E (pcr_config report) new) (ret (Inr ()))))) ?l w') (fine u) F"
    proof (cases r)
      case (Inl e)
      then show ?thesis using l1 by (simp add: wlp_basic)
    next
      case (Inr report)
      show ?thesis unfolding Inr sum.case by (rule go [OF l1])
    qed
  qed
qed

lemma steady_run_request:
  assumes "steady W V R u l w"
  shows "wlp (run_request E r l w) (fine u) F"
proof (cases r)
  case (SetOutputs lvls)
  have "wlp (on_device (set_outputs E lvls) l w) (fine u) F"
    by (rule steady_on_device [OF stays_set_outputs assms])
  then show ?thesis
    using assms by (simp add: SetOutputs run_request_def wlp_bind wlp_basic split: option.split)
next
  case (SetTarget tgt)
  then show ?thesis
    using assms by (auto simp: run_request_def set_target_def wlp_bind wlp_basic wlp_also_do
        split: option.split prod.split intro!: steady_write_target)
qed

lemma steady_run_requests:
  "steady W V R u l w \<Longrightarrow> wlp (run_requests E rs l w) (fine u) F"
proof (induction rs arbitrary: l w)
  case (Cons q rs)
  obtain n r where q: "q = (n, r)" by force
  show ?case
    unfolding q run_requests.simps wlp_bind wlp_basic
    by (rule wlp_mono [OF steady_run_request [OF Cons.prems]]) (simp_all add: Cons.IH)
qed (simp add: wlp_basic)

lemma steady_turn_body:
  assumes "steady W V R u l w"
  shows "wlp (turn_body E rs l w) (fine u) (\<lambda>l' w'. within W V R u (conn l') w')"
  unfolding turn_body_def
  using steady_idle_turn [OF assms] steady_run_requests [OF assms]
  by (simp add: wlp_also_do wlp_basic)

end

section \<open>The system\<close>

text \<open>Every world that was reached is valid, and so is the handle of the connection; the timers are
  in step while the thread runs.\<close>

definition sys_steady :: "('w \<Rightarrow> bool) \<Rightarrow> (handle \<Rightarrow> 'w \<Rightarrow> bool) \<Rightarrow> 'w system \<Rightarrow> bool" where
  "sys_steady W V s \<longleftrightarrow> W (sys_world s) \<and> (sys_thread s = Running \<longrightarrow>
     timed (sys_loop s) \<and> pred_option (\<lambda>c. V (dev_handle (c_device c)) (sys_world s)) (conn (sys_loop s)))"

context frame
begin

lemma end_thread_steady:
  assumes "within W V R u (conn l) w"
  shows "sys_steady W V (end_thread E err sh l w s)"
proof (cases "conn l")
  case (Some c)
  then have "W (e_close E (dev_handle (c_device c)) w)"
    using assms close_R W_kept by (auto simp: within_Some)
  then show ?thesis by (simp add: Some end_thread_def finish_def Let_def sys_steady_def split: prod.split)
qed (use assms in \<open>simp add: end_thread_def finish_def Let_def sys_steady_def within_None split: prod.split\<close>)

lemma turn_steady:
  assumes "sys_steady W V s" "sys_thread s = Running"
  shows "sys_steady W V (turn E s)"
proof -
  obtain pend queue where d: "deliver (pending (sys_loop s)) (out (sys_shared s)) = (pend, queue)" by force
  let ?l = "(sys_loop s)\<lparr>pending := pend\<rparr>"
  have w: "W (sys_world s)" and t: "timed (sys_loop s)"
    "pred_option (\<lambda>c. V (dev_handle (c_device c)) (sys_world s)) (conn (sys_loop s))"
    using assms by (simp_all add: sys_steady_def)
  have l: "steady W V R (sys_world s) ?l (sys_world s)"
    using w t R_refl by (simp add: steady_def timed_def within_def)
  show ?thesis
  proof (cases "stopping (sys_shared s)")
    case True
    then show ?thesis
      using l by (simp add: turn_def d Let_def) (rule end_thread_steady [where u = "sys_world s"], simp add: steady_def)
  next
    case False
    note body = steady_turn_body [OF l, of "requests (sys_shared s)"]
    show ?thesis
    proof (cases "turn_body E (requests (sys_shared s)) ?l (sys_world s)")
      case (Ret a l' w')
      then show ?thesis
        using body False by (simp add: turn_def d Let_def sys_steady_def steady_def within_def)
    next
      case (Fatal e l' w')
      then show ?thesis
        using body False
        by (simp add: turn_def d Let_def) (rule end_thread_steady [where u = "sys_world s"])
    qed (use w False in \<open>simp_all add: turn_def d Let_def sys_steady_def\<close>)
  qed
qed

lemma end_thread_ended [simp]: "sys_thread (end_thread E err sh l w s) = Ended"
  by (simp add: end_thread_def split: prod.split)

lemma step_steady:
  assumes "sys_step E outside s s'" "sys_steady W V s" "\<And>w w'. W w \<Longrightarrow> outside w w' \<Longrightarrow> R w w'"
  shows "sys_steady W V s'"
  using assms(1)
proof (cases rule: sys_step.cases)
  case thread_turn
  then show ?thesis using turn_steady assms(2) by simp
next
  case (world_moves w)
  then have r: "R (sys_world s) w" and "W (sys_world s)"
    using assms(2,3) by (auto simp: sys_steady_def)
  then show ?thesis
    using assms(2) W_kept V_kept [OF _ _ r] world_moves(1)
    by (auto simp: sys_steady_def option.pred_set)
qed (use assms(2) in \<open>simp_all add: sys_steady_def\<close>)

lemma runs_steady:
  assumes "(sys_step E outside)\<^sup>*\<^sup>* (start_system opt t0 w0) s" "W w0" "\<And>w w'. W w \<Longrightarrow> outside w w' \<Longrightarrow> R w w'"
  shows "sys_steady W V s"
  using assms(1)
proof (induction rule: rtranclp_induct)
  case base
  then show ?case
    using assms(2) by (simp add: sys_steady_def start_system_def initial_loop_def timed_def)
next
  case (step s s')
  show ?case by (rule step_steady [OF step(2,3) assms(3)])
qed

end

lemma reachable_runs:
  "reachable E outside opt t0 s \<Longrightarrow> \<exists>w0. (sys_step E outside)\<^sup>*\<^sup>* (start_system opt t0 w0) s"
  by (induction rule: reachable.induct) (auto intro: rtranclp.rtrancl_into_rtrancl)

end
