(* ===== verification/Watch_Pace.thy ===== *)
theory Watch_Pace
  imports Watch_Timers
begin

text \<open>
  The watcher writes its target back at most once a second. The locale \<open>paced\<close> adds a clock to
  the contract \<open>frame\<close>, which never runs backwards and which \<open>Instant::now\<close> reads. \<open>before\<close> is
  what holds of the thread when an operation starts, \<open>after\<close> when it ends: either nothing was
  written back, or once, at least a second after the last time.
\<close>

section \<open>The contract\<close>

locale paced = frame E W V R
  for E :: "'w env" and W :: "'w \<Rightarrow> bool" and V :: "handle \<Rightarrow> 'w \<Rightarrow> bool" and R :: "'w \<Rightarrow> 'w \<Rightarrow> bool" +
  fixes clock :: "'w \<Rightarrow> int"
  assumes clock_R: "W w \<Longrightarrow> R w w' \<Longrightarrow> clock w \<le> clock w'"
    and now_clock: "W w \<Longrightarrow> e_now E w = (t, w') \<Longrightarrow> clock w \<le> at_ns t \<and> at_ns t \<le> clock w'"

text \<open>An instant at least a second after another, if there is another.\<close>

definition apart :: "instant option \<Rightarrow> instant \<Rightarrow> bool" where
  "apart a b \<longleftrightarrow> (case a of None \<Rightarrow> True | Some t \<Rightarrow> at_ns t + int RESTORE_INTERVAL \<le> at_ns b)"

definition waits :: "instant option \<Rightarrow> instant option \<Rightarrow> bool" where
  "waits a r \<longleftrightarrow> pred_option (apart a) r"

definition past :: "instant option \<Rightarrow> int \<Rightarrow> bool" where
  "past a k \<longleftrightarrow> pred_option (\<lambda>t. at_ns t \<le> k) a"

text \<open>Nothing was written back, and nothing scheduled to be.\<close>

definition calm :: "watch_loop \<Rightarrow> watch_loop \<Rightarrow> bool" where
  "calm l' l \<longleftrightarrow> last_restore l' = last_restore l \<and> restore_count l' = restore_count l \<and>
     (restore_at l' = restore_at l \<or> restore_at l' = None)"

lemma calm_refl [simp]: "calm l l"
  by (simp add: calm_def)

lemma calm_trans: "calm l2 l1 \<Longrightarrow> calm l1 l \<Longrightarrow> calm l2 l"
  by (auto simp: calm_def)

lemma calm_quiet: "no_news l' = no_news l \<Longrightarrow> calm l' l"
  using no_news_fields [of l' l] by (simp add: calm_def)

lemma past_mono: "past a k \<Longrightarrow> k \<le> k' \<Longrightarrow> past a k'"
  by (cases a) (simp_all add: past_def)

context frame
begin

lemma within_here: "within W V R u c w \<Longrightarrow> within W V R w c w"
  by (simp add: within_def R_refl)

lemma within_from: "within W V R u c w \<Longrightarrow> within W V R w c' w' \<Longrightarrow> within W V R u c' w'"
  by (auto simp: within_def intro: R_trans)

section \<open>Operations that write nothing back\<close>

lemma calm_device:
  assumes "stays W V R m" "within W V R u (conn l) w"
  shows "wlp (on_device m l w) (\<lambda>_ l' w'. calm l' l \<and> within W V R u (conn l') w' \<and> conn l' \<noteq> None) F"
  using stays_within [OF assms(1)] assms(2) by (auto simp: wlp_on_device calm_def)

lemma calm_lost:
  assumes "within W V R u (conn l) w"
  shows "wlp (lost E e l w) (\<lambda>_ l' w'. calm l' l \<and> within W V R u (conn l') w') F"
proof (cases "conn l")
  case (Some c)
  then have "R w (e_close E (dev_handle (c_device c)) w)"
    using assms by (intro close_R) (simp_all add: within_Some)
  then have "within W V R u None (e_close E (dev_handle (c_device c)) w)"
    using assms Some by (auto simp: within_Some within_None intro: R_trans W_kept)
  then show ?thesis
    using Some by (auto simp: lost_def wlp_rules drop_connection_def scan_later_def calm_def intro: within_now)
qed (use assms in \<open>simp add: lost_def wlp_rules\<close>)

lemma calm_wrote:
  assumes "within W V R u (conn l) w"
  shows "wlp (wrote E found new l w) (\<lambda>_ l' w'. calm l' l \<and> within W V R u (conn l') w') F"
  unfolding wrote_def wlp_also_do
proof (rule wlp_quiet [OF quiet_set_config])
  fix l'
  assume "no_news l' = no_news l"
  then have l': "calm l' l" "conn l' = conn l" using calm_quiet no_news_fields by blast+
  have "within W V R u (map_option (\<lambda>c. c\<lparr>awaiting_config := True\<rparr>) (conn l)) w"
    using assms by (cases "conn l") simp_all
  then show "wlp (change (\<lambda>l. l\<lparr>conn := map_option (\<lambda>c. c\<lparr>awaiting_config := True\<rparr>) (conn l)\<rparr>) l' w)
     (\<lambda>_ l1 w. wlp (bind (now_plus E SETTLE_TIMEOUT) (\<lambda>t. also_do (change (\<lambda>l. l\<lparr>settle_at := Some t\<rparr>))
       (if driven_outputs found new \<noteq> []
        then emit (OutputsReset (driven_outputs found new) PinConfigWrite) else ret ())) l1 w)
       (\<lambda>_ l' w'. calm l' l \<and> within W V R u (conn l') w') F) F"
    using l' by (auto simp: wlp_rules calm_def intro: within_now)
qed

lemma calm_absorb_unless:
  assumes "within W V R u (conn l) w"
  shows "wlp (absorb_unless E stale r l w) (\<lambda>_ l' w'. calm l' l \<and> within W V R u (conn l') w') F"
proof -
  have "wlp (absorb E r l w) (\<lambda>_ l' w'. calm l' l \<and> within W V R u (conn l') w') F"
  proof (rule wlp_mono [OF within_absorb [OF assms]])
    fix l' w'
    assume "no_news l' = no_news l \<and> within W V R u (conn l) w'"
    then show "calm l' l \<and> within W V R u (conn l') w'" using calm_quiet [of l' l] no_news_fields [of l' l] by simp
  qed
  then show ?thesis using assms by (simp add: absorb_unless_def wlp_rules)
qed

lemma calm_scan_later:
  "within W V R u (conn l) w \<Longrightarrow> wlp (scan_later E l w) (\<lambda>_ l' w'. calm l' l \<and> within W V R u (conn l') w') F"
  by (auto simp: scan_later_def wlp_rules calm_def intro: within_now)

end

section \<open>Writing back\<close>

context paced
begin

definition before :: "instant option \<Rightarrow> u64 \<Rightarrow> 'w \<Rightarrow> watch_loop \<Rightarrow> 'w \<Rightarrow> bool" where
  "before a n u l w \<longleftrightarrow> within W V R u (conn l) w \<and> last_restore l = a \<and> restore_count l = n \<and>
     waits a (restore_at l) \<and> past a (clock w)"

definition after :: "instant option \<Rightarrow> u64 \<Rightarrow> 'w \<Rightarrow> watch_loop \<Rightarrow> 'w \<Rightarrow> bool" where
  "after a n u l w \<longleftrightarrow> within W V R u (conn l) w \<and> waits (last_restore l) (restore_at l) \<and>
     past (last_restore l) (clock w) \<and>
     (last_restore l = a \<and> restore_count l = n \<or>
      (\<exists>b. last_restore l = Some b \<and> apart a b \<and> (restore_count l = n \<or> restore_count l = n + 1)))"

abbreviation (input) paces :: "instant option \<Rightarrow> u64 \<Rightarrow> 'w \<Rightarrow> 'a \<Rightarrow> watch_loop \<Rightarrow> 'w \<Rightarrow> bool" where
  "paces a n u \<equiv> (\<lambda>_ l w. after a n u l w)"

lemma before_within: "before a n u l w \<Longrightarrow> within W V R u (conn l) w"
  and after_within: "after a n u l w \<Longrightarrow> within W V R u (conn l) w"
  by (simp_all add: before_def after_def)

lemma before_after: "before a n u l w \<Longrightarrow> after a n u l w"
  by (simp add: before_def after_def)

lemma clock_within: "within W V R w c w' \<Longrightarrow> within W V R u c2 w \<Longrightarrow> clock w \<le> clock w'"
  by (intro clock_R) (simp_all add: within_def)

lemma before_calm:
  assumes "before a n u l w" "calm l' l" "within W V R w (conn l') w'"
  shows "before a n u l' w'"
  using assms within_from [OF before_within [OF assms(1)] assms(3)]
    clock_within [OF assms(3) before_within [OF assms(1)]] past_mono [of a "clock w" "clock w'"]
  by (auto simp: before_def calm_def waits_def)

lemma after_calm:
  assumes "after a n u l w" "calm l' l" "within W V R w (conn l') w'"
  shows "after a n u l' w'"
  using assms within_from [OF after_within [OF assms(1)] assms(3)]
    clock_within [OF assms(3) after_within [OF assms(1)]] past_mono [of "last_restore l" "clock w" "clock w'"]
  by (auto simp: after_def calm_def waits_def)

text \<open>A calm operation keeps either.\<close>

lemma wlp_calm_after:
  assumes "wlp r (\<lambda>_ l' w'. calm l' l \<and> within W V R w (conn l') w') (\<lambda>_ _. False)" "after a n u l w"
  shows "wlp r (paces a n u) F"
  by (rule wlp_mono [OF assms(1)]) (use after_calm [OF assms(2)] in auto)

lemma wlp_calm_before:
  assumes "wlp r (\<lambda>_ l' w'. calm l' l \<and> within W V R w (conn l') w') (\<lambda>_ _. False)" "before a n u l w"
    and "\<And>x l' w'. before a n u l' w' \<Longrightarrow> Q x l' w'"
  shows "wlp r Q F"
  by (rule wlp_mono [OF assms(1)]) (use before_calm [OF assms(2)] assms(3) in auto)

lemma pace_lost: "after a n u l w \<Longrightarrow> wlp (lost E e l w) (paces a n u) F"
  by (rule wlp_calm_after [OF calm_lost]) (auto dest: after_within within_here)

lemma pace_wrote: "after a n u l w \<Longrightarrow> wlp (wrote E found new l w) (paces a n u) F"
  by (rule wlp_calm_after [OF calm_wrote]) (auto dest: after_within within_here)

lemma pace_absorb_unless: "after a n u l w \<Longrightarrow> wlp (absorb_unless E stale r l w) (paces a n u) F"
  by (rule wlp_calm_after [OF calm_absorb_unless]) (auto dest: after_within within_here)

text \<open>Trying again a second from now: the clock is not before the last time.\<close>

lemma pace_restore_later:
  assumes "after a n u l w" "\<And>t. clock w \<le> at_ns t \<Longrightarrow> apart (last_restore l) (Instant (at_ns t + int d))"
  shows "wlp (restore_later E d l w) (paces a n u) F"
proof -
  have "after a n u (l\<lparr>restore_at := Some v\<rparr>) w'" if "e_now E w = (t, w')" "instant_add t d = Some v" for t w' v
  proof -
    have i: "within W V R u (conn l) w" using assms(1) by (rule after_within)
    then have w: "W w" by (simp add: within_def)
    have "v = Instant (at_ns t + int d)" using that(2) by (simp add: instant_add_def split: if_splits)
    then have "apart (last_restore l) v" using assms(2) now_clock [OF w that(1)] by simp
    then show ?thesis
      using assms(1) within_now [OF i that(1)] past_mono [of "last_restore l" "clock w" "clock w'"]
        now_clock [OF w that(1)] by (auto simp: after_def waits_def)
  qed
  then show ?thesis by (auto simp: restore_later_def wlp_rules)
qed

lemma apart_later:
  assumes "past a k" "k \<le> at_ns t"
  shows "apart a (Instant (at_ns t + int RESTORE_INTERVAL))"
  using assms by (cases a) (auto simp: apart_def past_def)

lemma pace_restore_over:
  assumes "within W V R u (conn l) w" "last_restore l = Some b" "apart a b" "at_ns b \<le> clock w"
    "restore_count l = n" "restore_at l = None"
  shows "wlp (restore_over E tgt found l w) (paces a n u) (after a n u)"
proof -
  have mid: "after a n u l1 w1" "within W V R w1 (conn l1) w1"
    if "last_restore l1 = Some b" "restore_count l1 \<in> {n, n + 1}" "restore_at l1 = None"
      "within W V R u (conn l1) w1" "at_ns b \<le> clock w1" for l1 w1
    using that assms(3) within_here by (auto simp: after_def waits_def past_def)
  have put: "wlp (bind (on_device (set_pin_config E tgt)) (\<lambda>r. case r of
        Inl e \<Rightarrow> if is_rejected e then fatal e
          else if is_conflict e then restore_later E RESTORE_INTERVAL
          else lost E e
      | Inr _ \<Rightarrow>
          also_do (change (\<lambda>l. l\<lparr>restore_count := restore_count l + 1\<rparr>))
          (bind (look restore_count) (\<lambda>count.
           also_do (emit (PinConfigRestored found count)) (wrote E found tgt)))) l1 w) (paces a n u) (after a n u)"
    if "no_news l1 = no_news l" for l1
  proof -
    note f = no_news_fields [OF that]
    have l1: "within W V R w (conn l1) w" using f assms(1) within_here by simp
    show ?thesis
      unfolding wlp_bind [of "on_device (set_pin_config E tgt)"]
    proof (rule wlp_mono [OF calm_device [OF stays_set_pin_config l1]])
      fix r :: "pin_config_report result" and l2 w2
      assume 2: "calm l2 l1 \<and> within W V R w (conn l2) w2 \<and> conn l2 \<noteq> None"
      have c: "at_ns b \<le> clock w2" using clock_within [OF _ assms(1)] 2 assms(4) by fastforce
      have i: "within W V R u (conn l2) w2" using within_from [OF assms(1)] 2 by blast
      have l2: "last_restore l2 = Some b" "restore_count l2 = n" "restore_at l2 = None"
        using 2 f assms(2,5,6) by (auto simp: calm_def)
      have a2: "after a n u l2 w2" using mid(1) [OF l2(1) _ l2(3) i c] l2(2) by simp
      have again: "apart (last_restore l2) (Instant (at_ns t + int RESTORE_INTERVAL))" if "clock w2 \<le> at_ns t" for t
        using apart_later [OF _ that, of "Some b"] c l2(1) by (simp add: past_def)
      have count: "after a n u (l2\<lparr>restore_count := n + 1, pending := p\<rparr>) w2" for p
        using l2 i c by (intro mid) simp_all
      show "wlp ((case r of
        Inl e \<Rightarrow> if is_rejected e then fatal e
          else if is_conflict e then restore_later E RESTORE_INTERVAL
          else lost E e
      | Inr _ \<Rightarrow>
          also_do (change (\<lambda>l. l\<lparr>restore_count := restore_count l + 1\<rparr>))
          (bind (look restore_count) (\<lambda>count.
           also_do (emit (PinConfigRestored found count)) (wrote E found tgt)))) l2 w2) (paces a n u) (after a n u)"
        using a2 count again
        by (auto simp: wlp_basic wlp_also_do wlp_bind l2(2) intro: pace_restore_later pace_lost pace_wrote split: sum.split)
    qed
  qed
  show ?thesis
    unfolding restore_over_def wlp_also_do [of "set_config found"]
  proof (rule wlp_quiet [OF quiet_set_config])
    fix l1
    assume n: "no_news l1 = no_news l"
    have "after a n u l1 w" using mid(1) [of l1 w] no_news_fields [OF n] assms by simp
    then show "wlp ((if found = tgt then ret ()
      else bind (on_device (set_pin_config E tgt)) (\<lambda>r. case r of
        Inl e \<Rightarrow> if is_rejected e then fatal e
          else if is_conflict e then restore_later E RESTORE_INTERVAL
          else lost E e
      | Inr _ \<Rightarrow>
          also_do (change (\<lambda>l. l\<lparr>restore_count := restore_count l + 1\<rparr>))
          (bind (look restore_count) (\<lambda>count.
           also_do (emit (PinConfigRestored found count)) (wrote E found tgt))))) l1 w) (paces a n u) (after a n u)"
      using put [OF n] by (simp add: wlp_basic)
  qed
qed

lemma pace_restore_target:
  assumes "before a n u l w" "\<And>t. clock w \<le> at_ns t \<Longrightarrow> apart a t"
  shows "wlp (restore_target E l w) (paces a n u) (after a n u)"
proof (cases "target l = None \<or> conn l = None")
  case True
  then show ?thesis
    using before_after [OF assms(1)] by (auto simp: restore_target_def wlp_rules split: option.split)
next
  case False
  then obtain tgt c where tc: "target l = Some tgt" "conn l = Some c" by auto
  have "wlp (on_device (get_pin_config E) (l\<lparr>restore_at := None, last_restore := Some t\<rparr>) w1)
      (\<lambda>r l w. wlp ((case r of Inl e \<Rightarrow> lost E e | Inr report \<Rightarrow> restore_over E tgt (pcr_config report)) l w)
        (paces a n u) (after a n u)) (after a n u)"
    (is "wlp (on_device _ ?l w1) _ _") if t: "e_now E w = (t, w1)" for t w1
  proof -
    have i: "within W V R u (conn l) w" using assms(1) by (rule before_within)
    have i1: "within W V R u (conn ?l) w1" using within_now [OF i t] by simp
    have now: "clock w \<le> at_ns t" "at_ns t \<le> clock w1"
      using now_clock [OF _ t] i by (simp_all add: within_def)
    have ap: "apart a t" using assms(2) now(1) .
    show ?thesis
    proof (rule wlp_mono [OF calm_device [OF stays_get_pin_config within_here [OF i1]]])
      fix r :: "pin_config_report result" and l2 w2
      assume 2: "calm l2 ?l \<and> within W V R w1 (conn l2) w2 \<and> conn l2 \<noteq> None"
      have i2: "within W V R u (conn l2) w2" using within_from [OF i1] 2 by blast
      have c2: "at_ns t \<le> clock w2" using clock_within [OF _ i1] 2 now(2) by fastforce
      have l2: "last_restore l2 = Some t" "restore_count l2 = n" "restore_at l2 = None"
        using 2 assms(1) by (auto simp: calm_def before_def)
      then have "after a n u l2 w2" using i2 c2 ap by (simp add: after_def waits_def past_def)
      then show "wlp ((case r of Inl e \<Rightarrow> lost E e | Inr report \<Rightarrow> restore_over E tgt (pcr_config report)) l2 w2)
          (paces a n u) (after a n u)"
        using pace_restore_over [OF i2 l2(1) ap c2 l2(2,3)] pace_lost by (auto split: sum.split)
    qed (use assms in simp)
  qed
  then show ?thesis by (simp add: restore_target_def wlp_rules tc del: wlp_on_device)
qed

lemma pace_restore_or_wait:
  assumes "before a n u l w"
  shows "wlp (restore_or_wait E l w) (paces a n u) (after a n u)"
proof (cases a)
  case None
  then have "wlp (restore_target E l w) (paces a n u) (after a n u)"
    using pace_restore_target [OF assms] by (simp add: apart_def)
  then show ?thesis using assms None by (simp add: restore_or_wait_def wlp_bind wlp_basic before_def)
next
  case (Some last_t)
  have last_t: "last_restore l = Some last_t" "at_ns last_t \<le> clock w"
    using assms Some by (simp_all add: before_def past_def)
  have "wlp ((if since t last_t < RESTORE_INTERVAL then restore_later E (RESTORE_INTERVAL - since t last_t)
      else restore_target E) l w1) (paces a n u) (after a n u)" if t: "e_now E w = (t, w1)" for t w1
  proof -
    have i: "within W V R u (conn l) w" using assms by (rule before_within)
    have now: "clock w \<le> at_ns t" "at_ns t \<le> clock w1"
      using now_clock [OF _ t] i by (simp_all add: within_def)
    have el: "int (since t last_t) = at_ns t - at_ns last_t" using now last_t by (simp add: since_def)
    have b: "before a n u l w1"
      by (rule before_calm [OF assms calm_refl]) (rule within_now [OF within_here [OF i] t])
    show ?thesis
    proof (cases "since t last_t < RESTORE_INTERVAL")
      case True
      then have "wlp (restore_later E (RESTORE_INTERVAL - since t last_t) l w1) (paces a n u) (after a n u)"
        using now el last_t by (intro pace_restore_later [OF before_after [OF b]]) (simp add: apart_def of_nat_diff)
      then show ?thesis using True by simp
    next
      case False
      then have "wlp (restore_target E l w1) (paces a n u) (after a n u)"
        using now el Some by (intro pace_restore_target [OF b]) (simp add: apart_def)
      then show ?thesis using False by simp
    qed
  qed
  then show ?thesis by (simp add: restore_or_wait_def wlp_rules last_t Let_def)
qed

lemma pace_config_changed:
  assumes "before a n u l w"
  shows "wlp (config_changed E l w) (paces a n u) (after a n u)"
  unfolding config_changed_def wlp_bind [of "on_device (get_pin_config E)"]
proof (rule wlp_mono [OF calm_device [OF stays_get_pin_config within_here [OF before_within [OF assms]]]])
  fix r :: "pin_config_report result" and l1 w1
  assume 1: "calm l1 l \<and> within W V R w (conn l1) w1 \<and> conn l1 \<noteq> None"
  have l1: "before a n u l1 w1" using before_calm [OF assms] 1 by blast
  show "wlp ((case r of Inl e \<Rightarrow> lost E e
   | Inr report \<Rightarrow> bind (look (\<lambda>l. pcr_config report \<noteq> config l)) (\<lambda>changed.
       also_do (set_config (pcr_config report))
       (bind (look target) (\<lambda>t. case t of
          None \<Rightarrow> if changed then emit (PinConfigChanged (pcr_config report)) else ret ()
        | Some tgt \<Rightarrow> if pcr_config report = tgt then ret () else restore_or_wait E)))) l1 w1)
      (paces a n u) (after a n u)"
  proof (cases r)
    case (Inl e)
    then show ?thesis using pace_lost [OF before_after [OF l1]] by simp
  next
    case (Inr report)
    have follow: "wlp (bind (look target) (\<lambda>t. case t of
          None \<Rightarrow> if changed then emit (PinConfigChanged (pcr_config report)) else ret ()
        | Some tgt \<Rightarrow> if pcr_config report = tgt then ret () else restore_or_wait E) l2 w1)
        (paces a n u) (after a n u)"
      if n: "no_news l2 = no_news l1" for l2 changed
    proof -
      have same: "within W V R w1 (conn l1) w1" using l1 before_within within_here by blast
      have l2: "before a n u l2 w1"
        using before_calm [OF l1 calm_quiet [OF n]] same no_news_fields [OF n] by simp
      have "after a n u (l2\<lparr>pending := p\<rparr>) w1" for p
        using before_after [OF l2] by (simp add: after_def)
      then show ?thesis
        using before_after [OF l2] pace_restore_or_wait [OF l2]
        by (auto simp: wlp_basic wlp_bind split: option.split)
    qed
    show ?thesis
      unfolding Inr sum.case wlp_bind wlp_basic wlp_also_do
      by (rule wlp_quiet [OF quiet_set_config], rule follow [unfolded wlp_bind wlp_basic])
  qed
qed (use assms in simp)

section \<open>Reports\<close>

lemma before_conn:
  assumes "before a n u l w" "within W V R w c w"
  shows "before a n u (l\<lparr>conn := c\<rparr>) w"
  by (rule before_calm [OF assms(1)]) (use assms(2) in \<open>simp_all add: calm_def\<close>)

lemma pace_status_tail:
  assumes "before a n u l w"
  shows "wlp (also_do (emit ev) (also_do (suspend_event r)
     (if news then also_do (config_changed E)
        (bind (look conn) (\<lambda>c. if c = None then ret () else absorb_unless E stale r))
      else absorb_unless E stale r)) l w) (paces a n u) (after a n u)"
  unfolding wlp_also_do wlp_basic
proof (rule wlp_quiet [OF quiet_suspend_event])
  fix l1
  assume n: "no_news l1 = no_news (l\<lparr>pending := pending l @ [ev]\<rparr>)"
  have "calm l1 l" using calm_quiet [of l1 l] n by simp
  moreover have "within W V R w (conn l1) w"
    using no_news_fields [OF n] within_here [OF before_within [OF assms]] by simp
  ultimately have l1: "before a n u l1 w" by (rule before_calm [OF assms])
  have "wlp (also_do (config_changed E)
      (bind (look conn) (\<lambda>c. if c = None then ret () else absorb_unless E stale r)) l1 w) (paces a n u) (after a n u)"
    unfolding wlp_also_do
    by (rule wlp_mono [OF pace_config_changed [OF l1]])
      (auto simp: wlp_bind wlp_basic intro: pace_absorb_unless)
  then show "wlp ((if news then also_do (config_changed E)
        (bind (look conn) (\<lambda>c. if c = None then ret () else absorb_unless E stale r))
      else absorb_unless E stale r) l1 w) (paces a n u) (after a n u)"
    using pace_absorb_unless [OF before_after [OF l1]] by simp
qed

lemma pace_status_step:
  assumes "before a n u l w"
  shows "wlp (status_step E r at missed l w) (paces a n u) (after a n u)"
proof -
  have i: "within W V R w (conn l) w" by (rule within_here [OF before_within [OF assms]])
  have 1: "before a n u (l\<lparr>conn := Some (c\<lparr>c_clock := k, snapshot_seq := q\<rparr>)\<rparr>) w"
    "before a n u (l\<lparr>conn := Some (c\<lparr>c_clock := k, snapshot_seq := q, awaiting_config := False\<rparr>), settle_at := None\<rparr>) w"
    if "conn l = Some c" for c k q
    using i that by (auto intro!: before_calm [OF assms] simp: calm_def within_Some)
  show ?thesis
    unfolding status_step_def loop_on_off_def
    by (auto simp: wlp_bind wlp_basic wlp_or_panic wlp_the_conn wlp_change_conn
        wlp_also_do [of "change_conn f" for f] wlp_also_do [of "if b then m else ret ()" for b m]
        wlp_also_do [of _ "change f" for f]
        Let_def split: prod.split if_split intro!: 1 pace_status_tail [where news = True, unfolded if_True]
        pace_status_tail [where news = False, unfolded if_False])
qed

lemma pace_snapshot:
  assumes "before a n u l w"
  shows "wlp (snapshot E l w) (paces a n u) F"
  unfolding snapshot_def wlp_bind [of "on_device (request_status E)"]
proof (rule wlp_mono [OF calm_device [OF stays_request_status within_here [OF before_within [OF assms]]]])
  fix r :: "status_report result" and l1 w1
  assume 1: "calm l1 l \<and> within W V R w (conn l1) w1 \<and> conn l1 \<noteq> None"
  have l1: "before a n u l1 w1" using before_calm [OF assms] 1 by blast
  have "before a n u (l1\<lparr>conn := Some (c\<lparr>snapshot_seq := q\<rparr>)\<rparr>) w2"
    if "conn l1 = Some c" "e_now E w1 = (t, w2)" for c q t w2
  proof (rule before_calm [OF l1])
    show "within W V R w1 (conn (l1\<lparr>conn := Some (c\<lparr>snapshot_seq := q\<rparr>)\<rparr>)) w2"
      using within_now [OF within_here [OF before_within [OF l1]] that(2)] that(1) by simp
  qed (simp add: calm_def)
  then show "wlp ((case r of Inl e \<Rightarrow> lost E e | Inr report \<Rightarrow>
       also_do (change_conn (\<lambda>c. c\<lparr>snapshot_seq :=
           (if seq report \<noteq> 0 \<and> \<not> more_events report then Some (seq report) else None)\<rparr>))
       (bind (now E) (\<lambda>t. ignore_fatal (status_step E report t 0)))) l1 w1) (paces a n u) F"
    using pace_lost [OF before_after [OF l1]]
    by (auto simp: wlp_bind wlp_also_do wlp_change_conn wlp_now wlp_ignore_fatal
        split: sum.split intro!: pace_status_step)
qed simp

lemma pace_received:
  assumes "before a n u l w"
  shows "wlp (received E data at l w) (paces a n u) (after a n u)"
proof -
  have i: "within W V R w (conn l) w" by (rule within_here [OF before_within [OF assms]])
  have "before a n u (l\<lparr>conn := Some (c\<lparr>c_last_seq := q\<rparr>)\<rparr>) w" if "conn l = Some c" for c q
    using i that by (intro before_conn [OF assms]) simp
  then show ?thesis
    using before_after [OF assms]
    by (auto simp: received_def wlp_basic wlp_bind wlp_the_conn wlp_also_do wlp_change_conn Let_def
        split: sum.split intro!: pace_status_step)
qed

section \<open>Connecting and turns\<close>

lemma pace_connected:
  assumes "before a n u l w" "within W V R w (Some (new_connection d (snd (snd fda)))) w"
  shows "wlp (connected E entry i d fda l w) (\<lambda>r l' w'. after a n u l' w' \<and> r = Inr ()) F"
proof -
  obtain found driven aw where fda: "fda = (found, driven, aw)" by (cases fda)
  have last: "wlp (also_do (if aw then bind (now_plus E SETTLE_TIMEOUT) (\<lambda>t. change (\<lambda>l. l\<lparr>settle_at := Some t\<rparr>))
        else snapshot E) (ret (Inr ())) l1 w) (\<lambda>r l' w'. after a n u l' w' \<and> r = Inr ()) F"
    if l1: "before a n u l1 w" for l1
  proof (cases aw)
    case True
    have "after a n u (l1\<lparr>settle_at := Some v\<rparr>) w1" if "e_now E w = (t, w1)" for t w1 v
      using within_now [OF within_here [OF before_within [OF l1]] that]
      by (intro before_after [OF before_calm [OF l1]]) (simp_all add: calm_def)
    then show ?thesis using True by (auto simp: wlp_rules)
  next
    case False
    then show ?thesis using pace_snapshot [OF l1] by (simp add: wlp_also_do wlp_basic)
  qed
  show ?thesis
    unfolding connected_def fda prod.case wlp_also_do wlp_bind wlp_basic
  proof (rule wlp_quiet [OF quiet_reset_failures], rule wlp_quiet [OF quiet_set_config],
      rule wlp_quiet [OF quiet_outputs_event], rule last [unfolded wlp_also_do wlp_basic])
    fix l1 l2 l3 ev
    let ?c = "new_connection d aw"
    assume n: "no_news l1 = no_news (l\<lparr>conn := Some ?c\<rparr>)"
      "no_news l2 = no_news (l1\<lparr>ever_connected := True\<rparr>)" "no_news l3 = no_news (l2\<lparr>pending := pending l2 @ ev\<rparr>)"
    note f = no_news_fields [OF n(1)] no_news_fields [OF n(2)] no_news_fields [OF n(3)]
    show "before a n u l3 w"
      using f assms(2) fda by (intro before_calm [OF assms(1)]) (simp_all add: calm_def)
  qed
qed

lemma pace_scan_later: "after a n u l w \<Longrightarrow> wlp (scan_later E l w) (paces a n u) F"
  by (rule wlp_calm_after [OF calm_scan_later]) (auto dest: after_within within_here)

lemma pace_failing:
  assumes "after a n u l w"
  shows "wlp (also_do (failed e) (scan_later E) l w) (paces a n u) F"
  unfolding wlp_also_do
proof (rule wlp_quiet [OF quiet_failed])
  fix l1
  assume n: "no_news l1 = no_news l"
  have "after a n u l1 w"
    using no_news_fields [OF n] within_here [OF after_within [OF assms]]
    by (intro after_calm [OF assms calm_quiet [OF n]]) simp
  then show "wlp (scan_later E l1 w) (paces a n u) F" by (rule pace_scan_later)
qed

lemma pace_try_entries:
  assumes "before a n u l w" "conn l = None"
  shows "wlp (try_entries E entries l w) (paces a n u) (after a n u)"
proof -
  have i: "within W V R w None w" using within_here [OF before_within [OF assms(1)]] assms(2) by simp
  have none: "wlp (also_do reset_failures (scan_later E) l w) (paces a n u) (after a n u)"
    unfolding wlp_also_do
  proof (rule wlp_quiet [OF quiet_reset_failures])
    fix l1
    assume n: "no_news l1 = no_news l"
    have "before a n u l1 w"
      using no_news_fields [OF n] i assms(2) by (intro before_calm [OF assms(1) calm_quiet [OF n]]) simp
    then show "wlp (scan_later E l1 w) (paces a n u) (after a n u)" by (intro pace_scan_later before_after)
  qed
  have some: "wlp (bind (connect E entry) (\<lambda>r. case r of Inr _ \<Rightarrow> ret () | Inl e \<Rightarrow> also_do (failed e) (scan_later E))
      (l\<lparr>wl_serial := s\<rparr>) w) (paces a n u) (after a n u)" for entry s
    using i
  proof (cases rule: connect_cases [where entry = entry and l = "l\<lparr>wl_serial := s\<rparr>"])
    case (failed e x w')
    have "before a n u (l\<lparr>wl_serial := s, wl_info := x\<rparr>) w'"
      using failed(2) assms(2) by (intro before_calm [OF assms(1)]) (simp_all add: calm_def)
    then show ?thesis using pace_failing [OF before_after] by (simp add: wlp_bind [of "connect E entry"] failed(1))
  next
    case (rejected e x w')
    have "before a n u (l\<lparr>wl_serial := s, wl_info := x\<rparr>) w'"
      using rejected(2) assms(2) by (intro before_calm [OF assms(1)]) (simp_all add: calm_def)
    then show ?thesis using before_after by (simp add: wlp_bind [of "connect E entry"] rejected(1))
  next
    case (connected i d fda w')
    have "before a n u (l\<lparr>wl_serial := s, wl_info := Some i\<rparr>) w'"
      using connected(2) assms(2) by (intro before_calm [OF assms(1)]) (simp_all add: calm_def within_Some within_None)
    from pace_connected [OF this within_here [OF connected(2)], of entry i "after a n u"]
    show ?thesis
      unfolding wlp_bind [of "connect E entry"] connected(1) by (rule wlp_mono) (auto simp: wlp_basic)
  qed
  show ?thesis
  proof (cases "matching_entries (wl_serial l) entries")
    case Nil
    then show ?thesis using none by (simp add: try_entries_def wlp_bind wlp_basic)
  next
    case (Cons entry others)
    have "wlp ((if wl_serial l = None \<and> others \<noteq> [] then fatal (SeveralDevices (map de_serial (entry # others)))
          else also_do (change (\<lambda>l. l\<lparr>wl_serial := Some (de_serial entry)\<rparr>))
            (bind (connect E entry) (\<lambda>r. case r of Inr _ \<Rightarrow> ret () | Inl e \<Rightarrow> also_do (failed e) (scan_later E)))) l w)
          (paces a n u) (after a n u)"
    proof (cases "wl_serial l = None \<and> others \<noteq> []")
      case True
      show ?thesis unfolding if_P [OF True] wlp_basic using before_after [OF assms(1)] .
    next
      case False
      show ?thesis unfolding if_not_P [OF False] wlp_also_do [of "change f" for f] wlp_basic by (rule some)
    qed
    then show ?thesis
      unfolding try_entries_def wlp_bind [of "look wl_serial"] wlp_basic Cons list.case .
  qed
qed

lemma pace_try_connect:
  assumes "before a n u l w" "conn l = None"
  shows "wlp (try_connect E l w) (paces a n u) (after a n u)"
proof -
  obtain r w' where d: "e_devices E w = (r, w')" by force
  have i: "within W V R w None w" using within_here [OF before_within [OF assms(1)]] assms(2) by simp
  have "within W V R w (conn l) w'"
    using within_step [OF i] devices_R [OF _ d] i assms(2) by (simp add: within_None)
  then have b: "before a n u l w'" by (rule before_calm [OF assms(1) calm_refl])
  show ?thesis
    using pace_try_entries [OF b assms(2)] pace_failing [OF before_after [OF b]] before_after [OF b]
    by (auto simp: try_connect_def wlp_bind list_devices_def d wlp_basic split: sum.split)
qed

lemma before_fields:
  assumes "before a n u l w" "calm l' l" "conn l' = conn l"
  shows "before a n u l' w"
  using assms within_here [OF before_within [OF assms(1)]] by (intro before_calm [OF assms(1,2)]) simp

lemma before_now: "before a n u l w \<Longrightarrow> e_now E w = (t, w') \<Longrightarrow> before a n u l w'"
  by (rule before_calm [OF _ calm_refl], assumption, rule within_now [OF within_here [OF before_within]])

lemma pace_settle:
  assumes "before a n u l w"
  shows "wlp (settle E l w) (paces a n u) F"
proof -
  have b: "before a n u (l\<lparr>settle_at := None\<rparr>) w" by (rule before_fields [OF assms]) (simp_all add: calm_def)
  have "before a n u (l\<lparr>settle_at := None, conn := Some (c\<lparr>awaiting_config := False\<rparr>)\<rparr>) w" if "conn l = Some c" for c
    using within_here [OF before_within [OF assms]] that by (intro before_conn [OF b]) simp
  then show ?thesis
    using before_after [OF b]
    by (auto simp: settle_def wlp_also_do wlp_bind wlp_basic wlp_change_conn split: option.split intro: pace_snapshot)
qed

lemma pace_restore:
  assumes "before a n u l w" "due (restore_at l) t" "at_ns t \<le> clock w"
  shows "wlp (restore E l w) (paces a n u) (after a n u)"
proof -
  obtain r where r: "restore_at l = Some r" "r \<le> t" using assms(2) by (cases "restore_at l") (auto simp: due_def)
  then have "apart a r" using assms(1) by (simp add: before_def waits_def)
  then have "apart a t2" if "clock w \<le> at_ns t2" for t2
    using that r(2) assms(3) by (cases a) (auto simp: apart_def less_eq_instant_def)
  then show ?thesis
    using before_fields [OF assms(1), of "l\<lparr>restore_at := None\<rparr>"]
    by (simp add: restore_def wlp_also_do wlp_basic calm_def pace_restore_target)
qed

lemma pace_read_device:
  assumes "before a n u l w"
  shows "wlp (read_device E timeout l w) (paces a n u) (after a n u)"
proof -
  have read: "before a n u (l\<lparr>conn := Some (c\<lparr>c_device := d\<rparr>)\<rparr>) w'"
    if c: "conn l = Some c" and m: "read_raw E buf t (c_device c) w = Some (r, d, w')" for c buf t r d w'
  proof -
    have i: "within W V R w (Some c) w" using within_here [OF before_within [OF assms]] c by simp
    obtain k data where "e_read E (dev_handle (c_device c)) buf t w = Some (k, data, w')" "d = c_device c"
      using m by (auto simp: read_raw_def split: option.splits prod.splits sum.splits)
    then have "R w w'" "d = c_device c" using read_R i by (auto simp: within_Some)
    then show ?thesis using within_step [OF i] by (intro before_calm [OF assms]) (simp_all add: calm_def)
  qed
  show ?thesis
    unfolding read_device_def wlp_bind
    by (auto simp: read_report_def wlp_bind wlp_basic wlp_or_panic wlp_now
        split: option.split prod.split sum.split intro!: pace_lost pace_received
        intro: before_after [OF read] read before_now [OF read])
qed

lemma pace_idle_turn:
  assumes "before a n u l w" "timed l"
  shows "wlp (idle_turn E l w) (paces a n u) (after a n u)"
proof -
  have scan: "wlp (scan E l w1) (paces a n u) (after a n u)" if "before a n u l w1" "due (scan_at l) t" for w1 t
  proof -
    have "conn l = None" using assms(2) that(2) by (cases "conn l") (auto simp: timed_def due_def)
    moreover have "before a n u (l\<lparr>scan_at := None\<rparr>) w1"
      by (rule before_fields [OF that(1)]) (simp_all add: calm_def)
    ultimately show ?thesis by (simp add: scan_def wlp_also_do wlp_basic pace_try_connect)
  qed
  have "wlp ((if due (scan_at l) t then scan E else if due (restore_at l) t then restore E
      else if due (settle_at l) t then settle E else if pending l \<noteq> [] \<or> conn l = None then ret ()
      else read_device E (read_timeout l t)) l w1) (paces a n u) (after a n u)"
    if t: "e_now E w = (t, w1)" for t w1
  proof -
    have b: "before a n u l w1" by (rule before_now [OF assms(1) t])
    have "at_ns t \<le> clock w1"
      using now_clock [OF _ t] before_within [OF assms(1)] by (simp add: within_def)
    then show ?thesis
      using scan [OF b] pace_restore [OF b] pace_settle [OF b] pace_read_device [OF b] before_after [OF b]
      by (simp add: wlp_basic)
  qed
  then show ?thesis unfolding idle_turn_def by (simp add: wlp_bind wlp_now wlp_basic)
qed

text \<open>Requests write nothing back.\<close>

lemma before_device:
  assumes "stays W V R m" "before a n u l w" "\<And>r l' w'. before a n u l' w' \<Longrightarrow> Q r l' w'"
  shows "wlp (on_device m l w) Q F"
proof (rule wlp_calm_before [OF _ assms(2,3)])
  show "wlp (on_device m l w) (\<lambda>_ l' w'. calm l' l \<and> within W V R w (conn l') w') (\<lambda>_ _. False)"
    by (rule wlp_mono [OF calm_device [OF assms(1) within_here [OF before_within [OF assms(2)]]]]) auto
qed

lemma before_restore_later:
  assumes "before a n u l w"
  shows "wlp (restore_later E RESTORE_INTERVAL l w) (\<lambda>_ l w. before a n u l w) F"
proof -
  have "before a n u (l\<lparr>restore_at := Some v\<rparr>) w'"
    if t: "e_now E w = (t, w')" and v: "instant_add t RESTORE_INTERVAL = Some v" for t w' v
  proof -
    have b: "before a n u l w'" by (rule before_now [OF assms t])
    have "past a (clock w)" "clock w \<le> at_ns t"
      using assms now_clock [OF _ t] by (auto simp: before_def within_def)
    moreover have "v = Instant (at_ns t + int RESTORE_INTERVAL)"
      using v by (simp add: instant_add_def split: if_splits)
    ultimately have "apart a v" using apart_later by simp
    then show ?thesis using b by (simp add: before_def waits_def)
  qed
  then show ?thesis by (auto simp: restore_later_def wlp_rules)
qed

lemma before_set_config:
  assumes "before a n u l w" "\<And>l'. before a n u l' w \<Longrightarrow> Q () l' w"
  shows "wlp (set_config c l w) Q F"
proof (rule wlp_quiet [OF quiet_set_config])
  fix x l'
  assume n: "no_news l' = no_news l"
  have "before a n u l' w"
    by (rule before_fields [OF assms(1) calm_quiet [OF n]]) (simp add: no_news_fields [OF n])
  then show "Q x l' w" using assms(2) by simp
qed

lemma before_wrote: "before a n u l w \<Longrightarrow> wlp (wrote E found new l w) (\<lambda>_ l w. before a n u l w) F"
  by (rule wlp_calm_before [OF calm_wrote]) (auto dest: before_within within_here)

lemma before_target [simp]: "before a n u (l\<lparr>target := x\<rparr>) w = before a n u l w"
  by (simp add: before_def)

lemma before_no_restore: "before a n u l w \<Longrightarrow> before a n u (l\<lparr>restore_at := None\<rparr>) w"
  by (erule before_fields) (simp_all add: calm_def)

lemma before_write_target:
  assumes "before a n u l w"
  shows "wlp (write_target E new previous l w) (\<lambda>_ l w. before a n u l w) F"
  unfolding write_target_def wlp_also_do wlp_bind wlp_basic
proof (rule before_device [OF stays_get_pin_config before_no_restore [OF assms]])
  fix r :: "pin_config_report result" and l1 w1
  assume l1: "before a n u l1 w1"
  show "wlp ((case r of Inl e \<Rightarrow> ret (Inl e) | Inr report \<Rightarrow> also_do (set_config (pcr_config report))
      (if pcr_config report = new then ret (Inr ()) else bind (on_device (set_pin_config E new)) (\<lambda>r. case r of
       Inl e \<Rightarrow> also_do (if is_rejected e then change (\<lambda>l. l\<lparr>target := previous\<rparr>)
           else if is_conflict e then restore_later E RESTORE_INTERVAL else ret ()) (ret (Inl e))
     | Inr _ \<Rightarrow> also_do (wrote E (pcr_config report) new) (ret (Inr ()))))) l1 w1) (\<lambda>_ l w. before a n u l w) F"
    using l1
    by (auto simp: wlp_basic wlp_also_do wlp_bind split: sum.split intro!: before_set_config before_device
        stays_set_pin_config before_restore_later before_wrote)
qed

lemma before_run_requests:
  "before a n u l w \<Longrightarrow> wlp (run_requests E rs l w) (\<lambda>_ l w. before a n u l w) F"
proof (induction rs arbitrary: l w)
  case (Cons q rs)
  obtain k r where q: "q = (k, r)" by force
  have "wlp (run_request E r l w) (\<lambda>_ l w. before a n u l w) F"
    using Cons.prems
    by (cases r) (auto simp: run_request_def set_target_def wlp_bind wlp_basic wlp_also_do
        split: option.split prod.split intro!: before_write_target before_device stays_set_outputs)
  then show ?case
    unfolding q run_requests.simps wlp_bind wlp_basic by (rule wlp_mono) (simp_all add: Cons.IH)
qed (simp add: wlp_basic)

lemma pace_turn_body:
  assumes "before a n u l w" "timed l"
  shows "wlp (turn_body E rs l w) (paces a n u) (after a n u)"
  unfolding turn_body_def
  using pace_idle_turn [OF assms] wlp_mono [OF before_run_requests [OF assms(1), of rs "after a n u"]]
    before_after
  by (auto simp: wlp_also_do wlp_basic)

end

section \<open>The system\<close>

text \<open>From one state of the thread to the next at most one write back, a second after the last.\<close>

definition spaced :: "watch_loop \<Rightarrow> watch_loop \<Rightarrow> bool" where
  "spaced l l' \<longleftrightarrow> last_restore l' = last_restore l \<and> restore_count l' = restore_count l \<or>
     (\<exists>b. last_restore l' = Some b \<and> apart (last_restore l) b \<and>
       (restore_count l' = restore_count l \<or> restore_count l' = restore_count l + 1))"

lemma spaced_refl [simp]: "spaced l l"
  by (simp add: spaced_def)

lemma end_thread_loop: "last_restore (sys_loop (end_thread E err sh l w s)) = last_restore l \<and>
    restore_count (sys_loop (end_thread E err sh l w s)) = restore_count l"
  by (simp add: end_thread_def finish_def Let_def split: prod.split)

context paced
begin

definition sys_paced :: "'w system \<Rightarrow> bool" where
  "sys_paced s \<longleftrightarrow> (sys_thread s = Running \<longrightarrow> waits (last_restore (sys_loop s)) (restore_at (sys_loop s)) \<and>
     past (last_restore (sys_loop s)) (clock (sys_world s)))"

lemma turn_paced:
  assumes "sys_steady W V s" "sys_paced s" "sys_thread s = Running"
  shows "sys_paced (turn E s) \<and> spaced (sys_loop s) (sys_loop (turn E s))"
proof -
  obtain pend queue where d: "deliver (pending (sys_loop s)) (out (sys_shared s)) = (pend, queue)" by force
  let ?l = "(sys_loop s)\<lparr>pending := pend\<rparr>"
  let ?a = "last_restore (sys_loop s)" and ?n = "restore_count (sys_loop s)"
  have l: "before ?a ?n (sys_world s) ?l (sys_world s)" "timed ?l"
    using assms R_refl by (simp_all add: before_def sys_paced_def sys_steady_def timed_def within_def)
  note body = pace_turn_body [OF l, of "requests (sys_shared s)"]
  have after: "spaced (sys_loop s) l'" if "after ?a ?n (sys_world s) l' w'" for l' w'
    using that by (auto simp: after_def spaced_def)
  show ?thesis
  proof (cases "stopping (sys_shared s)")
    case True
    then show ?thesis
      by (simp add: turn_def d Let_def sys_paced_def spaced_def end_thread_loop)
  next
    case False
    show ?thesis
    proof (cases "turn_body E (requests (sys_shared s)) ?l (sys_world s)")
      case (Ret x l' w')
      then have "after ?a ?n (sys_world s) l' w'" using body by simp
      then show ?thesis
        using after False Ret by (auto simp: turn_def d Let_def sys_paced_def after_def)
    next
      case (Fatal e l' w')
      then have "spaced (sys_loop s) l'" using body after by simp
      then show ?thesis
        using False Fatal by (simp add: turn_def d Let_def sys_paced_def spaced_def end_thread_loop)
    qed (use False in \<open>simp_all add: turn_def d Let_def sys_paced_def spaced_def\<close>)
  qed
qed

lemma step_paced:
  assumes "sys_step E outside s s'" "sys_steady W V s" "sys_paced s" "\<And>w w'. W w \<Longrightarrow> outside w w' \<Longrightarrow> R w w'"
  shows "sys_paced s' \<and> spaced (sys_loop s) (sys_loop s')"
  using assms(1)
proof (cases rule: sys_step.cases)
  case thread_turn
  then show ?thesis using turn_paced assms(2,3) by simp
next
  case (world_moves w)
  then have "clock (sys_world s) \<le> clock w"
    using assms(2,4) by (auto simp: sys_steady_def intro: clock_R)
  then show ?thesis
    using assms(3) world_moves(1) past_mono by (auto simp: sys_paced_def)
qed (use assms(3) in \<open>simp_all add: sys_paced_def\<close>)

lemma runs_paced:
  assumes "(sys_step E outside)\<^sup>*\<^sup>* (start_system opt t0 w0) s" "W w0" "\<And>w w'. W w \<Longrightarrow> outside w w' \<Longrightarrow> R w w'"
  shows "sys_paced s"
  using assms(1)
proof (induction rule: rtranclp_induct)
  case base
  then show ?case
    by (simp add: sys_paced_def start_system_def initial_loop_def waits_def past_def)
next
  case (step s s')
  have "sys_steady W V s" by (rule runs_steady [OF step(1) assms(2,3)])
  then show ?case using step_paced [OF step(2) _ step(3) assms(3)] by simp
qed

lemma runs_spaced:
  assumes "(sys_step E outside)\<^sup>*\<^sup>* (start_system opt t0 w0) s" "W w0" "\<And>w w'. W w \<Longrightarrow> outside w w' \<Longrightarrow> R w w'"
    and "sys_step E outside s s'"
  shows "spaced (sys_loop s) (sys_loop s')"
  using step_paced [OF assms(4) runs_steady [OF assms(1-3)] runs_paced [OF assms(1-3)] assms(3)] by simp

end

end
