(* ===== verification/Watch_World.thy ===== *)
theory Watch_World
  imports Watch_Pace Watch_Theorems
begin

text \<open>
  The watcher on the simulated boards: \<open>fake_env\<close> satisfies the contract \<open>frame\<close>, with the
  invariant of the world as validity, so the boards stay well-formed under every interleaving
  of the thread, the application and a test. For every environment, the timers of the thread are
  in step with its connection.
\<close>

section \<open>The simulated boards keep the contract\<close>

definition later :: "fake_world \<Rightarrow> fake_world \<Rightarrow> bool" where
  "later w w' \<longleftrightarrow> (world_ok w \<longrightarrow> world_ok w') \<and> length (fw_handles w) \<le> length (fw_handles w') \<and>
     fw_time w \<le> fw_time w'"

lemma set_board_fields [simp]:
  "fw_time (set_board b s hs w) = fw_time w" "fw_handles (set_board b s hs w) = hs"
  by (simp_all add: set_board_def)

lemma on_board_time: "on_board b f w = Some w' \<Longrightarrow> fw_time w' = fw_time w"
  by (auto simp: on_board_def split: option.splits prod.splits)

lemma later_safe:
  assumes "safe_op f" "world_ok w" "b < length (fw_boards w)" "on_board b f w = Some w'"
  shows "later w w'"
  using safe_op_world [OF assms(1-3)] assms(4) on_board_time [OF assms(4)] by (auto simp: later_def)

lemma later_action:
  assumes "test_action w w'" "world_ok w"
  shows "later w w'"
proof -
  have "length (fw_handles w) \<le> length (fw_handles w') \<and> fw_time w \<le> fw_time w'"
    using assms
  proof cases
    case (test_write b c r s hs)
    then obtain payload where "write_config payload (state_of b w) (fw_handles w) = Some (s, hs)"
      using write_pin_config_ok by blast
    then have "on_board b (write_config payload) w = Some w'" using test_write(1) by (simp add: on_board_def)
    then show ?thesis using later_safe [OF safe_write_config assms(2) test_write(2)] by (simp add: later_def)
  next
    case (test_input b gpio high)
    then show ?thesis using later_safe [OF safe_set_input assms(2)] by (simp add: later_def)
  next
    case (test_lose b gpio high)
    then show ?thesis using later_safe [OF safe_lose_input assms(2)] by (simp add: later_def)
  next
    case (test_periodic b)
    then show ?thesis using later_safe [OF safe_periodic assms(2)] by (simp add: later_def)
  next
    case (test_suspend b)
    then show ?thesis using later_safe [OF safe_suspend assms(2)] by (simp add: later_def)
  qed (simp_all add: make_board_def plug_def unplug_def unplug_board_def reenumerate_def fail_handles_def Let_def
      split: prod.split)
  then show ?thesis using test_action_ok [OF assms(1)] by (simp add: later_def)
qed

lemma later_test:
  assumes "test_step w w'" "world_ok w"
  shows "later w w'"
  using assms(1)
proof cases
  case (test_skip b n)
  then show ?thesis using test_step_ok [OF assms(1)] by (simp add: later_def)
qed (use later_action assms(2) in blast)

interpretation fake_frame: frame fake_env world_ok "\<lambda>h w. h < length (fw_handles w)" later
proof
  show "later w w" for w by (simp add: later_def)
  show "later u w" if "later u v" "later v w" for u v w using that by (auto simp: later_def)
  show "world_ok w'" if "world_ok w" "later w w'" for w w' using that by (simp add: later_def)
  show "h < length (fw_handles w')" if "world_ok w" "h < length (fw_handles w)" "later w w'" for w h w'
    using that by (simp add: later_def)
  show "later w w'" if "world_ok w" "e_devices fake_env w = (entries, w')" for w entries w'
    using that by (simp add: fake_env_def bus_devices_def later_def)
  show "later w w' \<and> (\<forall>h. opened = Inr h \<longrightarrow> h < length (fw_handles w'))"
    if "world_ok w" "e_open fake_env entry w = (opened, w')" for w entry opened w'
  proof -
    have o: "bus_open entry w = (opened, w')" using that(2) by (simp add: fake_env_def)
    then have "length (fw_handles w) \<le> length (fw_handles w') \<and> fw_time w' = fw_time w"
      by (auto simp: bus_open_def open_board_def split: option.splits prod.splits)
    then show ?thesis using world_ok_open [OF that(1) o] by (auto simp: later_def)
  qed
  show "later w (e_close fake_env h w)" if "world_ok w" "h < length (fw_handles w)" for w h
    using world_ok_drop [OF that] by (simp add: fake_env_def later_def handle_drop_def Let_def)
  show "later w w'" if "world_ok w" "h < length (fw_handles w)" "e_read fake_env h buf timeout w = Some (n, data, w')"
    for w h buf timeout n data w'
  proof -
    have r: "handle_read h buf timeout w = Returns (n, data, w')"
      using that(3) by (simp add: fake_env_def split: call.splits)
    then have "fw_time w \<le> fw_time w'"
      by (auto simp: handle_read_def Let_def split: option.splits list.splits if_splits)
    then show ?thesis using handle_read_ok [OF that(1,2) r] by (simp add: later_def)
  qed
  show "later w w'" if "world_ok w" "h < length (fw_handles w)" "e_write fake_env h report w = (n, w')"
    for w h report n w'
  proof -
    note ok = that(1,2) and n = that(3)
    obtain r w1 where r: "handle_write h report w = Some (r, w1)" "world_ok w1"
      "length (fw_handles w1) = length (fw_handles w)"
      using handle_write_ok [OF ok] by blast
    then have "fw_time w1 = fw_time w"
      by (auto simp: handle_write_def split: sum.splits if_splits dest: on_board_time)
    then show ?thesis using r n by (simp add: fake_env_def or_stuck_def later_def)
  qed
  show "later w w'" if "world_ok w" "h < length (fw_handles w)" "e_send_feature fake_env h report w = (n, w')"
    for w h report n w'
  proof -
    note ok = that(1,2) and n = that(3)
    obtain r w1 where r: "handle_send_feature h report w = Some (r, w1)" "world_ok w1"
      "length (fw_handles w1) = length (fw_handles w)"
      using handle_send_feature_ok [OF ok] by blast
    then have "fw_time w1 = fw_time w"
      by (auto simp: handle_send_feature_def split: sum.splits if_splits dest: on_board_time)
    then show ?thesis using r n by (simp add: fake_env_def or_stuck_def later_def)
  qed
  show "later w w'" if "e_get_feature fake_env h buf w = (n, data, w')" for w h buf n data w'
    using that by (auto simp: fake_env_def or_stuck_def handle_get_feature_def later_def reply_bytes_def Let_def
        split: sum.splits list.splits if_splits)
  show "later w w'" if "e_get_input fake_env h buf w = (n, data, w')" for w h buf n data w'
    using that by (auto simp: fake_env_def or_stuck_def handle_get_input_def later_def reply_bytes_def Let_def
        split: sum.splits if_splits)
qed (auto simp: fake_env_def later_def)

text \<open>Their clock never runs backwards.\<close>

definition fake_clock :: "fake_world \<Rightarrow> int" where
  "fake_clock w = at_ns (fake_now w)"

interpretation fake_pace: paced fake_env world_ok "\<lambda>h w. h < length (fw_handles w)" later fake_clock
proof
  show "fake_clock w \<le> fake_clock w'" if "later w w'" for w w'
    using that by (auto simp: later_def fake_clock_def fake_now_def)
  show "fake_clock w \<le> at_ns t \<and> at_ns t \<le> fake_clock w'" if "e_now fake_env w = (t, w')" for w t w'
    using that by (auto simp: fake_env_def fake_clock_def)
qed

section \<open>Properties\<close>

text \<open>C11: Whatever the watcher, the application and a test do on the simulated boards, in any order, the
  boards and handles keep their invariant, and a running thread holds a handle that exists.\<close>

theorem watched_world_ok:
  assumes "(sys_step fake_env test_step)\<^sup>*\<^sup>* (start_system opt t0 w0) s" "world_ok w0"
  shows "world_ok (sys_world s) \<and> (sys_thread s = Running \<longrightarrow>
    pred_option (\<lambda>c. dev_handle (c_device c) < length (fw_handles (sys_world s))) (conn (sys_loop s)))"
  using fake_frame.runs_steady [OF assms] later_test by (auto simp: sys_steady_def)

theorem watched_world_ok_witness: "world_ok (sys_world (turn fake_env pico_start))"
proof -
  have "sys_step fake_env test_step pico_start (turn fake_env pico_start)"
    by (rule thread_turn) (simp add: pico_start_def start_system_def)
  then show ?thesis
    using watched_world_ok [of any_board "Instant 0" pico_world "turn fake_env pico_start"] fake_reachable_ok [OF pico_reachable]
    by (simp add: pico_start_def r_into_rtranclp)
qed

text \<open>C9: The thread never stops trying. While it runs without a device a scan is scheduled; while it
  has one none is; it waits for the report of its own write exactly as long as the timer that
  ends the wait is set; and a restore is only scheduled for a device that is there.\<close>

theorem timers_in_step:
  assumes "reachable E outside opt t0 s" "sys_thread s = Running"
  shows "case conn (sys_loop s) of
      None \<Rightarrow> scan_at (sys_loop s) \<noteq> None \<and> restore_at (sys_loop s) = None \<and> settle_at (sys_loop s) = None
    | Some c \<Rightarrow> scan_at (sys_loop s) = None \<and> (awaiting_config c \<longleftrightarrow> settle_at (sys_loop s) \<noteq> None)"
proof -
  obtain w0 where "(sys_step E outside)\<^sup>*\<^sup>* (start_system opt t0 w0) s"
    using reachable_runs [OF assms(1)] by blast
  then have "timed (sys_loop s)"
    using frame.runs_steady [OF frame_any] assms(2) by (fastforce simp: sys_steady_def)
  then show ?thesis by (cases "conn (sys_loop s)") (simp_all add: timed_def)
qed

theorem timers_in_step_witness: "scan_at (sys_loop pico_start) \<noteq> None"
proof -
  have "reachable fake_env test_step any_board (Instant 0) pico_start" "sys_thread pico_start = Running"
    unfolding pico_start_def by (rule reachable.start) (simp add: start_system_def)
  from timers_in_step [OF this] show ?thesis
    by (simp add: pico_start_def start_system_def initial_loop_def)
qed

text \<open>C10: The target is written back at most once a second: from one step of the system to the next the
  counter of restores grows by at most one, and if it grows, or a restore is only tried, that
  is at least a second after the last try, as the clock of the host counts.\<close>

theorem restores_apart:
  assumes "paced E W V R clock" "W w0" "\<And>w w'. W w \<Longrightarrow> outside w w' \<Longrightarrow> R w w'"
    and "(sys_step E outside)\<^sup>*\<^sup>* (start_system opt t0 w0) s" "sys_step E outside s s'"
  shows "last_restore (sys_loop s') = last_restore (sys_loop s) \<and>
      restore_count (sys_loop s') = restore_count (sys_loop s) \<or>
    (\<exists>b. last_restore (sys_loop s') = Some b \<and>
      (case last_restore (sys_loop s) of None \<Rightarrow> True | Some a \<Rightarrow> at_ns a + 1000000000 \<le> at_ns b) \<and>
      (restore_count (sys_loop s') = restore_count (sys_loop s) \<or>
       restore_count (sys_loop s') = restore_count (sys_loop s) + 1))"
proof -
  have "int RESTORE_INTERVAL = 1000000000" by (simp add: RESTORE_INTERVAL_def from_secs_def)
  with paced.runs_spaced [OF assms(1,4,2,3,5)] show ?thesis by (simp only: spaced_def apart_def)
qed

theorem restores_apart_witness:
  "restore_count (sys_loop (turn fake_env pico_start)) \<in> {0, 1}"
proof -
  have "sys_step fake_env test_step pico_start (turn fake_env pico_start)"
    by (rule thread_turn) (simp add: pico_start_def start_system_def)
  then show ?thesis
    using restores_apart [OF fake_pace.paced_axioms fake_reachable_ok [OF pico_reachable],
        of test_step any_board "Instant 0" pico_start "turn fake_env pico_start"] later_test
    by (auto simp: pico_start_def start_system_def initial_loop_def)
qed

end
