(* ===== verification/Linux_Watch.thy ===== *)
theory Linux_Watch
  imports Find_Theorems Watch_World
begin

text \<open>
  The watcher on Linux: \<open>SystemBus\<close> with hidraw nodes satisfies the contract \<open>host\<close> when the
  kernel reads no more than it is asked for and the clocks are in range, and the contract
  \<open>paced\<close> when the clock never runs backwards. What holds of the watcher under these contracts
  holds there.
\<close>

section \<open>The kernel\<close>

text \<open>\<open>read\<close> returns at most the number of bytes asked for, and the clocks are far from their limits.\<close>

definition linux_sane :: "'w linux \<Rightarrow> bool" where
  "linux_sane X \<longleftrightarrow>
     (\<forall>h n w r data w'. k_read (lx_kernel X) h n w = (Inr r, data, w') \<longrightarrow> r \<le> n) \<and>
     (\<forall>w t w'. lx_now X w = (t, w') \<longrightarrow> 0 \<le> at_ns t \<and> at_ns t \<le> horizon) \<and>
     (\<forall>w t w'. lx_wall X w = (t, w') \<longrightarrow> 0 \<le> t \<and> t \<le> horizon)"

lemma linux_host:
  assumes "linux_sane X"
  shows "host (system_bus X)"
proof
  show "0 \<le> at_ns t \<and> at_ns t \<le> horizon" if "e_now (system_bus X) w = (t, w')" for w t w'
  proof -
    have "lx_now X w = (t, w')" using that by (simp add: system_bus_def Let_def)
    then show ?thesis using assms unfolding linux_sane_def by blast
  qed
  show "0 \<le> u \<and> u \<le> horizon" if "e_wall (system_bus X) w = (u, w')" for w u w'
  proof -
    have "lx_wall X w = (u, w')" using that by (simp add: system_bus_def Let_def)
    then show ?thesis using assms unfolding linux_sane_def by blast
  qed
  show "n \<le> length buf" if "e_read (system_bus X) h buf d w = Some (Inr n, data, w')" for h buf d w n data w'
  proof -
    have "n = 0 \<or> (\<exists>w1. k_read (lx_kernel X) h (length buf) w1 = (Inr n, data, w'))"
      using that by (auto simp: system_bus_def Let_def hidraw_read_def split: option.splits if_splits)
    then show ?thesis using assms unfolding linux_sane_def by blast
  qed
qed

text \<open>A clock that the kernel's calls never set back, and that \<open>Instant::now\<close> reads.\<close>

definition linux_clock :: "'w linux \<Rightarrow> ('w \<Rightarrow> int) \<Rightarrow> bool" where
  "linux_clock X clock \<longleftrightarrow> (let K = lx_kernel X in
     (\<forall>path w r w'. k_open K path w = (r, w') \<longrightarrow> clock w \<le> clock w') \<and>
     (\<forall>h w. clock w \<le> clock (k_close K h w)) \<and>
     (\<forall>h ms w r w'. k_poll K h ms w = Some (r, w') \<longrightarrow> clock w \<le> clock w') \<and>
     (\<forall>h n w r data w'. k_read K h n w = (r, data, w') \<longrightarrow> clock w \<le> clock w') \<and>
     (\<forall>h report w r w'. k_write K h report w = (r, w') \<longrightarrow> clock w \<le> clock w') \<and>
     (\<forall>h req buf w r data w'. k_ioctl K h req buf w = (r, data, w') \<longrightarrow> clock w \<le> clock w') \<and>
     (\<forall>w t w'. lx_now X w = (t, w') \<longrightarrow> clock w \<le> at_ns t \<and> at_ns t \<le> clock w') \<and>
     (\<forall>w t w'. lx_wall X w = (t, w') \<longrightarrow> clock w \<le> clock w'))"

lemma linux_ioctl_clock:
  assumes "linux_clock X clock" "hidraw_ioctl (lx_kernel X) h req buf w = (r, data, w')"
  shows "clock w \<le> clock w'"
  using assms by (auto simp: linux_clock_def hidraw_ioctl_def Let_def split: prod.splits)

lemma linux_read_clock:
  assumes "linux_clock X clock" "hidraw_read (lx_kernel X) h buf timeout w = Some (r, data, w')"
  shows "clock w \<le> clock w'"
proof -
  obtain ready w1 where p: "k_poll (lx_kernel X) h (poll_millis timeout) w = Some (ready, w1)"
    using assms(2) by (auto simp: hidraw_read_def split: option.splits)
  then have "clock w \<le> clock w1" using assms(1) by (simp add: linux_clock_def Let_def)
  moreover have "clock w1 \<le> clock w'"
    using assms p by (auto simp: hidraw_read_def linux_clock_def Let_def split: if_splits)
  ultimately show ?thesis by simp
qed

lemma linux_paced:
  assumes "linux_clock X clock"
  shows "paced (system_bus X) (\<lambda>_. True) (\<lambda>_ _. True) (\<lambda>w w'. clock w \<le> clock w') clock"
proof unfold_locales
  note c = assms [unfolded linux_clock_def Let_def]
  show "clock w \<le> clock w' \<and> (\<forall>h. opened = Inr h \<longrightarrow> True)" if "e_open (system_bus X) entry w = (opened, w')"
    for entry w opened w'
    using c that by (auto simp: system_bus_def open_transport_def Let_def split: prod.splits)
  show "clock w \<le> clock w'" if "e_read (system_bus X) h buf timeout w = Some (n, data, w')" for w h buf timeout n data w'
    using linux_read_clock [OF assms] that by (simp add: system_bus_def Let_def)
  show "clock w \<le> clock w'" if "e_get_feature (system_bus X) h buf w = (n, data, w')" for w h buf n data w'
    using linux_ioctl_clock [OF assms] that by (simp add: system_bus_def hidraw_get_feature_def Let_def)
  show "clock w \<le> clock w'" if "e_send_feature (system_bus X) h report w = (n, w')" for w h report n w'
    using linux_ioctl_clock [OF assms] that
    by (auto simp: system_bus_def hidraw_send_feature_def Let_def split: prod.splits)
  show "clock w \<le> clock w'" if "e_get_input (system_bus X) h buf w = (n, data, w')" for w h buf n data w'
    using linux_ioctl_clock [OF assms] that by (simp add: system_bus_def hidraw_get_input_def Let_def)
  show now: "clock w \<le> at_ns t \<and> at_ns t \<le> clock w'" if "e_now (system_bus X) w = (t, w')" for w t w'
  proof -
    have "lx_now X w = (t, w')" using that by (simp add: system_bus_def Let_def)
    then show ?thesis using c by blast
  qed
  show "clock w \<le> clock w'" if "e_now (system_bus X) w = (t, w')" for w t w'
    using now [OF that] by simp
qed (use assms in \<open>auto simp: system_bus_def linux_clock_def Let_def\<close>)

section \<open>Properties\<close>

text \<open>C12: On Linux the watcher never panics, tells only changes that are changes, and writes its target
  back at most once a second, as long as the kernel reads no more than it is asked for, the clocks
  and the scan interval are within \<open>horizon\<close>, far from the limits of \<open>Instant\<close>, and nothing sets
  the monotonic clock back.\<close>

theorem linux_watcher:
  assumes "linux_sane X" "linux_clock X clock" "good_options opt"
    and "\<And>w w'. outside w w' \<Longrightarrow> clock w \<le> clock w'"
    and "(sys_step (system_bus X) outside)\<^sup>*\<^sup>* (start_system opt t0 w0) s" "sys_step (system_bus X) outside s s'"
  shows "sys_thread s \<noteq> Crashed \<and> flips (sys_taken s @ out (sys_shared s)) \<and> spaced (sys_loop s) (sys_loop s')"
proof -
  have r: "reachable (system_bus X) outside opt t0 s"
    using assms(5) by (induction rule: rtranclp_induct) (auto intro: reachable.intros)
  have "sys_inv s" by (rule sys_reachable_inv [OF linux_host [OF assms(1)] r assms(3)])
  moreover have "spaced (sys_loop s) (sys_loop s')"
    by (rule paced.runs_spaced [OF linux_paced [OF assms(2)] assms(5) TrueI _ assms(6)]) (rule assms(4))
  ultimately show ?thesis by (simp add: sys_inv_def)
qed

text \<open>A host without devices, whose clock ticks once for each call that reads it.\<close>

definition empty_linux :: "nat linux" where
  "empty_linux = \<lparr>lx_vars = (\<lambda>_ _. None), lx_files = (\<lambda>_. no_files),
     lx_kernel = \<lparr>k_open = (\<lambda>_ w. (Inl gone, w)), k_close = (\<lambda>_ w. w), k_poll = (\<lambda>_ _ w. Some (0, w)),
       k_read = (\<lambda>_ _ w. (Inr 0, [], w)), k_write = (\<lambda>_ _ w. (Inl gone, w)),
       k_ioctl = (\<lambda>_ _ _ w. (- 1, [], w)), k_errno = (\<lambda>_. gone)\<rparr>,
     lx_now = (\<lambda>w. (Instant (int (min w 1000)), Suc w)), lx_wall = (\<lambda>w. (0, w)), lx_pid = 1\<rparr>"

theorem linux_watcher_witness:
  "sys_thread (turn (system_bus empty_linux) (start_system any_board (Instant 0) 0)) \<noteq> Crashed"
proof -
  let ?s = "start_system any_board (Instant 0) (0 :: nat)"
  have sane: "linux_sane empty_linux"
    by (simp add: linux_sane_def empty_linux_def horizon_def min_le_iff_disj)
  have clock: "linux_clock empty_linux (\<lambda>w. int (min w 1000))"
    by (auto simp: linux_clock_def empty_linux_def Let_def min_def)
  have step: "sys_step (system_bus empty_linux) (\<lambda>_ _. False) ?s (turn (system_bus empty_linux) ?s)"
    by (rule thread_turn) (simp add: start_system_def)
  have close: "sys_step E outside s (s\<lparr>sys_shared := request_close (sys_shared s)\<rparr>)" for E outside and s :: "nat system"
    by (rule app_close)
  show ?thesis
    using linux_watcher [OF sane clock any_board_good _ r_into_rtranclp [of "sys_step (system_bus empty_linux) (\<lambda>_ _. False)", OF step] close]
    by simp
qed

end
