(* ===== verification/Watch_Link.thy ===== *)
theory Watch_Link
  imports Watch_Timers
begin

text \<open>
  What a board promises to a program that watches it, without saying how it works. A \<open>link\<close> is
  what can be said of a board through one handle: its configuration and levels, the reports
  waiting in the queue of the handle, the number of the last one, and whether a change was
  lost that no report tells yet. \<open>moves\<close> is what may happen to it between two reads. \<open>synced\<close> is
  the relation the watcher keeps to it: what it knows, together with the reports that still
  wait, amounts to the state of the board.
\<close>

section \<open>Links\<close>

record link =
  lk_config :: pin_config
  lk_levels :: u32
  lk_seq :: u16
  lk_queue :: "status_report list"
  lk_behind :: bool

definition link_monitored :: "link \<Rightarrow> u8 \<Rightarrow> bool" where
  "link_monitored k g \<longleftrightarrow> unat g < 30 \<and> is_monitored (lk_config k ! unat g)"

definition link_level :: "link \<Rightarrow> u8 \<Rightarrow> bool" where
  "link_level k g \<longleftrightarrow> mask_bit (lk_levels k) g"

definition solicited :: "status_report \<Rightarrow> bool" where
  "solicited r \<longleftrightarrow> flags_contains (sr_reason r) HOST_REQUEST"

definition config_news :: "status_report \<Rightarrow> bool" where
  "config_news r \<longleftrightarrow> flags_contains (sr_reason r) CONFIG_CHANGED"

text \<open>A report that shows the pins as they are.\<close>

definition shows_pins :: "status_report \<Rightarrow> link \<Rightarrow> bool" where
  "shows_pins r k \<longleftrightarrow> (\<forall>g. unat g < 30 \<longrightarrow> (sr_is_monitored r g \<longleftrightarrow> link_monitored k g) \<and>
     (link_monitored k g \<longrightarrow> sr_level r g = link_level k g))"

text \<open>
  Between two reads reports are appended. Without one neither the configuration nor, unless a
  change is lost, a monitored level changes; the first one has the next number, and the last
  one shows the pins unless a change was lost after it.
\<close>

definition moves :: "status_report list \<Rightarrow> link \<Rightarrow> link \<Rightarrow> bool" where
  "moves rs k k' \<longleftrightarrow> lk_queue k' = lk_queue k @ rs \<and> (\<forall>r \<in> set rs. \<not> solicited r) \<and>
     (lk_config k' = lk_config k \<or> (\<exists>r \<in> set rs. config_news r)) \<and>
     (rs = [] \<longrightarrow> lk_seq k' = lk_seq k \<and> (\<not> lk_behind k' \<longrightarrow> \<not> lk_behind k \<and>
        (\<forall>g. link_monitored k g \<longrightarrow> link_level k' g = link_level k g))) \<and>
     (rs \<noteq> [] \<longrightarrow> (lk_seq k \<noteq> 0 \<longrightarrow> seq (hd rs) = lk_seq k + 1) \<and>
        (\<not> lk_behind k' \<longrightarrow> shows_pins (last rs) k'))"

lemma moves_refl: "moves [] k k"
  by (simp add: moves_def)

lemma shows_pins_cong:
  assumes "shows_pins r k" "lk_config k' = lk_config k" "\<And>g. link_monitored k g \<Longrightarrow> link_level k' g = link_level k g"
  shows "shows_pins r k'"
  using assms by (simp add: shows_pins_def link_monitored_def)

lemma moves_trans:
  assumes "moves rs k1 k2" "moves rs' k2 k3"
  shows "moves (rs @ rs') k1 k3"
proof (cases "rs' = []")
  case True
  have eq: "lk_queue k3 = lk_queue k2" "lk_config k3 = lk_config k2" "lk_seq k3 = lk_seq k2"
    using assms(2) True by (simp_all add: moves_def)
  have now: "\<not> lk_behind k2 \<and> (\<forall>g. link_monitored k2 g \<longrightarrow> link_level k3 g = link_level k2 g)"
    if "\<not> lk_behind k3" using assms(2) True that by (simp add: moves_def)
  have same: "link_monitored k2 g = link_monitored k1 g" if "rs = []" for g
    using assms(1) that by (simp add: moves_def link_monitored_def)
  have "shows_pins (last rs) k3" if "rs \<noteq> []" "\<not> lk_behind k3"
  proof (rule shows_pins_cong [of _ k2])
    show "shows_pins (last rs) k2" using assms(1) that now by (simp add: moves_def)
  qed (use eq now that in auto)
  then show ?thesis
    using assms(1) True eq now same by (auto simp: moves_def)
next
  case False
  then show ?thesis using assms by (cases "rs = []") (auto simp: moves_def)
qed

section \<open>Reports that are absorbed\<close>

text \<open>Whether a report is taken for newer than the last snapshot, and whether one of a queue is.\<close>

definition fresh_after :: "u16 option \<Rightarrow> status_report \<Rightarrow> bool" where
  "fresh_after snap r \<longleftrightarrow> \<not> fst (stale_after snap r)"

definition absorbs :: "u16 option \<Rightarrow> status_report list \<Rightarrow> bool" where
  "absorbs snap q \<longleftrightarrow> (\<exists>r \<in> set q. fresh_after snap r)"

lemma fresh_None [simp]: "fresh_after None r"
  by (simp add: fresh_after_def stale_after_def)

lemma absorbs_None [simp]: "absorbs None q \<longleftrightarrow> q \<noteq> []"
  by (cases q) (auto simp: absorbs_def)

lemma absorbs_Nil [simp]: "\<not> absorbs snap []"
  by (simp add: absorbs_def)

lemma absorbs_append [simp]: "absorbs snap (q @ q') \<longleftrightarrow> absorbs snap q \<or> absorbs snap q'"
  by (auto simp: absorbs_def)

lemma absorbs_Cons [simp]: "absorbs snap (r # q) \<longleftrightarrow> fresh_after snap r \<or> absorbs snap q"
  by (auto simp: absorbs_def)

lemma le_1_0x8000: "\<not> 0x8000 \<le> (1 :: u16)"
  by (simp add: word_le_nat_alt)

lemma next_fresh: "seq r = n + 1 \<Longrightarrow> fresh_after (Some n) r"
  using le_1_0x8000 by (simp add: fresh_after_def stale_after_def)

lemma stale_cases:
  assumes "\<not> solicited r" "stale_after snap r = (stale, snap')"
  shows "stale \<and> snap' = snap \<and> snap \<noteq> None \<and> \<not> fresh_after snap r \<or> \<not> stale \<and> snap' = None"
  using assms by (auto simp: stale_after_def fresh_after_def solicited_def split: option.splits if_splits)

section \<open>What the watcher knows of a board\<close>

definition polarity_of :: "watch_loop \<Rightarrow> u8 \<Rightarrow> bool option" where
  "polarity_of l g = active_low_in (map_of (active_low l)) (config l) g"

text \<open>Everything known is right, and every monitored pin is known.\<close>

definition known_right :: "watch_loop \<Rightarrow> link \<Rightarrow> bool" where
  "known_right l k \<longleftrightarrow> (\<forall>g on. map_of (known l) g = Some on \<longrightarrow>
     link_monitored k g \<and> (\<exists>low. polarity_of l g = Some low \<and> on = (link_level k g \<noteq> low)))"

definition all_known :: "watch_loop \<Rightarrow> link \<Rightarrow> bool" where
  "all_known l k \<longleftrightarrow> (\<forall>g. link_monitored k g \<longrightarrow> map_of (known l) g \<noteq> None)"

definition keys_ok :: "watch_loop \<Rightarrow> bool" where
  "keys_ok l \<longleftrightarrow> (\<forall>g. map_of (known l) g \<noteq> None \<longrightarrow> unat g < 30)"

text \<open>
  Unless a change was lost or the report of a write is awaited, either a waiting report will be
  absorbed or the known pins are right; they are complete once a report newer than the last
  snapshot was absorbed.
\<close>

definition view_ok :: "watch_loop \<Rightarrow> connection \<Rightarrow> link \<Rightarrow> bool" where
  "view_ok l c k \<longleftrightarrow> (\<not> lk_behind k \<and> \<not> awaiting_config c \<and> \<not> absorbs (snapshot_seq c) (lk_queue k) \<longrightarrow>
     known_right l k \<and> (snapshot_seq c = None \<longrightarrow> all_known l k))"

text \<open>
  The report in hand: none, one older than the last snapshot, or one to absorb. \<open>No_View\<close> is the
  time before a snapshot, in which nothing is said of the known pins.
\<close>

datatype hand = Empty_Hand | Stale_Report | Fresh_Report status_report | No_View

fun hand_ok :: "hand \<Rightarrow> watch_loop \<Rightarrow> connection \<Rightarrow> link \<Rightarrow> bool" where
  "hand_ok Empty_Hand l c k \<longleftrightarrow> view_ok l c k"
| "hand_ok Stale_Report l c k \<longleftrightarrow> view_ok l c k \<and> snapshot_seq c \<noteq> None"
| "hand_ok No_View l c k \<longleftrightarrow> True"
| "hand_ok (Fresh_Report r) l c k \<longleftrightarrow> \<not> (solicited r \<and> more_events r) \<and>
     (\<not> lk_behind k \<and> \<not> absorbs (snapshot_seq c) (lk_queue k) \<longrightarrow> shows_pins r k)"

definition queue_fine :: "link \<Rightarrow> bool" where
  "queue_fine k \<longleftrightarrow> (\<forall>r \<in> set (lk_queue k). \<not> solicited r) \<and>
     (lk_queue k \<noteq> [] \<and> \<not> lk_behind k \<longrightarrow> shows_pins (last (lk_queue k)) k)"

definition snapshot_fine :: "connection \<Rightarrow> link \<Rightarrow> bool" where
  "snapshot_fine c k \<longleftrightarrow> (\<forall>n. snapshot_seq c = Some n \<longrightarrow>
     n \<noteq> 0 \<and> (absorbs (Some n) (lk_queue k) \<or> n = lk_seq k))"

text \<open>The configuration is \<open>cfg\<close>, or a report that will tell otherwise waits.\<close>

definition config_or_news :: "pin_config \<Rightarrow> link \<Rightarrow> bool" where
  "config_or_news cfg k \<longleftrightarrow> lk_config k = cfg \<or> (\<exists>r \<in> set (lk_queue k). config_news r)"

text \<open>\<open>news\<close> tells that the report in hand says the configuration has changed.\<close>

definition synced :: "hand \<Rightarrow> bool \<Rightarrow> watch_loop \<Rightarrow> connection \<Rightarrow> link \<Rightarrow> bool" where
  "synced v news l c k \<longleftrightarrow> keys_ok l \<and> queue_fine k \<and> snapshot_fine c k \<and>
     (config_or_news (config l) k \<or> news \<and> v \<noteq> Empty_Hand) \<and> hand_ok v l c k"

text \<open>The relation looks at the known pins, the configuration and the polarities only.\<close>

lemma synced_cong:
  assumes "known l' = known l" "config l' = config l" "active_low l' = active_low l"
  shows "synced v news l' c k = synced v news l c k"
proof -
  have "polarity_of l' = polarity_of l" using assms by (simp add: polarity_of_def fun_eq_iff)
  then have "hand_ok v l' c k = hand_ok v l c k" "keys_ok l' = keys_ok l"
    using assms by (cases v; simp add: view_ok_def known_right_def all_known_def keys_ok_def)+
  then show ?thesis using assms by (simp add: synced_def)
qed

lemma synced_connection:
  assumes "snapshot_seq c' = snapshot_seq c" "awaiting_config c' = awaiting_config c"
  shows "synced v news l c' k = synced v news l c k"
proof -
  have "hand_ok v l c' k = hand_ok v l c k"
    using assms by (cases v) (simp_all add: view_ok_def)
  then show ?thesis using assms by (simp add: synced_def snapshot_fine_def)
qed

lemma synced_fields [simp]:
  "synced v news l (c\<lparr>c_device := x1\<rparr>) k = synced v news l c k"
  "synced v news l (c\<lparr>c_last_seq := x2\<rparr>) k = synced v news l c k"
  by (rule synced_connection; simp)+

text \<open>While the report of a write is awaited, nothing is said of the known pins.\<close>

lemma synced_await:
  assumes "synced v news l c k"
  shows "synced v news l (c\<lparr>awaiting_config := True\<rparr>) k"
proof -
  have "hand_ok v l (c\<lparr>awaiting_config := True\<rparr>) k"
    using assms by (cases v) (simp_all add: synced_def view_ok_def)
  then show ?thesis using assms by (simp add: synced_def snapshot_fine_def)
qed

lemma synced_idle:
  assumes "synced v False l c k" "awaiting_config c"
  shows "synced Empty_Hand False l c k"
  using assms by (simp add: synced_def view_ok_def)

lemma synced_done:
  assumes "synced Stale_Report False l c k"
  shows "synced Empty_Hand False l c k"
  using assms by (simp add: synced_def)

section \<open>The relation is kept\<close>

lemma config_or_news_moves: "config_or_news cfg k \<Longrightarrow> moves rs k k' \<Longrightarrow> config_or_news cfg k'"
  by (auto simp: config_or_news_def moves_def)

lemma queue_fine_moves:
  assumes "queue_fine k" "moves rs k k'"
  shows "queue_fine k'"
proof (cases "rs = []")
  case True
  have "shows_pins (last (lk_queue k)) k'" if "lk_queue k \<noteq> []" "\<not> lk_behind k'"
    by (rule shows_pins_cong [of _ k]) (use assms True that in \<open>auto simp: queue_fine_def moves_def\<close>)
  then show ?thesis using assms True by (simp add: queue_fine_def moves_def)
next
  case False
  then show ?thesis using assms by (auto simp: queue_fine_def moves_def)
qed

lemma moves_absorbed:
  assumes "snapshot_fine c k" "moves rs k k'" "rs \<noteq> []"
  shows "absorbs (snapshot_seq c) (lk_queue k')"
proof (cases "snapshot_seq c")
  case None
  then show ?thesis using assms by (simp add: moves_def)
next
  case (Some n)
  have q: "lk_queue k' = lk_queue k @ rs" using assms(2) by (simp add: moves_def)
  show ?thesis
  proof (cases "absorbs (Some n) (lk_queue k)")
    case False
    then have "n \<noteq> 0" "lk_seq k = n" using assms(1) Some by (auto simp: snapshot_fine_def)
    then have "seq (hd rs) = n + 1" using assms(2,3) by (simp add: moves_def)
    then have "fresh_after (Some n) (hd rs)" by (rule next_fresh)
    then have "absorbs (Some n) rs" using assms(3) unfolding absorbs_def by (intro bexI [of _ "hd rs"]) simp_all
    then show ?thesis by (simp add: Some q)
  qed (simp add: Some q)
qed

lemma snapshot_fine_moves:
  assumes "snapshot_fine c k" "moves rs k k'"
  shows "snapshot_fine c k'"
proof (cases "rs = []")
  case False
  from moves_absorbed [OF assms False] have "absorbs (Some n) (lk_queue k')" if "snapshot_seq c = Some n" for n
    using that by simp
  then show ?thesis using assms(1) by (auto simp: snapshot_fine_def)
qed (use assms in \<open>simp add: snapshot_fine_def moves_def\<close>)

lemma known_right_moves:
  assumes "known_right l k" "moves [] k k'" "\<not> lk_behind k'"
  shows "known_right l k' \<and> (all_known l k \<longrightarrow> all_known l k')"
proof -
  have "link_monitored k' g = link_monitored k g" for g
    using assms(2) by (simp add: moves_def link_monitored_def)
  then show ?thesis using assms by (auto simp: known_right_def all_known_def moves_def)
qed

lemma view_ok_moves:
  assumes "view_ok l c k" "snapshot_fine c k" "moves rs k k'"
  shows "view_ok l c k'"
proof (cases "rs = []")
  case True
  then show ?thesis
    using assms known_right_moves [of l k k'] by (auto simp: view_ok_def moves_def)
qed (use moves_absorbed [OF assms(2,3)] in \<open>simp add: view_ok_def\<close>)

lemma hand_ok_moves:
  assumes "hand_ok v l c k" "snapshot_fine c k" "moves rs k k'"
  shows "hand_ok v l c k'"
proof (cases v)
  case (Fresh_Report r)
  show ?thesis
  proof (cases "rs = []")
    case True
    have "shows_pins r k'" if "\<not> lk_behind k'" "\<not> absorbs (snapshot_seq c) (lk_queue k')"
      by (rule shows_pins_cong [of _ k]) (use assms Fresh_Report True that in \<open>auto simp: moves_def\<close>)
    then show ?thesis using assms(1) by (simp add: Fresh_Report)
  next
    case False
    then show ?thesis using moves_absorbed [OF assms(2,3)] assms(1) by (simp add: Fresh_Report)
  qed
qed (use assms view_ok_moves in auto)

lemma synced_moves: "synced v news l c k \<Longrightarrow> moves rs k k' \<Longrightarrow> synced v news l c k'"
  using queue_fine_moves snapshot_fine_moves hand_ok_moves config_or_news_moves
  unfolding synced_def by metis

text \<open>Taking the configuration the board has, as \<open>set_config\<close> does.\<close>

definition follows_config :: "pin_config \<Rightarrow> watch_loop \<Rightarrow> watch_loop \<Rightarrow> bool" where
  "follows_config new l l' \<longleftrightarrow> config l' = new \<and> active_low l' = active_low l \<and> conn l' = conn l \<and>
     (\<forall>g. map_of (known l) g \<noteq> None \<longrightarrow> unat g < length new \<and> unat g < length (config l)) \<and>
     (\<forall>g. map_of (known l') g = (if is_monitored (new ! unat g) \<and> mode (new ! unat g) = mode (config l ! unat g)
        then map_of (known l) g else None))"

lemma wlp_set_config_follows: "wlp (set_config new l w) (\<lambda>_ l' w'. follows_config new l l' \<and> w' = w) F"
proof -
  have "g \<in> set (bt_keys (known l))" if "map_of (known l) g \<noteq> None" for g
    using that by (auto simp: bt_keys_def map_of_eq_None_iff)
  then show ?thesis by (auto simp: set_config_def follows_config_def list_all_iff)
qed

lemma follows_polarity:
  assumes "follows_config new l l'" "map_of (known l') g = Some on"
  shows "map_of (known l) g = Some on \<and> polarity_of l' g = polarity_of l g"
proof -
  have g: "map_of (known l) g = Some on" "mode (new ! unat g) = mode (config l ! unat g)"
    using assms by (auto simp: follows_config_def split: if_splits)
  then have "unat g < length new" "unat g < length (config l)" "config l' = new" "active_low l' = active_low l"
    using assms(1) by (auto simp: follows_config_def)
  then show ?thesis
    using g by (simp add: polarity_of_def active_low_in_def config_at_def split: option.split)
qed

lemma follows_keys:
  assumes "follows_config new l l'" "keys_ok l"
  shows "keys_ok l'"
  unfolding keys_ok_def
proof (intro allI impI)
  fix g
  assume "map_of (known l') g \<noteq> None"
  then obtain on where "map_of (known l') g = Some on" by blast
  then have "map_of (known l) g = Some on" using follows_polarity [OF assms(1)] by blast
  then show "unat g < 30" using assms(2) by (simp add: keys_ok_def)
qed

lemma follows_view:
  assumes "follows_config new l l'" "view_ok l c k"
    and "snapshot_seq c = None \<Longrightarrow> config_or_news (config l) k \<and> config_or_news new k"
  shows "view_ok l' c k"
  unfolding view_ok_def
proof (intro impI conjI)
  assume now: "\<not> lk_behind k \<and> \<not> awaiting_config c \<and> \<not> absorbs (snapshot_seq c) (lk_queue k)"
  then have right: "known_right l k" and complete: "snapshot_seq c = None \<Longrightarrow> all_known l k"
    using assms(2) by (auto simp: view_ok_def)
  show "known_right l' k"
    unfolding known_right_def
  proof (intro allI impI)
    fix g on
    assume "map_of (known l') g = Some on"
    from follows_polarity [OF assms(1) this] right
    show "link_monitored k g \<and> (\<exists>low. polarity_of l' g = Some low \<and> on = (link_level k g \<noteq> low))"
      by (simp add: known_right_def)
  qed
  show "all_known l' k" if none: "snapshot_seq c = None"
  proof -
    have "lk_queue k = []" using now none by simp
    then have "config l = new" "lk_config k = new" using assms(3) [OF none] by (auto simp: config_or_news_def)
    then show ?thesis
      using assms(1) complete [OF none] by (simp add: all_known_def follows_config_def link_monitored_def)
  qed
qed

lemma synced_follows:
  assumes "synced v news l c k" "follows_config new l l'" "config_or_news new k"
  shows "synced v False l' c k"
proof -
  have "config l' = new" using assms(2) by (simp add: follows_config_def)
  moreover have "hand_ok v l' c k"
  proof (cases v)
    case (Fresh_Report r)
    then show ?thesis using assms(1) by (simp add: synced_def)
  next
    case No_View
    then show ?thesis by simp
  qed (use assms follows_view [OF assms(2), of c k] in \<open>auto simp: synced_def\<close>)
  ultimately show ?thesis
    using assms follows_keys [OF assms(2)] by (simp add: synced_def)
qed

text \<open>A link with one more report, which the watcher has taken but not yet looked at.\<close>

definition with_report :: "status_report \<Rightarrow> link \<Rightarrow> link" where
  "with_report r k = k\<lparr>lk_queue := r # lk_queue k\<rparr>"

lemma with_report_simps [simp]:
  "lk_config (with_report r k) = lk_config k" "lk_levels (with_report r k) = lk_levels k"
  "lk_seq (with_report r k) = lk_seq k" "lk_behind (with_report r k) = lk_behind k"
  "lk_queue (with_report r k) = r # lk_queue k" "link_monitored (with_report r k) = link_monitored k"
  "link_level (with_report r k) = link_level k" "shows_pins x (with_report r k) = shows_pins x k"
  by (simp_all add: with_report_def link_monitored_def link_level_def shows_pins_def fun_eq_iff)

lemma moves_with_report: "moves rs k k' \<Longrightarrow> moves rs (with_report r k) (with_report r k')"
  by (simp add: moves_def)

lemma known_with_report [simp]:
  "known_right l (with_report r k) = known_right l k" "all_known l (with_report r k) = all_known l k"
  by (simp_all add: known_right_def all_known_def)

text \<open>Looking at it: whether it is stale, and the snapshot number to keep.\<close>

lemma synced_take:
  assumes "synced Empty_Hand False l c (with_report r k)" "stale_after (snapshot_seq c) r = (stale, snap)"
    and "snapshot_seq c' = snap" "awaiting_config c' = awaiting_config c \<or> \<not> stale"
  shows "synced (if stale then Stale_Report else Fresh_Report r) (config_news r) l c' k"
proof -
  have q: "\<not> solicited r" "keys_ok l" "queue_fine (with_report r k)" "snapshot_fine c (with_report r k)"
    "config_or_news (config l) (with_report r k)" "view_ok l c (with_report r k)"
    using assms(1) by (simp_all add: synced_def queue_fine_def)
  have "queue_fine k" using q(3) by (auto simp: queue_fine_def)
  moreover have "config_or_news (config l) k \<or> config_news r" using q(5) by (auto simp: config_or_news_def)
  moreover have "snapshot_fine c' k \<and> hand_ok (if stale then Stale_Report else Fresh_Report r) l c' k"
    using stale_cases [OF q(1) assms(2)]
  proof
    assume s: "stale \<and> snap = snapshot_seq c \<and> snapshot_seq c \<noteq> None \<and> \<not> fresh_after (snapshot_seq c) r"
    then show ?thesis using q(4,6) assms(3,4) by (auto simp: snapshot_fine_def view_ok_def)
  next
    assume "\<not> stale \<and> snap = None"
    then show ?thesis using q(1,3) assms(3) by (auto simp: snapshot_fine_def queue_fine_def)
  qed
  ultimately show ?thesis using q(2) by (simp add: synced_def)
qed

text \<open>Absorbing a report that shows the pins makes the known ones right and complete.\<close>

definition learned_from :: "status_report \<Rightarrow> watch_loop \<Rightarrow> bool" where
  "learned_from r l \<longleftrightarrow> keys_ok l \<and>
     (\<forall>g. map_of (known l) g \<noteq> None \<longleftrightarrow> unat g < 30 \<and> sr_is_monitored r g) \<and>
     (\<forall>g on. map_of (known l) g = Some on \<longrightarrow> (\<exists>low. polarity_of l g = Some low \<and> on = (sr_level r g \<noteq> low)))"

lemma learned_view:
  assumes "learned_from r l" "hand_ok (Fresh_Report r) l' c k"
  shows "view_ok l c k"
  unfolding view_ok_def
proof (intro impI)
  assume now: "\<not> lk_behind k \<and> \<not> awaiting_config c \<and> \<not> absorbs (snapshot_seq c) (lk_queue k)"
  then have r: "shows_pins r k" using assms(2) by simp
  have "known_right l k"
    unfolding known_right_def
  proof (intro allI impI)
    fix g on
    assume g: "map_of (known l) g = Some on"
    then have "unat g < 30" "sr_is_monitored r g" using assms(1) by (auto simp: learned_from_def)
    then have "link_monitored k g" "sr_level r g = link_level k g" using r by (auto simp: shows_pins_def)
    moreover obtain low where "polarity_of l g = Some low" "on = (sr_level r g \<noteq> low)"
      using assms(1) g unfolding learned_from_def by blast
    ultimately show "link_monitored k g \<and> (\<exists>low. polarity_of l g = Some low \<and> on = (link_level k g \<noteq> low))"
      by simp
  qed
  moreover have "all_known l k"
    using assms(1) r by (simp add: all_known_def learned_from_def shows_pins_def link_monitored_def)
  ultimately show "known_right l k \<and> (snapshot_seq c = None \<longrightarrow> all_known l k)" by simp
qed

end
