(* ===== verification/Watch_Learn.thy ===== *)
theory Watch_Learn
  imports Watch_Link
begin

text \<open>
  What absorbing a status report leaves known: exactly the monitored pins of the report, each
  ON or OFF as its level and the polarity say. Unlike \<open>absorb_Ret\<close> this needs nothing of the
  environment, because it only speaks of a run that returns.
\<close>

section \<open>What the operations leave alone\<close>

lemma wlp_conj: "wlp r Q F \<Longrightarrow> wlp r Q' F' \<Longrightarrow>
    wlp r (\<lambda>x l w. Q x l w \<and> Q' x l w) (\<lambda>l w. F l w \<and> F' l w)"
  by (cases r) auto

definition kept :: "watch_loop \<Rightarrow> watch_loop \<Rightarrow> bool" where
  "kept l l' \<longleftrightarrow> config l' = config l \<and> active_low l' = active_low l \<and> conn l' = conn l \<and>
     restore_at l' = restore_at l"

lemma kept_refl [simp]: "kept l l"
  by (simp add: kept_def)

lemma kept_trans: "kept l1 l2 \<Longrightarrow> kept l2 l3 \<Longrightarrow> kept l1 l3"
  by (simp add: kept_def)

lemma kept_polarity: "kept l l' \<Longrightarrow> polarity_of l' = polarity_of l"
  by (simp add: kept_def polarity_of_def fun_eq_iff)

lemma keys_insert: "keys_ok l \<Longrightarrow> unat g < 30 \<Longrightarrow> keys_ok (l\<lparr>known := bt_insert g on (known l)\<rparr>)"
  by (auto simp: keys_ok_def)

section \<open>What absorbing a report learns\<close>

lemma wlp_event_time: "(\<And>x w'. Q x l w') \<Longrightarrow> wlp (event_time E start l w) Q F"
  by (auto simp: event_time_def wlp_rules split: option.split prod.split)

lemma absorb_event_kept:
  assumes "keys_ok l"
  shows "wlp (absorb_event E us e l w) (\<lambda>_ l' _. kept l l' \<and> keys_ok l') F"
proof (cases "map_of (known l) (ev_gpio e)")
  case None
  then show ?thesis using assms by (simp add: absorb_event_def wlp_rules)
next
  case (Some was)
  have "keys_ok (l1\<lparr>known := bt_insert (ev_gpio e) on (known l1)\<rparr>)" if "known l1 = known l" for l1 on
  proof -
    have "unat (ev_gpio e) < 30" using assms Some by (simp add: keys_ok_def)
    moreover have "keys_ok l1" using assms that by (simp add: keys_ok_def)
    ultimately show ?thesis by (rule keys_insert [rotated])
  qed
  then show ?thesis
    unfolding absorb_event_def active_low_of_def Let_def wlp_rules Some option.case
    by (auto simp: wlp_rules kept_def intro!: wlp_event_time)
qed

lemma absorb_events_kept:
  "keys_ok l \<Longrightarrow> wlp (absorb_events E us es l w) (\<lambda>_ l' _. kept l l' \<and> keys_ok l') F"
proof (induction es arbitrary: l w)
  case (Cons e es)
  show ?case
    unfolding absorb_events.simps wlp_also_do
  proof (rule wlp_mono [OF absorb_event_kept [OF Cons.prems]])
    fix l1 w1
    assume 1: "kept l l1 \<and> keys_ok l1"
    show "wlp (absorb_events E us es l1 w1) (\<lambda>_ l' _. kept l l' \<and> keys_ok l') F"
      by (rule wlp_mono [OF Cons.IH]) (use 1 kept_trans in auto)
  qed
qed (simp add: wlp_rules)

text \<open>A level of the report is known afterwards, and nothing else has changed.\<close>

definition level_known :: "status_report \<Rightarrow> u8 set \<Rightarrow> watch_loop \<Rightarrow> watch_loop \<Rightarrow> bool" where
  "level_known r gs l l' \<longleftrightarrow> kept l l' \<and> (\<forall>g.
     if g \<in> gs then \<exists>low. polarity_of l g = Some low \<and> map_of (known l') g = Some (sr_level r g \<noteq> low)
     else map_of (known l') g = map_of (known l) g)"

lemma level_knownD:
  assumes "level_known r gs l l'"
  shows "kept l l'" "g \<notin> gs \<Longrightarrow> map_of (known l') g = map_of (known l) g"
    "g \<in> gs \<Longrightarrow> \<exists>low. polarity_of l g = Some low \<and> map_of (known l') g = Some (sr_level r g \<noteq> low)"
proof -
  have g: "if g \<in> gs then \<exists>low. polarity_of l g = Some low \<and> map_of (known l') g = Some (sr_level r g \<noteq> low)
     else map_of (known l') g = map_of (known l) g" and k: "kept l l'"
    using assms unfolding level_known_def by blast+
  show "kept l l'" by (rule k)
  show "map_of (known l') g = map_of (known l) g" if "g \<notin> gs" using g unfolding if_not_P [OF that] .
  show "\<exists>low. polarity_of l g = Some low \<and> map_of (known l') g = Some (sr_level r g \<noteq> low)" if "g \<in> gs"
    using g unfolding if_P [OF that] .
qed

lemma absorb_level_known:
  "wlp (absorb_level r g learned l w) (\<lambda>_ l' _. level_known r {g} l l') F"
  by (auto simp: absorb_level_def active_low_of_def Let_def wlp_rules level_known_def kept_def polarity_of_def
      split: option.split)

lemma level_known_trans:
  assumes "level_known r gs l1 l2" "level_known r gs' l2 l3"
  shows "level_known r (gs \<union> gs') l1 l3"
proof -
  note l12 = level_knownD [OF assms(1)] and l23 = level_knownD [OF assms(2)]
  have p: "polarity_of l2 = polarity_of l1" using l12(1) by (rule kept_polarity)
  have "if g \<in> gs \<union> gs' then \<exists>low. polarity_of l1 g = Some low \<and> map_of (known l3) g = Some (sr_level r g \<noteq> low)
      else map_of (known l3) g = map_of (known l1) g" for g
  proof (cases "g \<in> gs \<union> gs'")
    case True
    have "\<exists>low. polarity_of l1 g = Some low \<and> map_of (known l3) g = Some (sr_level r g \<noteq> low)"
    proof (cases "g \<in> gs'")
      case in2: True
      show ?thesis using l23(3) [OF in2] unfolding p .
    next
      case False
      show ?thesis using l12(3) [of g] True False unfolding l23(2) [OF False] by blast
    qed
    then show ?thesis unfolding if_P [OF True] .
  next
    case False
    then show ?thesis using l12(2) l23(2) by simp
  qed
  then show ?thesis using kept_trans [OF l12(1) l23(1)] by (simp only: level_known_def) blast
qed

lemma absorb_levels_known:
  "wlp (absorb_levels r gs learned l w) (\<lambda>_ l' _. level_known r (set gs) l l') F"
proof (induction gs arbitrary: learned l w)
  case Nil
  then show ?case by (simp add: wlp_rules level_known_def)
next
  case (Cons g gs)
  show ?case
    unfolding absorb_levels.simps wlp_bind
  proof (rule wlp_mono [OF absorb_level_known])
    fix x l1 w1
    assume 1: "level_known r {g} l l1"
    show "wlp (absorb_levels r gs x l1 w1) (\<lambda>_ l' _. level_known r (set (g # gs)) l l') F"
      by (rule wlp_mono [OF Cons.IH]) (use level_known_trans [OF 1] in auto)
  qed
qed

text \<open>After a report was absorbed, what is known is what it shows.\<close>

lemma absorb_learns:
  assumes "keys_ok l"
  shows "wlp (absorb E r l w) (\<lambda>_ l' _. kept l l' \<and> learned_from r l') F"
proof -
  let ?gs = "mask_to_gpios (monitored r)"
  have gs: "g \<in> set ?gs \<longleftrightarrow> unat g < 30 \<and> sr_is_monitored r g" for g
    by (auto simp: set_mask_to_gpios sr_is_monitored_def)
  have final: "kept l l3 \<and> learned_from r l3"
    if 1: "kept l l1" "keys_ok l1" and 2: "level_known r (set ?gs) l1 l2"
      and 3: "kept l2 l3" "known l3 = bt_retain (sr_is_monitored r) (known l2)" for l1 l2 l3
  proof -
    have p: "polarity_of l3 = polarity_of l1" and k: "kept l l3"
      using 1 2 3 kept_polarity kept_trans unfolding level_known_def by metis+
    have v: "map_of (known l3) g = (if sr_is_monitored r g then map_of (known l2) g else None)" for g
      by (simp add: 3)
    have low: "\<exists>low. polarity_of l1 g = Some low \<and> map_of (known l2) g = Some (sr_level r g \<noteq> low)"
      if "g \<in> set ?gs" for g
      by (rule level_knownD(3) [OF 2 that])
    have other: "map_of (known l2) g = map_of (known l1) g" if "g \<notin> set ?gs" for g
      by (rule level_knownD(2) [OF 2 that])
    have dom: "map_of (known l3) g \<noteq> None \<longleftrightarrow> g \<in> set ?gs" for g
      using low [of g] other [of g] gs [of g] 1(2) unfolding v keys_ok_def by (cases "g \<in> set ?gs") auto
    have "\<exists>low. polarity_of l3 g = Some low \<and> on = (sr_level r g \<noteq> low)" if "map_of (known l3) g = Some on" for g on
    proof -
      have g: "g \<in> set ?gs" using dom [of g] that by blast
      then have "map_of (known l2) g = Some on" using that gs [of g] by (simp add: v)
      then show ?thesis using low [OF g] p by auto
    qed
    moreover have "keys_ok l3" using dom gs by (simp add: keys_ok_def)
    ultimately show ?thesis using k dom gs by (simp add: learned_from_def)
  qed
  show ?thesis
    unfolding absorb_def wlp_also_do
  proof (rule wlp_mono [OF absorb_events_kept [OF assms]])
    fix l1 w1
    assume 1: "kept l l1 \<and> keys_ok l1"
    show "wlp (bind (absorb_levels r ?gs []) (\<lambda>learned.
      also_do (change (\<lambda>l. l\<lparr>known := bt_retain (sr_is_monitored r) (known l)\<rparr>))
       (if learned \<noteq> [] then emit (InitialOnOff learned) else ret ())) l1 w1)
      (\<lambda>_ l' _. kept l l' \<and> learned_from r l') F"
      unfolding wlp_bind
    proof (rule wlp_mono [OF absorb_levels_known])
      fix x l2 w2
      assume 2: "level_known r (set ?gs) l1 l2"
      show "wlp (also_do (change (\<lambda>l. l\<lparr>known := bt_retain (sr_is_monitored r) (known l)\<rparr>))
         (if x \<noteq> [] then emit (InitialOnOff x) else ret ()) l2 w2) (\<lambda>_ l' _. kept l l' \<and> learned_from r l') F"
        using final [OF conjunct1 [OF 1] conjunct2 [OF 1] 2,
            of "l2\<lparr>known := bt_retain (sr_is_monitored r) (known l2), pending := p\<rparr>" for p]
          final [OF conjunct1 [OF 1] conjunct2 [OF 1] 2,
            of "l2\<lparr>known := bt_retain (sr_is_monitored r) (known l2)\<rparr>"]
        by (simp add: wlp_rules kept_def)
    qed
  qed
qed

end
