(* ===== verification/Watch_Mirror.thy ===== *)
theory Watch_Mirror
  imports Watch_Learn Device_Theorems
begin

text \<open>
  The watcher mirrors the board. The locale \<open>linked\<close> extends the contract \<open>port\<close> to boards of which
  a \<open>link\<close> can be observed: what they do between two reads is a move of it, a read takes the first
  report of the queue, and the two kinds of report the host asks for show the board as it is.
  Every operation of the thread keeps \<open>synced\<close>, whatever else happens in between.
\<close>

section \<open>The contract\<close>

text \<open>
  A link that cannot be observed is one that is gone, or whose queue is full, so that reports were
  dropped. In a calm world no queue is full, and what cannot be observed stays so.
\<close>

locale linked = port E W V R
  for E :: "'w env" and W :: "'w \<Rightarrow> bool" and V :: "handle \<Rightarrow> 'w \<Rightarrow> bool" and R :: "'w \<Rightarrow> 'w \<Rightarrow> bool" +
  fixes obs :: "handle \<Rightarrow> 'w \<Rightarrow> link option" and calm :: "'w \<Rightarrow> bool"
  assumes obs_moves: "W u \<Longrightarrow> V h u \<Longrightarrow> R u w \<Longrightarrow> obs h w = Some k' \<Longrightarrow>
      \<exists>k rs. obs h u = Some k \<and> moves rs k k'"
    and opened_link: "W w \<Longrightarrow> e_open E entry w = (Inr h, w') \<Longrightarrow> obs h w' = Some k \<Longrightarrow> lk_queue k = []"
    and config_link: "W w \<Longrightarrow> V h w \<Longrightarrow> e_get_feature E h (request REPORT_ID_PIN_CONFIG) w = (Inr n, data, w') \<Longrightarrow>
      obs h w' = Some k \<Longrightarrow> \<exists>p x. data = REPORT_ID_PIN_CONFIG # p \<and> length p = 63 \<and>
        decode_pin_config p = Inr x \<and> pcr_config x = lk_config k"
    and status_link: "W w \<Longrightarrow> V h w \<Longrightarrow> e_get_input E h (request REPORT_ID_STATUS) w = (Inr n, data, w') \<Longrightarrow>
      \<exists>p r. data = REPORT_ID_STATUS # p \<and> length p = 63 \<and> decode_status p = Inr r \<and>
        solicited r \<and> \<not> config_news r \<and> \<not> more_events r \<and>
        (\<forall>k. obs h w' = Some k \<longrightarrow> seq r = lk_seq k \<and> shows_pins r k)"
    and read_valid: "W w \<Longrightarrow> V h w \<Longrightarrow> e_read E h buf timeout w = Some (x, data, w') \<Longrightarrow> W w' \<and> V h w'"
    and read_link: "W w \<Longrightarrow> V h w \<Longrightarrow> e_read E h (replicate REPORT_LEN 0) timeout w = Some (Inr n, data, w') \<Longrightarrow>
      obs h w = Some k \<Longrightarrow> n = 0 \<and> obs h w' = Some k \<or>
        (\<exists>r q p. lk_queue k = r # q \<and> n = 64 \<and> data = REPORT_ID_STATUS # p \<and> length p = 63 \<and>
          decode_status p = Inr r \<and> obs h w' = Some (k\<lparr>lk_queue := q\<rparr>))"
    and read_calm: "W w \<Longrightarrow> V h w \<Longrightarrow> calm w \<Longrightarrow> obs h w = None \<Longrightarrow>
      e_read E h buf timeout w = Some (x, data, w') \<Longrightarrow> obs h w' = None"
    and now_calm: "W w \<Longrightarrow> calm w \<Longrightarrow> e_now E w = (t, w') \<Longrightarrow> calm w'"

section \<open>The invariant\<close>

text \<open>The world and the handle are valid, and what the connection sees is in a relation \<open>P\<close>.\<close>

definition seen :: "('w \<Rightarrow> bool) \<Rightarrow> (handle \<Rightarrow> 'w \<Rightarrow> bool) \<Rightarrow> (handle \<Rightarrow> 'w \<Rightarrow> link option) \<Rightarrow>
    (connection \<Rightarrow> link \<Rightarrow> bool) \<Rightarrow> watch_loop \<Rightarrow> 'w \<Rightarrow> bool" where
  "seen W V obs P l w \<longleftrightarrow> W w \<and> keys_ok l \<and> (\<forall>c. conn l = Some c \<longrightarrow> V (dev_handle (c_device c)) w \<and>
     (\<forall>k. obs (dev_handle (c_device c)) w = Some k \<longrightarrow> P c k))"

lemma seen_mono:
  "seen W V obs P l w \<Longrightarrow> (\<And>c k. conn l = Some c \<Longrightarrow> P c k \<Longrightarrow> Q c k) \<Longrightarrow> seen W V obs Q l w"
  by (simp add: seen_def)

lemma seen_conj: "seen W V obs P l w \<Longrightarrow> seen W V obs Q l w \<Longrightarrow> seen W V obs (\<lambda>c k. P c k \<and> Q c k) l w"
  by (simp add: seen_def)

text \<open>A relation that survives what the board does.\<close>

definition lasting :: "(connection \<Rightarrow> link \<Rightarrow> bool) \<Rightarrow> bool" where
  "lasting P \<longleftrightarrow> (\<forall>c k rs k'. P c k \<longrightarrow> moves rs k k' \<longrightarrow> P c k')"

lemma lasting_intros:
  "lasting (\<lambda>c k. synced v news l c k)" "lasting (\<lambda>c. config_or_news cfg)"
  "lasting (\<lambda>c k. synced v news l c (with_report r k))"
  unfolding lasting_def by (blast intro: synced_moves config_or_news_moves moves_with_report)+

lemma lasting_conj: "lasting P \<Longrightarrow> lasting Q \<Longrightarrow> lasting (\<lambda>c k. P c k \<and> Q c k)"
  unfolding lasting_def by blast

context linked
begin

text \<open>
  \<open>mirror v news\<close> is the invariant with the report in hand; \<open>is_config cfg\<close> tells that the board has the
  configuration \<open>cfg\<close>, or that a report that tells of another waits.
\<close>

abbreviation (input) mirror :: "hand \<Rightarrow> bool \<Rightarrow> watch_loop \<Rightarrow> 'w \<Rightarrow> bool" where
  "mirror v news l w \<equiv> seen W V obs (\<lambda>c k. synced v news l c k) l w"

abbreviation (input) is_config :: "pin_config \<Rightarrow> watch_loop \<Rightarrow> 'w \<Rightarrow> bool" where
  "is_config cfg l w \<equiv> seen W V obs (\<lambda>c k. config_or_news cfg k) l w"

lemma seen_R:
  assumes "seen W V obs P l w" "R w w'" "lasting P"
  shows "seen W V obs P l w'"
  unfolding seen_def
proof (intro conjI allI impI)
  have w: "W w" using assms(1) by (simp add: seen_def)
  show "W w'" "keys_ok l" using assms(1) W_kept [OF w assms(2)] by (simp_all add: seen_def)
  fix c
  assume c: "conn l = Some c"
  then have h: "V (dev_handle (c_device c)) w" using assms(1) by (simp add: seen_def)
  show "V (dev_handle (c_device c)) w'" using V_kept [OF w h assms(2)] .
  fix k'
  assume "obs (dev_handle (c_device c)) w' = Some k'"
  then obtain k rs where k: "obs (dev_handle (c_device c)) w = Some k" "moves rs k k'"
    using obs_moves [OF w h assms(2)] by blast
  then have "P c k" using assms(1) c by (simp add: seen_def)
  then show "P c k'" using assms(3) k(2) unfolding lasting_def by blast
qed

lemma seen_now:
  assumes "seen W V obs P l w" "lasting P" "e_now E w = (t, w')"
  shows "seen W V obs P l w'"
  using seen_R [OF assms(1) _ assms(2)] now_R [OF _ assms(3)] assms(1) by (simp add: seen_def)

lemma seen_device:
  assumes "seen W V obs P l w" "lasting P" "stays W V R m" "conn l = Some c" "m (c_device c) w = (r, d, w')"
    and "\<And>d k. P c k \<Longrightarrow> P (c\<lparr>c_device := d\<rparr>) k"
  shows "seen W V obs P (l\<lparr>conn := Some (c\<lparr>c_device := d\<rparr>)\<rparr>) w'"
proof -
  have "W w" "V (dev_handle (c_device c)) w" using assms(1,4) by (simp_all add: seen_def)
  from staysD [OF assms(3) this assms(5)] have r: "R w w'" "dev_handle d = dev_handle (c_device c)" by auto
  have "seen W V obs P l w'" by (rule seen_R [OF assms(1) r(1) assms(2)])
  then show ?thesis using assms(4,6) r(2) by (auto simp: seen_def keys_ok_def)
qed

text \<open>Only the known pins, the configuration, the polarities and the connection matter.\<close>

lemma mirror_cong:
  assumes "known l' = known l" "config l' = config l" "active_low l' = active_low l" "conn l' = conn l"
  shows "mirror v news l' w = mirror v news l w"
  using synced_cong [OF assms(1-3)] assms by (simp add: seen_def keys_ok_def)

lemma mirror_fields [simp]:
  "mirror v news (l\<lparr>pending := x1\<rparr>) w = mirror v news l w" "mirror v news (l\<lparr>target := x2\<rparr>) w = mirror v news l w"
  "mirror v news (l\<lparr>last_restore := x3\<rparr>) w = mirror v news l w"
  "mirror v news (l\<lparr>restore_count := x4\<rparr>) w = mirror v news l w"
  "mirror v news (l\<lparr>restore_at := x5\<rparr>) w = mirror v news l w" "mirror v news (l\<lparr>scan_at := x6\<rparr>) w = mirror v news l w"
  "mirror v news (l\<lparr>settle_at := x7\<rparr>) w = mirror v news l w" "mirror v news (l\<lparr>failure := x8\<rparr>) w = mirror v news l w"
  "mirror v news (l\<lparr>failures := x9\<rparr>) w = mirror v news l w" "mirror v news (l\<lparr>wl_serial := y1\<rparr>) w = mirror v news l w"
  "mirror v news (l\<lparr>wl_info := y2\<rparr>) w = mirror v news l w"
  "mirror v news (l\<lparr>ever_connected := y3\<rparr>) w = mirror v news l w"
  by (rule mirror_cong; simp)+

lemma is_config_cong:
  assumes "known l' = known l" "conn l' = conn l"
  shows "is_config cfg l' w = is_config cfg l w"
  using assms by (simp add: seen_def keys_ok_def)

lemma is_config_fields [simp]:
  "is_config cfg (l\<lparr>pending := x1\<rparr>) w = is_config cfg l w"
  "is_config cfg (l\<lparr>restore_count := x4\<rparr>) w = is_config cfg l w"
  by (rule is_config_cong; simp)+

lemma mirror_now: "mirror v news l w \<Longrightarrow> e_now E w = (t, w') \<Longrightarrow> mirror v news l w'"
  using seen_now lasting_intros by blast

text \<open>Without a connection the invariant says only that the world is valid.\<close>

lemma mirror_None: "conn l = None \<Longrightarrow> mirror v news l w \<longleftrightarrow> W w \<and> keys_ok l"
  by (simp add: seen_def)

section \<open>Operations of the device\<close>

lemma mirror_device:
  assumes "mirror v news l w" "stays W V R m" "conn l = Some c" "m (c_device c) w = (r, d, w')"
  shows "mirror v news (l\<lparr>conn := Some (c\<lparr>c_device := d\<rparr>)\<rparr>) w'"
proof -
  have "seen W V obs (\<lambda>c k. synced v news l c k) (l\<lparr>conn := Some (c\<lparr>c_device := d\<rparr>)\<rparr>) w'"
    by (rule seen_device [OF assms(1) lasting_intros(1) assms(2-4)]) simp
  then show ?thesis
  proof (rule seen_mono)
    fix c' k
    assume "synced v news l c' k"
    then show "synced v news (l\<lparr>conn := Some (c\<lparr>c_device := d\<rparr>)\<rparr>) c' k"
      using synced_cong [of "l\<lparr>conn := Some (c\<lparr>c_device := d\<rparr>)\<rparr>" l v news c' k] by simp
  qed
qed

text \<open>What the two reports say that the host asks for.\<close>

lemma got_config:
  assumes "W w" "V (dev_handle d) w" "get_pin_config E d w = (Inr r, d', w')" "obs (dev_handle d) w' = Some k"
  shows "pcr_config r = lk_config k"
proof -
  obtain p where p: "get_feature E REPORT_ID_PIN_CONFIG d w = (Inr p, d, w')" "decode_pin_config p = Inr r"
    using assms(3) get_feature_device by (fastforce simp: get_pin_config_def seq_op_Inr)
  obtain n data where e: "e_get_feature E (dev_handle d) (request REPORT_ID_PIN_CONFIG) w = (Inr n, data, w')"
    using p(1) by (auto simp: get_feature_def Let_def split: prod.splits sum.splits if_splits)
  obtain p' x where x: "data = REPORT_ID_PIN_CONFIG # p'" "length p' = 63" "decode_pin_config p' = Inr x"
    "pcr_config x = lk_config k"
    using config_link [OF assms(1,2) e assms(4)] by blast
  have "p = p'"
    using p(1) e x(1,2) by (auto simp: get_feature_def Let_def fill_all split: if_splits)
  then show ?thesis using p(2) x(3,4) by simp
qed

lemma got_status:
  assumes "W w" "V (dev_handle d) w" "request_status E d w = (Inr r, d', w')"
  shows "d' = d \<and> solicited r \<and> \<not> config_news r \<and> \<not> more_events r \<and>
    (\<forall>k. obs (dev_handle d) w' = Some k \<longrightarrow> seq r = lk_seq k \<and> shows_pins r k)"
proof -
  obtain n data where e: "e_get_input E (dev_handle d) (request REPORT_ID_STATUS) w = (Inr n, data, w')"
    using assms(3) by (auto simp: request_status_def Let_def split: prod.splits sum.splits if_splits)
  obtain p x where x: "data = REPORT_ID_STATUS # p" "length p = 63" "decode_status p = Inr x"
    "solicited x \<and> \<not> config_news x \<and> \<not> more_events x \<and>
      (\<forall>k. obs (dev_handle d) w' = Some k \<longrightarrow> seq x = lk_seq k \<and> shows_pins x k)"
    using status_link [OF assms(1,2) e] by blast
  show ?thesis
    using assms(3) e x by (auto simp: request_status_def Let_def fill_all split: if_splits)
qed

text \<open>A write that was verified leaves the configuration on the board.\<close>

lemma set_config_got:
  assumes "W w" "V (dev_handle d) w" "set_pin_config E cfg d w = (Inr r, d', w')" "obs (dev_handle d) w' = Some k"
  shows "lk_config k = cfg"
  using assms(3)
proof (cases rule: set_pin_config_cases)
  case (sent i d1 w1 rid ids)
  let ?d = "d1\<lparr>dev_request_ids := ids, last_request_id := rid\<rparr>"
  have 1: "R w w1 \<and> dev_handle d1 = dev_handle d" by (rule staysD [OF stays_info assms(1,2) sent(1)])
  have w1: "W w1" "V (dev_handle ?d) w1" using 1 W_kept [OF assms(1)] V_kept [OF assms(1,2)] by auto
  obtain x d2 w2 where 2: "send_feature E (REPORT_ID_PIN_CONFIG # encode_pin_config (set_report cfg rid)) ?d w1 = (Inr x, d2, w2)"
    "get_pin_config E d2 w2 = (Inr r, d', w')" "pcr_config r = cfg"
    using sent(4) by (auto simp: write_and_verify_def seq_op_Inr verify_config_def split: if_splits)
  have "R w1 w2 \<and> dev_handle d2 = dev_handle ?d" by (rule staysD [OF stays_send_feature w1 2(1)])
  then have "W w2" "V (dev_handle d2) w2" "dev_handle d2 = dev_handle d"
    using 1 W_kept [OF w1(1)] V_kept [OF w1] by auto
  then show ?thesis using got_config [OF _ _ 2(2)] 2(3) assms(4) by simp
qed simp_all

lemma is_config_got:
  assumes "seen W V obs P l w" "conn l = Some c" "get_pin_config E (c_device c) w = (Inr r, d, w')"
  shows "is_config (pcr_config r) (l\<lparr>conn := Some (c\<lparr>c_device := d\<rparr>)\<rparr>) w'"
proof -
  have d: "W w" "V (dev_handle (c_device c)) w" using assms(1,2) by (simp_all add: seen_def)
  from staysD [OF stays_get_pin_config d assms(3)] have "W w'" "V (dev_handle d) w'" "dev_handle d = dev_handle (c_device c)"
    using W_kept [OF d(1)] V_kept [OF d] by auto
  then show ?thesis
    using got_config [OF d assms(3)] assms(1) by (auto simp: seen_def keys_ok_def config_or_news_def)
qed

lemma is_config_set:
  assumes "seen W V obs P l w" "conn l = Some c" "set_pin_config E cfg (c_device c) w = (Inr r, d, w')"
  shows "is_config cfg (l\<lparr>conn := Some (c\<lparr>c_device := d\<rparr>)\<rparr>) w'"
proof -
  have d: "W w" "V (dev_handle (c_device c)) w" using assms(1,2) by (simp_all add: seen_def)
  from staysD [OF stays_set_pin_config d assms(3)] have "W w'" "V (dev_handle d) w'" "dev_handle d = dev_handle (c_device c)"
    using W_kept [OF d(1)] V_kept [OF d] by auto
  then show ?thesis
    using set_config_got [OF d assms(3)] assms(1) by (auto simp: seen_def keys_ok_def config_or_news_def)
qed

end

end
