(* ===== verification/Watch_Follow.thy ===== *)
theory Watch_Follow
  imports Watch_Mirror
begin

text \<open>
  Every operation of the thread keeps the mirror of the board, \<open>mirror\<close>: those that read and
  write configurations, those that look at status reports, connecting, and requests.
\<close>

text \<open>Bytes that are the first report of the queue, if it can be observed.\<close>

definition first_report :: "bytes \<Rightarrow> watch_loop \<Rightarrow> connection \<Rightarrow> link \<Rightarrow> bool" where
  "first_report data l c k \<longleftrightarrow> length data = 64 \<and> data ! 0 = REPORT_ID_STATUS \<and>
     (\<exists>r. decode_status (drop 1 data) = Inr r \<and> synced Empty_Hand False l c (with_report r k))"

context linked
begin

text \<open>The postcondition: the invariant, with a report in hand that brings no news.\<close>

abbreviation (input) mirrors :: "hand \<Rightarrow> 'a \<Rightarrow> watch_loop \<Rightarrow> 'w \<Rightarrow> bool" where
  "mirrors v \<equiv> (\<lambda>_ l w. mirror v False l w)"

abbreviation (input) any_end :: "watch_loop \<Rightarrow> 'w \<Rightarrow> bool" where
  "any_end \<equiv> (\<lambda>_ _. True)"

section \<open>Configurations\<close>

lemma mirror_set_config:
  assumes "mirror v news l w" "is_config cfg l w"
  shows "wlp (set_config cfg l w)
    (\<lambda>_ l' w'. mirror v False l' w' \<and> is_config cfg l' w' \<and> conn l' = conn l \<and> config l' = cfg \<and> w' = w) F"
proof (rule wlp_mono [OF wlp_set_config_follows])
  fix l' w'
  assume f: "follows_config cfg l l' \<and> w' = w"
  then have c: "conn l' = conn l" "config l' = cfg" "keys_ok l'"
    using assms(1) follows_keys by (auto simp: follows_config_def seen_def)
  have "mirror v False l' w"
    using assms c synced_follows conjunct1 [OF f] unfolding seen_def by metis
  moreover have "is_config cfg l' w" using assms(2) c by (simp add: seen_def)
  ultimately show "mirror v False l' w' \<and> is_config cfg l' w' \<and> conn l' = conn l \<and> config l' = cfg \<and> w' = w"
    using c f by simp
qed

text \<open>A connection that awaits the report of a write.\<close>

lemma mirror_await:
  assumes "mirror v news l w"
  shows "mirror v news (l\<lparr>conn := map_option (\<lambda>c. c\<lparr>awaiting_config := True\<rparr>) (conn l)\<rparr>) w"
proof -
  have "synced v news (l\<lparr>conn := x\<rparr>) (c\<lparr>awaiting_config := True\<rparr>) k" if "synced v news l c k" for c k x
    using synced_await [OF that] synced_cong [of "l\<lparr>conn := x\<rparr>" l] by simp
  then show ?thesis using assms by (auto simp: seen_def keys_ok_def)
qed

lemma mirror_lost:
  assumes "seen W V obs P l w"
  shows "wlp (lost E e l w) (\<lambda>_ l' w'. mirror v' news' l' w' \<and> conn l' = None) F"
proof (cases "conn l")
  case (Some c)
  let ?w = "e_close E (dev_handle (c_device c)) w"
  have w: "W w" "V (dev_handle (c_device c)) w" "keys_ok l" using assms Some by (simp_all add: seen_def)
  then have "W ?w" using W_kept close_R by blast
  then have "mirror v' news' (l\<lparr>conn := None\<rparr>) ?w" using w by (simp add: seen_def keys_ok_def)
  then have "mirror v' news' (l\<lparr>conn := None\<rparr>) w'" if "e_now E ?w = (t, w')" for t w'
    using that mirror_now by blast
  then show ?thesis
    using Some by (auto simp: lost_def wlp_rules drop_connection_def scan_later_def mirror_None keys_ok_def)
qed (use assms in \<open>simp add: lost_def wlp_rules seen_def\<close>)

lemma mirror_wrote:
  assumes "mirror v news l w" "is_config new l w"
  shows "wlp (wrote E found new l w) (mirrors v) F"
  unfolding wrote_def wlp_also_do
proof (rule wlp_mono [OF mirror_set_config [OF assms]])
  fix l' w'
  assume "mirror v False l' w' \<and> is_config new l' w' \<and> conn l' = conn l \<and> config l' = new \<and> w' = w"
  then have "mirror v False (l'\<lparr>conn := map_option (\<lambda>c. c\<lparr>awaiting_config := True\<rparr>) (conn l')\<rparr>) w'"
    using mirror_await by blast
  then show "wlp (change (\<lambda>l. l\<lparr>conn := map_option (\<lambda>c. c\<lparr>awaiting_config := True\<rparr>) (conn l)\<rparr>) l' w')
     (\<lambda>_ l w. wlp (bind (now_plus E SETTLE_TIMEOUT) (\<lambda>t. also_do (change (\<lambda>l. l\<lparr>settle_at := Some t\<rparr>))
       (if driven_outputs found new \<noteq> []
        then emit (OutputsReset (driven_outputs found new) PinConfigWrite) else ret ())) l w) (mirrors v) F) F"
    by (auto simp: wlp_rules intro: mirror_now)
qed

lemma mirror_restore_later:
  "mirror v news l w \<Longrightarrow> wlp (restore_later E d l w) (\<lambda>_ l' w'. mirror v news l' w') F"
  by (auto simp: restore_later_def wlp_rules intro: mirror_now)

lemma mirror_restore_over:
  assumes "mirror v news l w" "is_config found l w"
  shows "wlp (restore_over E tgt found l w) (mirrors v) any_end"
  unfolding restore_over_def wlp_also_do
proof (rule wlp_mono [OF mirror_set_config [OF assms]])
  fix l' w'
  assume "mirror v False l' w' \<and> is_config found l' w' \<and> conn l' = conn l \<and> config l' = found \<and> w' = w"
  then have l': "mirror v False l' w'" by blast
  have "wlp (bind (on_device (set_pin_config E tgt)) (\<lambda>r. case r of
        Inl e \<Rightarrow> if is_rejected e then fatal e
          else if is_conflict e then restore_later E RESTORE_INTERVAL
          else lost E e
      | Inr _ \<Rightarrow>
          also_do (change (\<lambda>l. l\<lparr>restore_count := restore_count l + 1\<rparr>))
          (bind (look restore_count) (\<lambda>count.
           also_do (emit (PinConfigRestored found count)) (wrote E found tgt)))) l' w') (mirrors v) any_end"
    unfolding wlp_bind wlp_on_device
  proof (intro allI impI)
    fix c r d w2
    assume c: "conn l' = Some c" and m: "set_pin_config E tgt (c_device c) w' = (r, d, w2)"
    note l2 = mirror_device [OF l' stays_set_pin_config c m]
    show "wlp ((case r of
        Inl e \<Rightarrow> if is_rejected e then fatal e
          else if is_conflict e then restore_later E RESTORE_INTERVAL
          else lost E e
      | Inr _ \<Rightarrow>
          also_do (change (\<lambda>l. l\<lparr>restore_count := restore_count l + 1\<rparr>))
          (bind (look restore_count) (\<lambda>count.
           also_do (emit (PinConfigRestored found count)) (wrote E found tgt))))
        (l'\<lparr>conn := Some (c\<lparr>c_device := d\<rparr>)\<rparr>) w2) (mirrors v) any_end"
    proof (cases r)
      case (Inl e)
      have "wlp (lost E e (l'\<lparr>conn := Some (c\<lparr>c_device := d\<rparr>)\<rparr>) w2) (mirrors v) any_end"
        by (rule wlp_mono [OF mirror_lost [OF l2]]) auto
      then show ?thesis using Inl mirror_restore_later [OF l2] by (simp add: wlp_basic)
    next
      case (Inr x)
      have "is_config tgt (l'\<lparr>conn := Some (c\<lparr>c_device := d\<rparr>)\<rparr>) w2"
        using is_config_set [OF l' c] m Inr by simp
      then show ?thesis
        using l2 by (simp add: Inr wlp_also_do wlp_bind wlp_basic) (rule mirror_wrote; simp)
    qed
  qed
  then show "wlp ((if found = tgt then ret ()
      else bind (on_device (set_pin_config E tgt)) (\<lambda>r. case r of
        Inl e \<Rightarrow> if is_rejected e then fatal e
          else if is_conflict e then restore_later E RESTORE_INTERVAL
          else lost E e
      | Inr _ \<Rightarrow>
          also_do (change (\<lambda>l. l\<lparr>restore_count := restore_count l + 1\<rparr>))
          (bind (look restore_count) (\<lambda>count.
           also_do (emit (PinConfigRestored found count)) (wrote E found tgt))))) l' w') (mirrors v) any_end"
    using l' by (simp add: wlp_basic)
qed

text \<open>An operation that starts with reading the configuration.\<close>

lemma mirror_read_config:
  assumes "mirror v news l w"
    and "\<And>e c w'. mirror v news (l\<lparr>conn := Some c\<rparr>) w' \<Longrightarrow> wlp (f (Inl e) (l\<lparr>conn := Some c\<rparr>) w') Q F"
    and "\<And>r c w'. mirror v news (l\<lparr>conn := Some c\<rparr>) w' \<Longrightarrow> is_config (pcr_config r) (l\<lparr>conn := Some c\<rparr>) w' \<Longrightarrow>
      wlp (f (Inr r) (l\<lparr>conn := Some c\<rparr>) w') Q F"
  shows "wlp (bind (on_device (get_pin_config E)) f l w) Q F"
  unfolding wlp_bind wlp_on_device
proof (intro allI impI)
  fix c r d w'
  assume c: "conn l = Some c" and m: "get_pin_config E (c_device c) w = (r, d, w')"
  note l' = mirror_device [OF assms(1) stays_get_pin_config c m]
  show "wlp (f r (l\<lparr>conn := Some (c\<lparr>c_device := d\<rparr>)\<rparr>) w') Q F"
  proof (cases r)
    case (Inl e)
    then show ?thesis using assms(2) [OF l'] by simp
  next
    case (Inr x)
    then have "is_config (pcr_config x) (l\<lparr>conn := Some (c\<lparr>c_device := d\<rparr>)\<rparr>) w'"
      using is_config_got [OF assms(1) c] m by simp
    then show ?thesis using assms(3) [OF l'] Inr by simp
  qed
qed

lemma mirror_restore_target:
  assumes "mirror v False l w"
  shows "wlp (restore_target E l w) (mirrors v) any_end"
proof (cases "target l = None \<or> conn l = None")
  case True
  then show ?thesis using assms by (auto simp: restore_target_def wlp_rules split: option.split)
next
  case False
  then obtain tgt c where tc: "target l = Some tgt" "conn l = Some c" by auto
  have lose: "wlp (lost E e l1 w1) (mirrors v) any_end" if "mirror v False l1 w1" for e l1 w1
    by (rule wlp_mono [OF mirror_lost [OF that]]) auto
  have "wlp (bind (on_device (get_pin_config E)) (\<lambda>r. case r of
           Inl e \<Rightarrow> lost E e
         | Inr report \<Rightarrow> restore_over E tgt (pcr_config report))
       (l\<lparr>restore_at := None, last_restore := Some t\<rparr>) w') (mirrors v) any_end" if "e_now E w = (t, w')" for t w'
  proof (rule mirror_read_config)
    show "mirror v False (l\<lparr>restore_at := None, last_restore := Some t\<rparr>) w'"
      using mirror_now [OF assms that] by simp
  qed (auto intro: lose mirror_restore_over)
  then show ?thesis
    by (simp add: restore_target_def wlp_also_do [of "change f" for f] wlp_bind [of "look f" for f]
        wlp_bind [of "now E"] wlp_now wlp_basic tc del: wlp_on_device)
qed

lemma mirror_restore_or_wait:
  assumes "mirror v False l w"
  shows "wlp (restore_or_wait E l w) (mirrors v) any_end"
  using assms
  by (auto simp: restore_or_wait_def wlp_basic wlp_bind wlp_now Let_def split: option.split
      intro: mirror_restore_target mirror_restore_later mirror_now)

lemma mirror_config_changed:
  assumes "mirror v news l w"
  shows "wlp (config_changed E l w) (mirrors v) any_end"
  unfolding config_changed_def
proof (rule mirror_read_config [OF assms])
  fix e c w'
  assume l1: "mirror v news (l\<lparr>conn := Some c\<rparr>) w'"
  show "wlp ((case Inl e of Inl e \<Rightarrow> lost E e | Inr report \<Rightarrow> bind (look (\<lambda>l. pcr_config report \<noteq> config l)) (\<lambda>changed.
       also_do (set_config (pcr_config report))
       (bind (look target) (\<lambda>t. case t of
          None \<Rightarrow> if changed then emit (PinConfigChanged (pcr_config report)) else ret ()
        | Some tgt \<Rightarrow> if pcr_config report = tgt then ret () else restore_or_wait E))))
      (l\<lparr>conn := Some c\<rparr>) w') (mirrors v) any_end"
    unfolding sum.case by (rule wlp_mono [OF mirror_lost [OF l1]]) auto
next
  fix report c w'
  assume l1: "mirror v news (l\<lparr>conn := Some c\<rparr>) w'" and g: "is_config (pcr_config report) (l\<lparr>conn := Some c\<rparr>) w'"
  show "wlp ((case Inr report of Inl e \<Rightarrow> lost E e | Inr report \<Rightarrow> bind (look (\<lambda>l. pcr_config report \<noteq> config l)) (\<lambda>changed.
       also_do (set_config (pcr_config report))
       (bind (look target) (\<lambda>t. case t of
          None \<Rightarrow> if changed then emit (PinConfigChanged (pcr_config report)) else ret ()
        | Some tgt \<Rightarrow> if pcr_config report = tgt then ret () else restore_or_wait E))))
      (l\<lparr>conn := Some c\<rparr>) w') (mirrors v) any_end"
    unfolding sum.case wlp_bind wlp_basic wlp_also_do
    by (rule wlp_mono [OF mirror_set_config [OF l1 g]])
      (auto simp: wlp_basic split: option.split intro: mirror_restore_or_wait)
qed

section \<open>Status reports\<close>

abbreviation (input) hand_of :: "bool \<Rightarrow> status_report \<Rightarrow> hand" where
  "hand_of stale r \<equiv> (if stale then Stale_Report else Fresh_Report r)"

lemma mirror_absorb:
  assumes "mirror (Fresh_Report r) False l w"
  shows "wlp (absorb E r l w) (mirrors Empty_Hand) F"
proof -
  have l: "keys_ok l" "within W V R w (conn l) w"
    using assms R_refl by (auto simp: seen_def within_def option.pred_set)
  show ?thesis
  proof (rule wlp_mono [OF wlp_conj [OF absorb_learns [OF l(1)] within_absorb [OF l(2)]]])
    fix l' w'
    assume a: "(kept l l' \<and> learned_from r l') \<and> no_news l' = no_news l \<and> within W V R w (conn l) w'"
    then have k: "config l' = config l" "conn l' = conn l" "keys_ok l'" and r: "R w w'"
      by (auto simp: kept_def learned_from_def within_def)
    have at: "mirror (Fresh_Report r) False l w'" using seen_R [OF assms r] lasting_intros by blast
    have "synced Empty_Hand False l' c x" if "synced (Fresh_Report r) False l c x" for c x
    proof -
      have "view_ok l' c x" using learned_view [of r l' l c x] a that by (simp add: synced_def)
      then show ?thesis using that k by (simp add: synced_def)
    qed
    then show "mirror Empty_Hand False l' w'" using at k by (simp add: seen_def)
  qed auto
qed

lemma mirror_absorb_unless:
  assumes "mirror (hand_of stale r) False l w"
  shows "wlp (absorb_unless E stale r l w) (mirrors Empty_Hand) F"
proof (cases "stale \<or> (case conn l of None \<Rightarrow> False | Some c \<Rightarrow> awaiting_config c) \<or> solicited r \<and> more_events r")
  case True
  have "synced Empty_Hand False l c k" if "conn l = Some c" "synced (hand_of stale r) False l c k" for c k
    using True that synced_done [of l c k] synced_idle [of "hand_of stale r" l c k]
    by (cases stale) (auto simp: synced_def)
  then have l: "mirror Empty_Hand False l w" by (rule seen_mono [OF assms(1)])
  have "(stale \<or> (case conn l of None \<Rightarrow> False | Some c \<Rightarrow> awaiting_config c) \<or>
      flags_contains (sr_reason r) HOST_REQUEST \<and> more_events r) = True"
    using True unfolding solicited_def by blast
  then show ?thesis using l by (simp only: absorb_unless_def wlp_bind wlp_basic if_True)
next
  case False
  then have "mirror (Fresh_Report r) False l w" using assms(1) by simp
  then show ?thesis
    using False mirror_absorb by (auto simp: absorb_unless_def wlp_bind wlp_basic solicited_def split: option.split)
qed

lemma wlp_suspend_event:
  assumes "\<And>p. Q () (l\<lparr>pending := p\<rparr>) w"
  shows "wlp (suspend_event r l w) Q F"
  using assms [of "pending l"] assms by (simp add: suspend_event_def wlp_basic)

lemma mirror_status_tail:
  assumes "mirror (hand_of stale r) (config_news r) l w"
    and "\<And>l w. config_news r \<Longrightarrow> F l w"
  shows "wlp (also_do (emit ev) (also_do (suspend_event r)
     (if config_news r then also_do (config_changed E)
        (bind (look conn) (\<lambda>c. if c = None then ret () else absorb_unless E stale r))
      else absorb_unless E stale r)) l w) (mirrors Empty_Hand) F"
proof -
  have tail: "wlp ((if config_news r then also_do (config_changed E)
        (bind (look conn) (\<lambda>c. if c = None then ret () else absorb_unless E stale r))
      else absorb_unless E stale r) l1 w) (mirrors Empty_Hand) F"
    if l1: "mirror (hand_of stale r) (config_news r) l1 w" for l1
  proof (cases "config_news r")
    case True
    have "wlp (also_do (config_changed E)
        (bind (look conn) (\<lambda>c. if c = None then ret () else absorb_unless E stale r)) l1 w) (mirrors Empty_Hand) F"
      unfolding wlp_also_do
    proof (rule wlp_mono [OF mirror_config_changed [OF l1]])
      fix l2 w2
      assume l2: "mirror (hand_of stale r) False l2 w2"
      then show "wlp (bind (look conn) (\<lambda>c. if c = None then ret () else absorb_unless E stale r) l2 w2)
          (mirrors Empty_Hand) F"
        using mirror_absorb_unless [OF l2] mirror_None [of l2 "hand_of stale r" False w2]
          mirror_None [of l2 Empty_Hand False w2]
        by (auto simp: wlp_bind wlp_basic)
    qed (use assms(2) True in simp)
    then show ?thesis using True by simp
  next
    case False
    then show ?thesis using mirror_absorb_unless [of stale r l1 w] l1 by simp
  qed
  show ?thesis
    unfolding wlp_also_do [of "emit ev"] wlp_also_do [of "suspend_event r"] wlp_basic
    by (rule wlp_suspend_event, rule tail) (use assms(1) in simp)
qed

lemma mirror_status_step:
  assumes "\<And>c stale snap clk. conn l = Some c \<Longrightarrow> stale_after (snapshot_seq c) r = (stale, snap) \<Longrightarrow>
      mirror (hand_of stale r) (config_news r) (l\<lparr>conn := Some (c\<lparr>c_clock := clk, snapshot_seq := snap\<rparr>)\<rparr>) w \<and>
      (\<not> stale \<longrightarrow> mirror (hand_of stale r) (config_news r)
        (l\<lparr>conn := Some (c\<lparr>c_clock := clk, snapshot_seq := snap, awaiting_config := False\<rparr>)\<rparr>) w)"
    and "\<And>l w. config_news r \<Longrightarrow> F l w"
  shows "wlp (status_step E r at missed l w) (mirrors Empty_Hand) F"
proof -
  have tail: "wlp (also_do (emit ev) (also_do (suspend_event r)
     (if flags_contains (sr_reason r) CONFIG_CHANGED then also_do (config_changed E)
        (bind (look conn) (\<lambda>c. if c = None then ret () else absorb_unless E stale r))
      else absorb_unless E stale r)) l1 w) (mirrors Empty_Hand) F"
    if "mirror (hand_of stale r) (config_news r) l1 w" for ev l1 stale
    using mirror_status_tail [OF that assms(2)] by (simp only: config_news_def)
  show ?thesis
    unfolding status_step_def loop_on_off_def Let_def wlp_bind [of _ "\<lambda>on. bind the_conn (f on)" for f]
      wlp_bind [of "look f" for f] wlp_bind [of the_conn] wlp_basic wlp_or_panic wlp_the_conn
  proof (intro allI impI)
    fix on c
    assume c: "conn l = Some c"
    obtain stale snap where s: "stale_after (snapshot_seq c) r = (stale, snap)" by force
    note start = assms(1) [OF c s]
    show "wlp ((case stale_after (snapshot_seq c) r of (stale, snap) \<Rightarrow>
       also_do (change_conn (\<lambda>c. c\<lparr>c_clock := clock_add (c_clock c) at (timestamp_us r), snapshot_seq := snap\<rparr>))
       (also_do (if flags_contains (sr_reason r) CONFIG_CHANGED \<and> \<not> stale
         then also_do (change_conn (\<lambda>c. c\<lparr>awaiting_config := False\<rparr>)) (change (\<lambda>l. l\<lparr>settle_at := None\<rparr>))
         else ret ())
       (also_do (emit (StatusReceived r missed on))
       (also_do (suspend_event r)
       (if flags_contains (sr_reason r) CONFIG_CHANGED
        then also_do (config_changed E) (bind (look conn) (\<lambda>c. if c = None then ret () else absorb_unless E stale r))
        else absorb_unless E stale r))))) l w) (mirrors Empty_Hand) F"
      unfolding s prod.case wlp_also_do [of "change_conn f" for f] wlp_change_conn
        wlp_also_do [of "if b then m else ret ()" for b m] wlp_also_do [of _ "change f" for f]
    proof (intro allI impI)
      fix c'
      assume "conn l = Some c'"
      then have c': "c' = c" using c by simp
      let ?c = "c\<lparr>c_clock := clock_add (c_clock c) at (timestamp_us r), snapshot_seq := snap\<rparr>"
      show "wlp ((if flags_contains (sr_reason r) CONFIG_CHANGED \<and> \<not> stale
         then also_do (change_conn (\<lambda>c. c\<lparr>awaiting_config := False\<rparr>)) (change (\<lambda>l. l\<lparr>settle_at := None\<rparr>))
         else ret ()) (l\<lparr>conn := Some (c'\<lparr>c_clock := clock_add (c_clock c') at (timestamp_us r), snapshot_seq := snap\<rparr>)\<rparr>) w)
        (\<lambda>_ l w. wlp (also_do (emit (StatusReceived r missed on)) (also_do (suspend_event r)
         (if flags_contains (sr_reason r) CONFIG_CHANGED
          then also_do (config_changed E) (bind (look conn) (\<lambda>c. if c = None then ret () else absorb_unless E stale r))
          else absorb_unless E stale r)) l w) (mirrors Empty_Hand) F) F"
      proof (cases "flags_contains (sr_reason r) CONFIG_CHANGED \<and> \<not> stale")
        case True
        then have "mirror (hand_of stale r) (config_news r) (l\<lparr>conn := Some (?c\<lparr>awaiting_config := False\<rparr>)\<rparr>) w"
          using start by simp
        then show ?thesis
          unfolding if_P [OF True] c' by (simp add: wlp_also_do [of "change_conn f" for f] wlp_change_conn wlp_basic tail)
      next
        case False
        show ?thesis
          unfolding if_not_P [OF False] c' wlp_basic by (rule tail) (use start in blast)
      qed
    qed
  qed
qed

lemma mirror_received:
  assumes "seen W V obs (first_report data l) l w"
  shows "wlp (received E data at l w) (mirrors Empty_Hand) any_end"
proof -
  have ignored: "mirror Empty_Hand False l w" if "\<And>c k. \<not> first_report data l c k"
    by (rule seen_mono [OF assms]) (use that in blast)
  show ?thesis
  proof (cases "length data < REPORT_LEN \<or> data ! 0 \<noteq> REPORT_ID_STATUS")
    case True
    then have "mirror Empty_Hand False l w" by (intro ignored) (auto simp: first_report_def REPORT_LEN_eq)
    then show ?thesis using True by (simp only: received_def if_True wlp_basic)
  next
    case False
    show ?thesis
    proof (cases "decode_status (take REPORT_PAYLOAD_LEN (drop 1 data))")
      case (Inl e)
      then have "mirror Empty_Hand False l w"
        by (intro ignored) (auto simp: first_report_def REPORT_PAYLOAD_LEN_def)
      then show ?thesis using False Inl by (simp add: received_def wlp_basic)
    next
      case (Inr r)
      have first: "synced Empty_Hand False l c (with_report r k)" if "first_report data l c k" for c k
        using that Inr by (auto simp: first_report_def REPORT_PAYLOAD_LEN_def)
      show ?thesis
        unfolding received_def if_not_P [OF False] Inr sum.case wlp_bind wlp_the_conn Let_def wlp_also_do wlp_change_conn
      proof (intro allI impI mirror_status_step)
        fix c1 c c' stale snap clk
        let ?l = "l\<lparr>conn := Some (c\<lparr>c_last_seq := Some (seq r)\<rparr>)\<rparr>"
        assume c: "conn l = Some c" "conn ?l = Some c'" and s: "stale_after (snapshot_seq c') r = (stale, snap)"
        have at: "mirror (hand_of stale r) (config_news r) (?l\<lparr>conn := Some c2\<rparr>) w"
          if "c2 = c'\<lparr>c_clock := clk, snapshot_seq := snap, awaiting_config := a\<rparr>" "a = awaiting_config c' \<or> \<not> stale" for c2 a
        proof -
          have "synced (hand_of stale r) (config_news r) (?l\<lparr>conn := Some c2\<rparr>) c2 k" if "first_report data l c k" for k
          proof -
            have "stale_after (snapshot_seq c) r = (stale, snap)" "snapshot_seq c2 = snap"
              "awaiting_config c2 = awaiting_config c \<or> \<not> stale"
              using s c \<open>c2 = _\<close> \<open>a = _ \<or> _\<close> by auto
            from synced_take [OF first [OF that] this] show ?thesis
              using synced_cong [of "?l\<lparr>conn := Some c2\<rparr>" l "hand_of stale r"] by simp
          qed
          then show ?thesis using assms(1) c that(1) by (auto simp: seen_def keys_ok_def)
        qed
        show "mirror (hand_of stale r) (config_news r) (?l\<lparr>conn := Some (c'\<lparr>c_clock := clk, snapshot_seq := snap\<rparr>)\<rparr>) w \<and>
          (\<not> stale \<longrightarrow> mirror (hand_of stale r) (config_news r)
            (?l\<lparr>conn := Some (c'\<lparr>c_clock := clk, snapshot_seq := snap, awaiting_config := False\<rparr>)\<rparr>) w)"
          using at [of "c'\<lparr>c_clock := clk, snapshot_seq := snap\<rparr>" "awaiting_config c'"]
            at [of "c'\<lparr>c_clock := clk, snapshot_seq := snap, awaiting_config := False\<rparr>" False] by (cases stale) simp_all
      qed simp
    qed
  qed
qed

text \<open>The report a snapshot asks for.\<close>

lemma mirror_snapshot:
  assumes "mirror No_View False l w"
  shows "wlp (snapshot E l w) (mirrors Empty_Hand) F"
  unfolding snapshot_def wlp_bind wlp_on_device
proof (intro allI impI)
  fix c x d w'
  assume c: "conn l = Some c" and m: "request_status E (c_device c) w = (x, d, w')"
  let ?l = "l\<lparr>conn := Some (c\<lparr>c_device := d\<rparr>)\<rparr>"
  have l1: "mirror No_View False ?l w'" by (rule mirror_device [OF assms stays_request_status c m])
  show "wlp ((case x of Inl e \<Rightarrow> lost E e | Inr report \<Rightarrow>
       also_do (change_conn (\<lambda>c. c\<lparr>snapshot_seq :=
           (if seq report \<noteq> 0 \<and> \<not> more_events report then Some (seq report) else None)\<rparr>))
       (bind (now E) (\<lambda>t. ignore_fatal (status_step E report t 0)))) ?l w') (mirrors Empty_Hand) F"
  proof (cases x)
    case (Inl e)
    have "wlp (lost E e ?l w') (mirrors Empty_Hand) F" by (rule wlp_mono [OF mirror_lost [OF l1]]) auto
    then show ?thesis by (simp add: Inl)
  next
    case (Inr r)
    have "W w" "V (dev_handle (c_device c)) w" using assms c by (simp_all add: seen_def)
    from got_status [OF this m [unfolded Inr]] have r: "d = c_device c" "solicited r" "\<not> config_news r"
      "\<not> more_events r" "obs (dev_handle d) w' = Some k \<Longrightarrow> seq r = lk_seq k \<and> shows_pins r k" for k by auto
    define snap where "snap = (if seq r \<noteq> 0 \<and> \<not> more_events r then Some (seq r) else None)"
    have fresh: "mirror (Fresh_Report r) False (l\<lparr>conn := Some (c\<lparr>c_device := d, c_clock := clk, snapshot_seq := snap,
        awaiting_config := a\<rparr>)\<rparr>) w'" (is "mirror _ _ (?l2 clk a) w'") for clk a
    proof -
      have "synced (Fresh_Report r) False (?l2 clk a) (c\<lparr>c_device := d, c_clock := clk, snapshot_seq := snap,
          awaiting_config := a\<rparr>) k"
        if "synced No_View False ?l (c\<lparr>c_device := d\<rparr>) k" "obs (dev_handle d) w' = Some k" for k
      proof -
        have "synced No_View False (?l2 clk a) (c\<lparr>c_device := d\<rparr>) k"
          using that(1) synced_cong [of "?l2 clk a" ?l] by simp
        then show ?thesis
          using r(4) r(5) [OF that(2)] by (auto simp: synced_def snapshot_fine_def snap_def)
      qed
      then show ?thesis using l1 by (auto simp: seen_def keys_ok_def)
    qed
    have s: "stale_after q r = (False, q)" for q using r(2) by (simp add: stale_after_def solicited_def)
    have "wlp (status_step E r t 0 (?l\<lparr>conn := Some (c\<lparr>c_device := d, snapshot_seq := snap\<rparr>)\<rparr>) w2)
        (mirrors Empty_Hand) (\<lambda>l w. mirror Empty_Hand False l w)" if "e_now E w' = (t, w2)" for t w2
    proof (rule mirror_status_step)
      fix c' stale snap' clk
      assume c': "conn (?l\<lparr>conn := Some (c\<lparr>c_device := d, snapshot_seq := snap\<rparr>)\<rparr>) = Some c'"
        and st: "stale_after (snapshot_seq c') r = (stale, snap')"
      have "mirror (Fresh_Report r) False (?l2 clk a) w2" for a
        by (rule mirror_now [OF fresh that])
      from this [of "awaiting_config c"] this [of False]
      show "mirror (hand_of stale r) (config_news r) (?l\<lparr>conn := Some (c\<lparr>c_device := d, snapshot_seq := snap\<rparr>),
          conn := Some (c'\<lparr>c_clock := clk, snapshot_seq := snap'\<rparr>)\<rparr>) w2 \<and>
        (\<not> stale \<longrightarrow> mirror (hand_of stale r) (config_news r) (?l\<lparr>conn := Some (c\<lparr>c_device := d, snapshot_seq := snap\<rparr>),
          conn := Some (c'\<lparr>c_clock := clk, snapshot_seq := snap', awaiting_config := False\<rparr>)\<rparr>) w2)"
        using c' st r(3) s by auto
    qed (use r(3) in simp)
    then show ?thesis
      by (simp add: Inr wlp_bind wlp_also_do wlp_change_conn wlp_now wlp_ignore_fatal snap_def [symmetric])
  qed
qed

end

end
