(* ===== verification/Watch_Mirrored.thy ===== *)
theory Watch_Mirrored
  imports Watch_Follow
begin

text \<open>
  The mirror of the board through whole turns of the thread: connecting, the requests of the
  application, the timers and reading, and then every run of the system in which no queue
  overflows.
\<close>

section \<open>Connecting\<close>

lemma lasting_queue: "lasting (\<lambda>c. queue_fine)"
  unfolding lasting_def by (blast intro: queue_fine_moves)

context linked
begin

text \<open>A queue is in order from when its handle is opened, through every operation of the device.\<close>

abbreviation (input) orderly :: "watch_loop \<Rightarrow> device \<Rightarrow> bool \<Rightarrow> 'w \<Rightarrow> bool" where
  "orderly l d a w \<equiv> seen W V obs (\<lambda>c. queue_fine) (l\<lparr>conn := Some (new_connection d a)\<rparr>) w"

lemma orderly_op:
  assumes "orderly l d a w" "stays W V R m" "m d w = (r, d', w')"
  shows "orderly l d' a w'"
  using seen_device [OF assms(1) lasting_queue assms(2), of "new_connection d a" r d' w'] assms(3)
  by (simp add: new_connection_def)

lemma orderly_open:
  assumes "W w" "keys_ok l" "e_open E entry w = (Inr h, w1)" "device_new E h serial w1 = (d, w2)"
  shows "orderly l d a w2"
proof -
  have 1: "W w1" "V h w1" using open_R [OF assms(1,3)] W_kept [OF assms(1)] by auto
  obtain t where t: "e_wall E w1 = (t, w2)" "dev_handle d = h"
    using assms(4) by (auto simp: device_new_def fresh_ids_def split: prod.splits)
  have "queue_fine k" if "obs h w1 = Some k" for k
    using opened_link [OF assms(1,3) that] by (simp add: queue_fine_def)
  then have "orderly l d a w1"
    using 1 assms(2) t(2) by (simp add: seen_def keys_ok_def new_connection_def)
  then show ?thesis using seen_R [OF _ wall_R [OF 1(1) t(1)] lasting_queue] by blast
qed

lemma mirror_connected:
  assumes "orderly l d aw w" "is_config found (l\<lparr>conn := Some (new_connection d aw)\<rparr>) w"
  shows "wlp (connected E entry i d (found, driven, aw) l w) (\<lambda>r l' w'. mirror Empty_Hand False l' w' \<and> r = Inr ()) any_end"
proof -
  let ?c = "new_connection d aw"
  have start: "mirror No_View True l1 w \<and> is_config found l1 w"
    if "conn l1 = Some ?c" "known l1 = known l" for l1
  proof -
    have "keys_ok l1" using assms(1) that by (simp add: seen_def keys_ok_def)
    then have "synced No_View True l1 ?c k" if "queue_fine k" for k
      using that by (simp add: synced_def snapshot_fine_def new_connection_def)
    then show ?thesis using assms that \<open>keys_ok l1\<close> by (simp add: seen_def)
  qed
  have last: "wlp (also_do (if aw then bind (now_plus E SETTLE_TIMEOUT) (\<lambda>t. change (\<lambda>l. l\<lparr>settle_at := Some t\<rparr>))
        else snapshot E) (ret (Inr ())) l1 w) (\<lambda>r l' w'. mirror Empty_Hand False l' w' \<and> r = Inr ()) any_end"
    if l1: "conn l1 = Some ?c" "mirror No_View False l1 w" for l1
  proof (cases aw)
    case True
    have "mirror Empty_Hand False l1 w"
      by (rule seen_mono [OF l1(2)]) (use l1(1) True synced_idle in \<open>auto simp: new_connection_def\<close>)
    then show ?thesis using True by (auto simp: wlp_rules intro: mirror_now)
  next
    case False
    then show ?thesis using mirror_snapshot [OF l1(2)] by (simp add: wlp_also_do wlp_basic)
  qed
  show ?thesis
    unfolding connected_def prod.case wlp_also_do wlp_bind wlp_basic reset_failures_def
  proof (rule wlp_mono [OF mirror_set_config])
    let ?l = "l\<lparr>conn := Some ?c, failure := [], failures := 0, ever_connected := True\<rparr>"
    show "mirror No_View True ?l w" "is_config found ?l w" using start [of ?l] by simp_all
    fix l1 w1
    assume 1: "mirror No_View False l1 w1 \<and> is_config found l1 w1 \<and> conn l1 = conn ?l \<and> config l1 = found \<and> w1 = w"
    then have "mirror No_View False (l1\<lparr>pending := p\<rparr>) w" "conn (l1\<lparr>pending := p\<rparr>) = Some ?c" for p by auto
    note go = last [OF this(2,1)]
    have w: "w1 = w" using 1 by blast
    show "wlp (outputs_event found driven (ever_connected (l\<lparr>conn := Some ?c, failure := [], failures := 0\<rparr>))
        (l1\<lparr>pending := pending l1 @ [Connected (de_serial entry) (de_path entry) i found
          (ever_connected (l\<lparr>conn := Some ?c, failure := [], failures := 0\<rparr>))]\<rparr>) w1)
      (\<lambda>_ l w. wlp ((if aw then bind (now_plus E SETTLE_TIMEOUT) (\<lambda>t. change (\<lambda>l. l\<lparr>settle_at := Some t\<rparr>))
          else snapshot E) l w) (\<lambda>_ l w. mirror Empty_Hand False l w \<and> Inr () = Inr ()) any_end) any_end"
      using go unfolding w by (simp add: outputs_event_def wlp_basic wlp_also_do)
  qed
qed

lemma mirror_connect:
  assumes "W w" "keys_ok l" "conn l = None"
  shows "wlp (connect E entry l w) (\<lambda>r l' w'. mirror Empty_Hand False l' w' \<and> (r \<noteq> Inr () \<longrightarrow> conn l' = None)) any_end"
proof -
  have w: "within W V R w None w" using assms(1) R_refl by (simp add: within_None)
  show ?thesis
    using w
  proof (cases rule: connect_cases [where entry = entry and l = l])
    case (failed e x w')
    then show ?thesis using assms by (simp add: within_None seen_def keys_ok_def)
  next
    case (rejected e x w')
    then show ?thesis by simp
  next
    case (connected i d fda w' h w1 d2 w2 d3 w3 report d4 w4)
    obtain found driven aw where f: "fda = (found, driven, aw)" by (cases fda)
    let ?l = "l\<lparr>wl_info := Some i\<rparr>"
    have k: "keys_ok ?l" using assms(2) by (simp add: keys_ok_def)
    have 2: "orderly ?l d2 aw w2" by (rule orderly_open [OF assms(1) k connected(3,4)])
    have 3: "orderly ?l d3 aw w3" by (rule orderly_op [OF 2 stays_info connected(5)])
    have 4: "orderly ?l d4 aw w4" by (rule orderly_op [OF 3 stays_get_pin_config connected(6)])
    have 5: "orderly ?l d aw w'" by (rule orderly_op [OF 4 stays_apply_target connected(7)])
    have "is_config found (?l\<lparr>conn := Some (new_connection d aw)\<rparr>) w'"
    proof (cases "\<exists>t. target l = Some t \<and> pcr_config report \<noteq> t")
      case True
      then obtain t x where t: "target l = Some t" "set_pin_config E t d4 w4 = (Inr x, d, w')" "found = t"
        using connected(7) f by (auto simp: apply_target_def seq_op_Inr)
      have "set_pin_config E t (c_device (new_connection d4 aw)) w4 = (Inr x, d, w')"
        using t(2) by (simp add: new_connection_def)
      from is_config_set [OF 4 _ this] show ?thesis using t(3) by (simp add: new_connection_def)
    next
      case False
      then have same: "found = pcr_config report" "d = d4" "w' = w4"
        using connected(7) f by (auto simp: apply_target_def split: option.splits if_splits)
      have "get_pin_config E (c_device (new_connection d3 aw)) w3 = (Inr report, d4, w4)"
        using connected(6) by (simp add: new_connection_def)
      from is_config_got [OF 3 _ this] show ?thesis using same by (simp add: new_connection_def)
    qed
    from mirror_connected [OF 5 this] show ?thesis
      unfolding connected(1) f by (rule wlp_mono) auto
  qed
qed

lemma mirror_scan_later:
  assumes "mirror v news l w"
  shows "wlp (scan_later E l w) (\<lambda>_ l' w'. mirror v news l' w') F"
  using assms by (auto simp: scan_later_def wlp_rules intro: mirror_now)

lemma mirror_failed:
  assumes "mirror v news l w"
  shows "wlp (also_do (failed e) (scan_later E) l w) (\<lambda>_ l' w'. mirror v news l' w') F"
  using assms mirror_scan_later [of v news]
  by (simp add: failed_def wlp_also_do [of "change f" for f] wlp_also_do wlp_bind wlp_basic)

lemma mirror_try_entries:
  assumes "mirror Empty_Hand False l w" "conn l = None"
  shows "wlp (try_entries E entries l w) (mirrors Empty_Hand) any_end"
proof (cases "matching_entries (wl_serial l) entries")
  case Nil
  have "wlp (scan_later E (l\<lparr>failure := [], failures := 0\<rparr>) w) (mirrors Empty_Hand) any_end"
    by (rule mirror_scan_later) (use assms in simp)
  then show ?thesis
    using Nil by (simp add: try_entries_def wlp_bind wlp_also_do reset_failures_def wlp_basic)
next
  case (Cons entry others)
  have "W w" "keys_ok (l\<lparr>wl_serial := s\<rparr>)" "conn (l\<lparr>wl_serial := s\<rparr>) = None" for s
    using assms by (simp_all add: seen_def keys_ok_def)
  note c = mirror_connect [OF this]
  have "wlp (bind (connect E entry) (case_sum (\<lambda>e. also_do (failed e) (scan_later E)) ret)
      (l\<lparr>wl_serial := s\<rparr>) w) (mirrors Empty_Hand) any_end" for s
    unfolding wlp_bind
    by (rule wlp_mono [OF c]) (auto simp: wlp_basic intro: mirror_failed split: sum.split)
  then show ?thesis
    using Cons by (simp add: try_entries_def wlp_bind [of "look f" for f] wlp_also_do [of "change f" for f] wlp_basic)
qed

lemma mirror_try_connect:
  assumes "mirror Empty_Hand False l w" "conn l = None"
  shows "wlp (try_connect E l w) (mirrors Empty_Hand) any_end"
proof -
  obtain r w' where d: "e_devices E w = (r, w')" by force
  have "W w" using assms by (simp add: seen_def)
  then have l: "mirror Empty_Hand False l w'" using seen_R [OF assms(1) devices_R [OF _ d]] lasting_intros by blast
  show ?thesis
    using mirror_try_entries [OF l assms(2)] mirror_failed [OF l]
    by (auto simp: try_connect_def wlp_bind list_devices_def d wlp_basic split: sum.split)
qed

section \<open>Requests\<close>

lemma mirror_write_target:
  assumes "mirror v False l w"
  shows "wlp (write_target E new previous l w) (mirrors v) F"
proof -
  have put: "wlp (bind (on_device (set_pin_config E new)) (\<lambda>r. case r of
       Inl e \<Rightarrow> also_do (if is_rejected e then change (\<lambda>l. l\<lparr>target := previous\<rparr>)
           else if is_conflict e then restore_later E RESTORE_INTERVAL else ret ()) (ret (Inl e))
     | Inr _ \<Rightarrow> also_do (wrote E found new) (ret (Inr ()))) l1 w1) (mirrors v) F"
    if l1: "mirror v False l1 w1" for found l1 w1
    unfolding wlp_bind wlp_on_device
  proof (intro allI impI)
    fix c r d w2
    assume c: "conn l1 = Some c" and m: "set_pin_config E new (c_device c) w1 = (r, d, w2)"
    note l2 = mirror_device [OF l1 stays_set_pin_config c m]
    show "wlp ((case r of
       Inl e \<Rightarrow> also_do (if is_rejected e then change (\<lambda>l. l\<lparr>target := previous\<rparr>)
           else if is_conflict e then restore_later E RESTORE_INTERVAL else ret ()) (ret (Inl e))
     | Inr _ \<Rightarrow> also_do (wrote E found new) (ret (Inr ()))) (l1\<lparr>conn := Some (c\<lparr>c_device := d\<rparr>)\<rparr>) w2) (mirrors v) F"
    proof (cases r)
      case (Inl e)
      have "wlp (restore_later E RESTORE_INTERVAL (l1\<lparr>conn := Some (c\<lparr>c_device := d\<rparr>)\<rparr>) w2) (mirrors v) F"
        by (rule mirror_restore_later [OF l2])
      moreover have "mirror v False (l1\<lparr>conn := Some (c\<lparr>c_device := d\<rparr>), target := previous\<rparr>) w2"
        using l2 by (simp only: mirror_fields)
      ultimately show ?thesis using l2 Inl by (simp add: wlp_also_do wlp_basic)
    next
      case (Inr x)
      have g: "is_config new (l1\<lparr>conn := Some (c\<lparr>c_device := d\<rparr>)\<rparr>) w2"
        using is_config_set [OF l1 c] m Inr by simp
      show ?thesis
        unfolding Inr sum.case wlp_also_do by (rule wlp_mono [OF mirror_wrote [OF l2 g]]) (auto simp: wlp_basic)
    qed
  qed
  show ?thesis
    unfolding write_target_def wlp_also_do [of "change f" for f] wlp_basic
  proof (rule mirror_read_config)
    show "mirror v False (l\<lparr>restore_at := None\<rparr>) w" using assms by simp
    fix report :: pin_config_report and c w'
    assume l1: "mirror v False (l\<lparr>restore_at := None, conn := Some c\<rparr>) w'"
      and g: "is_config (pcr_config report) (l\<lparr>restore_at := None, conn := Some c\<rparr>) w'"
    show "wlp ((case Inr report of Inl e \<Rightarrow> ret (Inl e) | Inr report \<Rightarrow> also_do (set_config (pcr_config report))
      (if pcr_config report = new then ret (Inr ()) else bind (on_device (set_pin_config E new)) (\<lambda>r. case r of
       Inl e \<Rightarrow> also_do (if is_rejected e then change (\<lambda>l. l\<lparr>target := previous\<rparr>)
           else if is_conflict e then restore_later E RESTORE_INTERVAL else ret ()) (ret (Inl e))
     | Inr _ \<Rightarrow> also_do (wrote E (pcr_config report) new) (ret (Inr ())))))
       (l\<lparr>restore_at := None, conn := Some c\<rparr>) w') (mirrors v) F"
      unfolding sum.case wlp_also_do [of "set_config c" for c]
      by (rule wlp_mono [OF mirror_set_config [OF l1 g]]) (auto simp: wlp_basic intro: put)
  qed (simp add: wlp_basic)
qed

lemma mirror_run_request:
  assumes "mirror v False l w"
  shows "wlp (run_request E r l w) (mirrors v) F"
proof (cases r)
  case (SetOutputs lvls)
  have "wlp (on_device (set_outputs E lvls) l w) (mirrors v) F"
    unfolding wlp_on_device using mirror_device [OF assms stays_set_outputs] by blast
  then show ?thesis
    using assms by (simp add: SetOutputs run_request_def wlp_bind wlp_basic split: option.split)
next
  case (SetTarget tgt)
  have t: "mirror v False (l\<lparr>target := Some tgt\<rparr>) w" using assms by simp
  show ?thesis
    using assms mirror_write_target [OF t] t
    by (auto simp: SetTarget run_request_def set_target_def wlp_bind wlp_basic wlp_also_do
        split: option.split prod.split)
qed

lemma mirror_run_requests:
  "mirror v False l w \<Longrightarrow> wlp (run_requests E rs l w) (mirrors v) F"
proof (induction rs arbitrary: l w)
  case (Cons q rs)
  obtain n r where q: "q = (n, r)" by force
  show ?case
    unfolding q run_requests.simps wlp_bind wlp_basic
    by (rule wlp_mono [OF mirror_run_request [OF Cons.prems]]) (simp_all add: Cons.IH)
qed (simp add: wlp_basic)

section \<open>Turns\<close>

lemma mirror_settle:
  assumes "mirror Empty_Hand False l w"
  shows "wlp (settle E l w) (mirrors Empty_Hand) F"
proof (cases "conn l")
  case None
  then show ?thesis using assms by (simp add: settle_def wlp_rules)
next
  case (Some c)
  let ?l = "l\<lparr>settle_at := None, conn := Some (c\<lparr>awaiting_config := False\<rparr>)\<rparr>"
  have "synced No_View False ?l (c\<lparr>awaiting_config := False\<rparr>) k" if "synced Empty_Hand False l c k" for k
    using that by (simp add: synced_def snapshot_fine_def keys_ok_def)
  then have "mirror No_View False ?l w" using assms Some by (simp add: seen_def keys_ok_def)
  then show ?thesis
    by (simp add: settle_def wlp_also_do wlp_bind wlp_basic Some wlp_change_conn mirror_snapshot)
qed

lemma mirror_read_device:
  assumes "mirror Empty_Hand False l w" "calm w"
  shows "wlp (read_device E timeout l w) (mirrors Empty_Hand) any_end"
proof (cases "conn l")
  case None
  then show ?thesis by (simp add: read_device_def wlp_bind read_report_def)
next
  case c: (Some c)
  let ?h = "dev_handle (c_device c)"
  have h: "W w" "V ?h w" "keys_ok l" using assms(1) c by (simp_all add: seen_def)
  show ?thesis
  proof (cases "e_read E ?h (replicate REPORT_LEN 0) (Some timeout) w")
    case None
    then show ?thesis by (simp add: read_device_def wlp_bind read_report_def c read_raw_def)
  next
    case (Some x)
    obtain res data w' where x: "x = (res, data, w')" by (metis prod_cases3)
    note e = Some [unfolded x]
    have w': "W w'" "V ?h w'" using read_valid [OF h(1,2) e] by auto
    have l: "l\<lparr>conn := Some c\<rparr> = l" using c by (metis watch_loop.surjective watch_loop.update_convs(10))
    have none: "obs ?h w' = None" if "obs ?h w = None" using read_calm [OF h(1,2) assms(2) that e] .
    have any: "seen W V obs (\<lambda>_ _. True) l w'" using w' h c by (simp add: seen_def)
    show ?thesis
    proof (cases res)
      case (Inl err)
      have "wlp (lost E (Io err) l w') (mirrors Empty_Hand) any_end"
        by (rule wlp_mono [OF mirror_lost [OF any]]) auto
      then show ?thesis
        by (simp add: read_device_def wlp_bind read_report_def c read_raw_def e Inl l)
    next
      case (Inr n)
      have k: "n = 0 \<and> obs ?h w' = Some k \<or> (\<exists>r q p. lk_queue k = r # q \<and> n = 64 \<and> data = REPORT_ID_STATUS # p \<and>
          length p = 63 \<and> decode_status p = Inr r \<and> obs ?h w' = Some (k\<lparr>lk_queue := q\<rparr>))"
        if "obs ?h w = Some k" for k
        using read_link [OF h(1,2) e [unfolded Inr] that] .
      have sync: "synced Empty_Hand False l c k" if "obs ?h w = Some k" for k
        using assms(1) c that by (simp add: seen_def)
      have empty: "mirror Empty_Hand False l w'" if "n = 0"
      proof -
        have "synced Empty_Hand False l c k'" if "obs ?h w' = Some k'" for k'
        proof (cases "obs ?h w")
          case (Some k)
          then show ?thesis using k [OF Some] sync [OF Some] \<open>n = 0\<close> that by auto
        qed (use none that in simp)
        then show ?thesis using w' h c by (simp add: seen_def)
      qed
      let ?data = "take n (fill (replicate REPORT_LEN 0) data)"
      have first: "seen W V obs (first_report ?data l) l w'" if "n \<noteq> 0"
      proof -
        have "first_report ?data l c k'" if "obs ?h w' = Some k'" for k'
        proof (cases "obs ?h w")
          case (Some k)
          then obtain r q p where q: "lk_queue k = r # q" "n = 64" "data = REPORT_ID_STATUS # p"
            "length p = 63" "decode_status p = Inr r" "obs ?h w' = Some (k\<lparr>lk_queue := q\<rparr>)"
            using k [OF Some] \<open>n \<noteq> 0\<close> by blast
          have "k' = k\<lparr>lk_queue := q\<rparr>" using q(6) that by simp
          then have "with_report r k' = k" using q(1) by (simp add: with_report_def)
          moreover have "?data = REPORT_ID_STATUS # p" using q(2,3,4) by (simp add: fill_all REPORT_LEN_eq)
          ultimately show ?thesis using q(4,5) sync [OF Some] by (simp add: first_report_def)
        qed (use none that in simp)
        then show ?thesis using w' h c by (simp add: seen_def)
      qed
      have "wlp (received E ?data t l w2) (mirrors Empty_Hand) any_end" if "n \<noteq> 0" "e_now E w' = (t, w2)" for t w2
      proof (rule mirror_received)
        have "lasting (first_report ?data l)"
          unfolding lasting_def first_report_def by (blast intro: synced_moves moves_with_report)
        then show "seen W V obs (first_report ?data l) l w2" using seen_now [OF first [OF that(1)] _ that(2)] by blast
      qed
      then show ?thesis
        using empty
        by (simp add: read_device_def wlp_bind read_report_def c read_raw_def e Inr l wlp_basic wlp_or_panic wlp_now)
    qed
  qed
qed

lemma mirror_idle_turn:
  assumes "mirror Empty_Hand False l w" "calm w" "timed l"
  shows "wlp (idle_turn E l w) (mirrors Empty_Hand) any_end"
  unfolding idle_turn_def wlp_bind wlp_now wlp_basic
proof (intro allI impI)
  fix t w'
  assume t: "e_now E w = (t, w')"
  have l: "mirror Empty_Hand False l w'" by (rule mirror_now [OF assms(1) t])
  have "W w" using assms(1) by (simp add: seen_def)
  then have calm: "calm w'" using now_calm assms(2) t by blast
  have "wlp (scan E l w') (mirrors Empty_Hand) any_end" if "due (scan_at l) t"
  proof -
    have "conn l = None" using assms(3) that by (cases "conn l") (auto simp: timed_def due_def)
    then have "wlp (try_connect E (l\<lparr>scan_at := None\<rparr>) w') (mirrors Empty_Hand) any_end"
      using l by (intro mirror_try_connect) simp_all
    then show ?thesis by (simp add: scan_def wlp_also_do wlp_basic)
  qed
  moreover have "wlp (restore E l w') (mirrors Empty_Hand) any_end"
    using mirror_restore_target [of Empty_Hand "l\<lparr>restore_at := None\<rparr>" w'] l
    by (simp add: restore_def wlp_also_do wlp_basic)
  ultimately show "wlp ((if due (scan_at l) t then scan E
     else if due (restore_at l) t then restore E
     else if due (settle_at l) t then settle E
     else if pending l \<noteq> [] \<or> conn l = None then ret ()
     else read_device E (read_timeout l t)) l w') (mirrors Empty_Hand) any_end"
    using mirror_settle [OF l] mirror_read_device [OF l calm] l by (simp add: wlp_basic)
qed

lemma mirror_turn_body:
  assumes "mirror Empty_Hand False l w" "calm w" "timed l"
  shows "wlp (turn_body E rs l w) (mirrors Empty_Hand) any_end"
  unfolding turn_body_def
  using mirror_idle_turn [OF assms] mirror_run_requests [OF assms(1)]
  by (simp add: wlp_also_do wlp_basic)

section \<open>Runs\<close>

text \<open>The invariant of the system, and the runs in which no queue overflows.\<close>

abbreviation (input) sys_mirror :: "'w system \<Rightarrow> bool" where
  "sys_mirror s \<equiv> sys_thread s = Running \<longrightarrow> mirror Empty_Hand False (sys_loop s) (sys_world s)"

lemma mirror_turn:
  assumes "sys_mirror s" "sys_thread s = Running" "calm (sys_world s)" "timed (sys_loop s)"
  shows "sys_mirror (turn E s)"
proof -
  obtain pend queue where d: "deliver (pending (sys_loop s)) (out (sys_shared s)) = (pend, queue)" by force
  let ?l = "(sys_loop s)\<lparr>pending := pend\<rparr>"
  have l: "mirror Empty_Hand False ?l (sys_world s)" using assms by simp
  have "timed ?l" using assms(4) by (simp add: timed_def)
  note body = mirror_turn_body [OF l assms(3) this, of "requests (sys_shared s)"]
  show ?thesis
  proof (cases "stopping (sys_shared s)")
    case True
    then show ?thesis by (simp add: turn_def d Let_def end_thread_def finish_def split: prod.split)
  next
    case False
    then show ?thesis
      using body by (cases "turn_body E (requests (sys_shared s)) ?l (sys_world s)")
        (simp_all add: turn_def d Let_def end_thread_def finish_def split: prod.split)
  qed
qed

lemma mirror_step:
  assumes "sys_step E outside s s'" "sys_mirror s" "calm (sys_world s)" "sys_thread s = Running \<Longrightarrow> timed (sys_loop s)"
    and "\<And>w w'. W w \<Longrightarrow> outside w w' \<Longrightarrow> R w w'"
  shows "sys_mirror s'"
  using assms(1)
proof (cases rule: sys_step.cases)
  case thread_turn
  then show ?thesis using mirror_turn assms(2-4) by simp
next
  case (world_moves w)
  show ?thesis
  proof
    assume "sys_thread s' = Running"
    then have s: "mirror Empty_Hand False (sys_loop s) (sys_world s)" using assms(2) world_moves(1) by simp
    then have "W (sys_world s)" by (simp add: seen_def)
    then have "R (sys_world s) w" using assms(5) world_moves(2) by blast
    then show "mirror Empty_Hand False (sys_loop s') (sys_world s')"
      using seen_R [OF s _ lasting_intros(1)] world_moves(1) by simp
  qed
qed (use assms(2) in simp_all)

end

definition calm_step :: "'w env \<Rightarrow> ('w \<Rightarrow> 'w \<Rightarrow> bool) \<Rightarrow> ('w \<Rightarrow> bool) \<Rightarrow> 'w system \<Rightarrow> 'w system \<Rightarrow> bool" where
  "calm_step E outside calm s s' \<longleftrightarrow> sys_step E outside s s' \<and> calm (sys_world s')"

lemma calm_steps_reach:
  "(calm_step E outside calm)\<^sup>*\<^sup>* (start_system opt t0 w0) s \<Longrightarrow> reachable E outside opt t0 s"
  by (induction rule: rtranclp_induct) (auto simp: calm_step_def intro: reachable.intros)

lemma reachable_timed:
  assumes "reachable E outside opt t0 s" "sys_thread s = Running"
  shows "timed (sys_loop s)"
proof -
  obtain w0 where "(sys_step E outside)\<^sup>*\<^sup>* (start_system opt t0 w0) s"
    using reachable_runs [OF assms(1)] by blast
  then show ?thesis using frame.runs_steady [OF frame_any] assms(2) by (fastforce simp: sys_steady_def)
qed

context linked
begin

lemma runs_mirror:
  assumes "(calm_step E outside calm)\<^sup>*\<^sup>* (start_system opt t0 w0) s" "W w0" "calm w0"
    and "\<And>w w'. W w \<Longrightarrow> outside w w' \<Longrightarrow> R w w'"
  shows "(sys_thread s = Running \<longrightarrow> seen W V obs (\<lambda>c k. synced Empty_Hand False (sys_loop s) c k) (sys_loop s) (sys_world s)) \<and>
    calm (sys_world s)"
  using assms(1)
proof (induction rule: rtranclp_induct)
  case base
  then show ?case using assms(2,3) by (simp add: start_system_def initial_loop_def seen_def keys_ok_def)
next
  case (step s s')
  have s: "sys_step E outside s s'" "calm (sys_world s')" using step(2) by (simp_all add: calm_step_def)
  have "sys_thread s = Running \<Longrightarrow> timed (sys_loop s)" by (rule reachable_timed [OF calm_steps_reach [OF step(1)]])
  then show ?case using mirror_step [OF s(1) _ _ _ assms(4)] step(3) s(2) by blast
qed

end

end
