(* ===== verification/Fake_Link.thy ===== *)
theory Fake_Link
  imports Watch_World Watch_Mirrored
begin

text \<open>
  The simulated boards keep the contract \<open>linked\<close>: what an open handle sees of its board moves as
  \<open>moves\<close> says, as long as its queue has room and no report number is skipped.
\<close>

section \<open>One board\<close>

definition decoded :: "bytes \<Rightarrow> status_report" where
  "decoded d = projr (decode_status (drop 1 d))"

definition board_link :: "board_state \<Rightarrow> status_report list \<Rightarrow> link" where
  "board_link s q = \<lparr>lk_config = b_config s, lk_levels = b_levels s, lk_seq = last_seq s, lk_queue = q,
     lk_behind = b_overflow s\<rparr>"

lemma board_link_simps [simp]:
  "lk_config (board_link s q) = b_config s" "lk_levels (board_link s q) = b_levels s"
  "lk_seq (board_link s q) = last_seq s" "lk_queue (board_link s q) = q" "lk_behind (board_link s q) = b_overflow s"
  by (simp_all add: board_link_def)

lemma link_level_board: "unat g < 30 \<Longrightarrow> link_level (board_link s q) g = bit (b_levels s) (unat g)"
  by (simp add: link_level_def)

lemma shows_pins_queue: "shows_pins r (board_link s q) = shows_pins r (board_link s [])"
  by (simp add: shows_pins_def link_monitored_def link_level_def)

lemma moves_queue:
  "moves rs (board_link s []) (board_link s' rs) \<Longrightarrow> moves rs (board_link s q) (board_link s' (q @ rs))"
  using shows_pins_queue [of "last rs" s' rs] shows_pins_queue [of "last rs" s' "q @ rs"]
  by (auto simp: moves_def link_monitored_def link_level_def)

text \<open>Without a report only the levels of pins that are not monitored may change.\<close>

lemma quiet_moves:
  assumes "b_config s' = b_config s" "last_seq s' = last_seq s"
    and "\<not> b_overflow s' \<Longrightarrow> \<not> b_overflow s \<and> (\<forall>n < 30. is_monitored (b_config s ! n) \<longrightarrow>
      bit (b_levels s') n = bit (b_levels s) n)"
  shows "moves [] (board_link s []) (board_link s' [])"
  using assms by (auto simp: moves_def link_monitored_def link_level_board)

text \<open>A report that is sent has the next number and shows the board.\<close>

lemma send_moves:
  assumes "wf_config (b_config s)" "length evs \<le> 7" "\<forall>e \<in> set evs. unat (ev_gpio e) < 32"
    and "\<not> flags_contains rr HOST_REQUEST" "last_seq t \<noteq> 0 \<Longrightarrow> next_seq s = last_seq t + 1"
    and "b_config s = b_config t \<or> flags_contains rr CONFIG_CHANGED" "send rr evs s hs = Some (s', hs')"
  shows "handles s' = handles s \<and> powered s' = powered s \<and>
    (\<exists>d. hs' = fold (push_report d) (handles s) hs \<and> moves [decoded d] (board_link t []) (board_link s' [decoded d]))"
proof -
  let ?r = "sent_report s rr evs"
  have r: "seq ?r = next_seq s" "sr_reason ?r = rr" "monitored ?r = monitored_mask (b_config s)" "levels ?r = b_levels s"
    by (simp_all add: sent_report_def fake_status_def)
  obtain p where p: "encode_status ?r = Inr p" "s' = after_send s"
    "hs' = fold (push_report (REPORT_ID_STATUS # p)) (handles s) hs"
    using send_Some [OF assms(2), of s rr hs] assms(7) by auto
  have "status_encodable ?r"
    using assms(2,3) by (simp add: status_encodable_def sent_report_def fake_status_def)
  then have d: "decoded (REPORT_ID_STATUS # p) = ?r"
    using decode_encode_status p(1) by (fastforce simp: decoded_def)
  have "shows_pins ?r (board_link s' [?r])"
    using r p(2) by (simp add: shows_pins_def link_monitored_def link_level_board sr_is_monitored_def sr_level_def
        bit_monitored_mask [OF assms(1)])
  then have "moves [?r] (board_link t []) (board_link s' [?r])"
    using r assms(4-6) p(2) by (auto simp: moves_def solicited_def config_news_def)
  then show ?thesis using p(2,3) d by (intro conjI exI [of _ "REPORT_ID_STATUS # p"]) simp_all
qed

text \<open>An operation that does nothing a watcher could miss.\<close>

definition linked_op :: "board_op \<Rightarrow> bool" where
  "linked_op f \<longleftrightarrow> (\<forall>s hs s' hs'. board_ok s \<longrightarrow> f s hs = Some (s', hs') \<longrightarrow>
     handles s' = handles s \<and> powered s' = powered s \<and>
     (hs' = hs \<and> moves [] (board_link s []) (board_link s' []) \<or>
      (\<exists>d. hs' = fold (push_report d) (handles s) hs \<and> moves [decoded d] (board_link s []) (board_link s' [decoded d]))))"

lemma linkedI:
  assumes "\<And>s hs s' hs'. board_ok s \<Longrightarrow> f s hs = Some (s', hs') \<Longrightarrow>
    handles s' = handles s \<and> powered s' = powered s \<and>
    (hs' = hs \<and> moves [] (board_link s []) (board_link s' []) \<or>
     (\<exists>d. hs' = fold (push_report d) (handles s) hs \<and> moves [decoded d] (board_link s []) (board_link s' [decoded d])))"
  shows "linked_op f"
  using assms unfolding linked_op_def by blast

lemma next_of_last: "board_ok s \<Longrightarrow> last_seq s \<noteq> 0 \<Longrightarrow> next_seq s = last_seq s + 1"
  using board_okD(4) [of s] by auto

lemmas reason_flags = flags_contains_def HOST_REQUEST_def CONFIG_CHANGED_def PERIODIC_def LEVEL_CHANGED_def
  OUTPUT_RESET_def OUTPUT_APPLIED_def

lemma linked_periodic: "linked_op periodic"
proof (rule linkedI)
  fix s hs s' hs'
  assume s: "board_ok s" "periodic s hs = Some (s', hs')"
  then have "send PERIODIC [] s hs = Some (s', hs')" by (simp add: periodic_def)
  from send_moves [OF board_okD(1) [OF s(1)] _ _ _ next_of_last [OF s(1)] _ this]
  show "handles s' = handles s \<and> powered s' = powered s \<and>
    (hs' = hs \<and> moves [] (board_link s []) (board_link s' []) \<or>
     (\<exists>d. hs' = fold (push_report d) (handles s) hs \<and> moves [decoded d] (board_link s []) (board_link s' [decoded d])))"
    by (simp add: reason_flags)
qed

lemma linked_drive: "linked_op (drive_outputs m v)"
proof (rule linkedI)
  fix s hs s' hs'
  assume s: "board_ok s" "drive_outputs m v s hs = Some (s', hs')"
  let ?m = "m AND outputs_mask (b_config s)"
  let ?t = "s\<lparr>b_levels := with_bit (b_levels s) ?m (v AND ?m)\<rparr>"
  have "send OUTPUT_APPLIED [] ?t hs = Some (s', hs')" using s(2) by (simp add: drive_outputs_def Let_def)
  from send_moves [OF _ _ _ _ _ _ this, of s] board_okD(1) [OF s(1)] next_of_last [OF s(1)]
  show "handles s' = handles s \<and> powered s' = powered s \<and>
    (hs' = hs \<and> moves [] (board_link s []) (board_link s' []) \<or>
     (\<exists>d. hs' = fold (push_report d) (handles s) hs \<and> moves [decoded d] (board_link s []) (board_link s' [decoded d])))"
    by (simp add: reason_flags)
qed

lemma linked_set_input:
  assumes "unat g < 30"
  shows "linked_op (set_input g high)"
proof (rule linkedI)
  fix s hs s' hs'
  assume s: "board_ok s" "set_input g high s hs = Some (s', hs')"
  note eq = set_input_eq [OF board_okD(1) [OF s(1)] assms, of high hs]
  show "handles s' = handles s \<and> powered s' = powered s \<and>
    (hs' = hs \<and> moves [] (board_link s []) (board_link s' []) \<or>
     (\<exists>d. hs' = fold (push_report d) (handles s) hs \<and> moves [decoded d] (board_link s []) (board_link s' [decoded d])))"
  proof (cases "powered s \<and> is_monitored (b_config s ! unat g) \<and> bit (b_levels s) (unat g) \<noteq> high")
    case True
    have "send LEVEL_CHANGED [\<lparr>ev_gpio = g, ev_level = high, age_us = ucast (param (b_config s ! unat g)) * 1000\<rparr>]
        (followed g high s) hs = Some (s', hs')"
      using s(2) eq True by simp
    from send_moves [OF _ _ _ _ _ _ this, of s] board_okD(1) [OF s(1)] next_of_last [OF s(1)] assms
    show ?thesis by (simp add: reason_flags)
  next
    case False
    then have "s' = moved g high s" "hs' = hs" using s(2) eq by auto
    then show ?thesis by (auto intro!: quiet_moves simp: moved_def)
  qed
qed

lemma linked_lose_input:
  assumes "unat g < 30"
  shows "linked_op (lose_input g high)"
proof (rule linkedI)
  fix s hs s' hs'
  assume s: "board_ok s" "lose_input g high s hs = Some (s', hs')"
  then have "hs' = hs" "s' = (if is_monitored (b_config s ! unat g) then (followed g high s)\<lparr>b_overflow := True\<rparr>
      else moved g high s)"
    using lose_input_eq [OF board_okD(1) [OF s(1)] assms, of high hs] by auto
  then show "handles s' = handles s \<and> powered s' = powered s \<and>
    (hs' = hs \<and> moves [] (board_link s []) (board_link s' []) \<or>
     (\<exists>d. hs' = fold (push_report d) (handles s) hs \<and> moves [decoded d] (board_link s []) (board_link s' [decoded d])))"
    by (auto intro!: quiet_moves simp: moved_def)
qed

lemma linked_suspend: "linked_op suspend"
proof (rule linkedI)
  fix s hs s' hs'
  assume s: "board_ok s" "suspend s hs = Some (s', hs')"
  let ?t = "snd (reset_outputs s)"
  have t: "b_config ?t = b_config s" "last_seq ?t = last_seq s" "next_seq ?t = next_seq s" "b_overflow ?t = b_overflow s"
    "handles ?t = handles s" "powered ?t = powered s" "b_levels ?t = reset_levels (b_config s) (b_levels s)"
    by (simp_all add: reset_outputs_def)
  show "handles s' = handles s \<and> powered s' = powered s \<and>
    (hs' = hs \<and> moves [] (board_link s []) (board_link s' []) \<or>
     (\<exists>d. hs' = fold (push_report d) (handles s) hs \<and> moves [decoded d] (board_link s []) (board_link s' [decoded d])))"
  proof (cases "outputs_mask (b_config s) = 0")
    case True
    then have e: "s' = ?t" "hs' = hs" using s(2) by (simp_all add: suspend_def reset_outputs_def)
    have "moves [] (board_link s []) (board_link ?t [])"
      using t is_monitored_not_output
      by (intro quiet_moves) (auto simp: bit_reset_levels [OF board_okD(1) [OF s(1)]])
    then show ?thesis using e t by simp
  next
    case False
    then have "send OUTPUT_RESET [] ?t hs = Some (s', hs')" using s(2) by (simp add: suspend_def reset_outputs_def)
    from send_moves [OF _ _ _ _ _ _ this, of s] t board_okD(1) [OF s(1)] next_of_last [OF s(1)]
    show ?thesis by (simp add: reason_flags)
  qed
qed

lemma linked_write_config: "linked_op (write_config payload)"
proof (rule linkedI)
  fix s hs s' hs'
  assume s: "board_ok s" "write_config payload s hs = Some (s', hs')"
  obtain res g rid where v: "validate_pin_config_payload payload (available (b_info s)) = (res, g, rid)"
    by (metis prod_cases3)
  let ?s = "s\<lparr>b_result := res, b_result_gpio := g, b_request_id := rid\<rparr>"
  have same: "moves [] (board_link s []) (board_link ?s [])" by (rule quiet_moves) simp_all
  show "handles s' = handles s \<and> powered s' = powered s \<and>
    (hs' = hs \<and> moves [] (board_link s []) (board_link s' []) \<or>
     (\<exists>d. hs' = fold (push_report d) (handles s) hs \<and> moves [decoded d] (board_link s []) (board_link s' [decoded d])))"
  proof (cases "res = RESULT_OK \<and> (\<forall>r. decode_pin_config payload = Inr r \<longrightarrow> pcr_config r \<noteq> b_config s)")
    case False
    then have "s' = ?s" "hs' = hs"
      using s(2) v by (auto simp: write_config_def Let_def split: if_splits sum.splits)
    then show ?thesis using same by simp
  next
    case True
    then obtain r where r: "decode_pin_config payload = Inr r" "pcr_config r \<noteq> b_config s"
      using s(2) v by (auto simp: write_config_def Let_def split: sum.splits)
    let ?t = "?s\<lparr>b_levels := levels_after (b_config s) (pcr_config r) (inputs s) (b_levels s), b_config := pcr_config r\<rparr>"
    have "send CONFIG_CHANGED [] ?t hs = Some (s', hs')" using s(2) v r True by (simp add: write_config_def)
    from send_moves [OF _ _ _ _ _ _ this, of s] decode_pin_config_fields(2) [OF r(1)] next_of_last [OF s(1)]
    show ?thesis by (simp add: reason_flags)
  qed
qed

section \<open>The world\<close>

text \<open>A board with a handle, and one on the bus, has power.\<close>

definition linked_world :: "fake_world \<Rightarrow> bool" where
  "linked_world w \<longleftrightarrow> world_ok w \<and>
     (\<forall>b < length (fw_boards w). handles (state_of b w) \<noteq> [] \<longrightarrow> powered (state_of b w)) \<and>
     (\<forall>b \<in> set (bus_boards w). powered (state_of b w))"

text \<open>What an open handle with room in its queue sees of its board.\<close>

definition fake_obs :: "handle \<Rightarrow> fake_world \<Rightarrow> link option" where
  "fake_obs h w =
     (if h < length (fw_handles w) \<and> handle_live (fw_handles w ! h) \<and> length (reports (fw_handles w ! h)) < QUEUE_LEN
      then Some (board_link (board_of h w) (map decoded (reports (fw_handles w ! h)))) else None)"

definition roomy :: "fake_world \<Rightarrow> bool" where
  "roomy w \<longleftrightarrow> (\<forall>h < length (fw_handles w). length (reports (fw_handles w ! h)) < QUEUE_LEN)"

text \<open>How the world may change between two reads.\<close>

definition fake_moves :: "fake_world \<Rightarrow> fake_world \<Rightarrow> bool" where
  "fake_moves u w \<longleftrightarrow> (linked_world u \<longrightarrow> linked_world w \<and> length (fw_handles u) \<le> length (fw_handles w) \<and>
     (\<forall>h < length (fw_handles u). \<forall>k'. fake_obs h w = Some k' \<longrightarrow>
       (\<exists>k rs. fake_obs h u = Some k \<and> moves rs k k')))"

lemma fake_moves_refl: "fake_moves w w"
  using moves_refl by (auto simp: fake_moves_def)

lemma fake_moves_trans:
  assumes "fake_moves u v" "fake_moves v w"
  shows "fake_moves u w"
  unfolding fake_moves_def
proof (intro impI conjI allI)
  assume u: "linked_world u"
  then have v: "linked_world v" "length (fw_handles u) \<le> length (fw_handles v)" using assms(1) by (auto simp: fake_moves_def)
  show "linked_world w" "length (fw_handles u) \<le> length (fw_handles w)" using assms(2) v by (auto simp: fake_moves_def)
  fix h k'
  assume h: "h < length (fw_handles u)" "fake_obs h w = Some k'"
  from h(1) v(2) have "h < length (fw_handles v)" by simp
  then obtain k1 rs' where 1: "fake_obs h v = Some k1" "moves rs' k1 k'"
    using assms(2) v(1) h(2) unfolding fake_moves_def by blast
  then obtain k rs where "fake_obs h u = Some k" "moves rs k k1"
    using assms(1) u h(1) unfolding fake_moves_def by blast
  then show "\<exists>k rs. fake_obs h u = Some k \<and> moves rs k k'" using 1(2) moves_trans by blast
qed

text \<open>A new state of one board, with the handles of the others as they were.\<close>

lemma linked_set:
  assumes "linked_world w" "b < length (fw_boards w)" "world_ok (set_board b s hs w)"
    and "handles s \<noteq> [] \<Longrightarrow> powered s" "b \<in> set (bus_boards w) \<Longrightarrow> powered s"
  shows "linked_world (set_board b s hs w)"
  using assms by (auto simp: linked_world_def state_of_set_board)

lemma moves_set:
  assumes "b < length (fw_boards w)" "length (fw_handles w) \<le> length hs"
    and "\<And>h. h < length (fw_handles w) \<Longrightarrow> fh_board (fw_handles w ! h) \<noteq> b \<Longrightarrow> hs ! h = fw_handles w ! h"
    and "\<And>h. h < length (fw_handles w) \<Longrightarrow> fh_board (fw_handles w ! h) = b \<Longrightarrow>
      handle_live (hs ! h) \<Longrightarrow> length (reports (hs ! h)) < QUEUE_LEN \<Longrightarrow> fh_board (hs ! h) = b \<and>
      handle_live (fw_handles w ! h) \<and> (\<exists>ds. reports (hs ! h) = reports (fw_handles w ! h) @ ds \<and>
        moves (map decoded ds) (board_link (state_of b w) []) (board_link s (map decoded ds)))"
    and "h < length (fw_handles w)" "fake_obs h (set_board b s hs w) = Some k'"
  shows "\<exists>k rs. fake_obs h w = Some k \<and> moves rs k k'"
proof -
  have h: "handle_live (hs ! h)" "length (reports (hs ! h)) < QUEUE_LEN"
    using assms(6) by (simp_all add: fake_obs_def split: if_splits)
  show ?thesis
  proof (cases "fh_board (fw_handles w ! h) = b")
    case True
    obtain ds where d: "reports (hs ! h) = reports (fw_handles w ! h) @ ds"
      "moves (map decoded ds) (board_link (state_of b w) []) (board_link s (map decoded ds))"
      "fh_board (hs ! h) = b" "handle_live (fw_handles w ! h)"
      using assms(4) [OF assms(5) True h] by blast
    have "moves (map decoded ds) (board_link (state_of b w) (map decoded (reports (fw_handles w ! h))))
        (board_link s (map decoded (reports (fw_handles w ! h)) @ map decoded ds))"
      by (rule moves_queue [OF d(2)])
    then show ?thesis
      using d h assms(1,2,5,6) True by (auto simp: fake_obs_def board_of_def state_of_set_board)
  next
    case False
    then show ?thesis
      using assms(1,2,5,6) assms(3) [OF assms(5) False] h moves_refl
      by (auto simp: fake_obs_def board_of_def state_of_set_board)
  qed
qed

lemma linked_board:
  assumes "linked_world w" "b < length (fw_boards w)"
  shows "world_ok w" "board_ok (state_of b w)" "handles (state_of b w) \<noteq> [] \<Longrightarrow> powered (state_of b w)"
    "b \<in> set (bus_boards w) \<Longrightarrow> powered (state_of b w)"
  using assms world_boardD(1) by (auto simp: linked_world_def)

text \<open>The handles after a report was sent, or none.\<close>

lemma moves_pushed:
  assumes "linked_world w" "b < length (fw_boards w)" "handles s = handles (state_of b w)"
    and "hs = fw_handles w \<and> moves [] (board_link (state_of b w) []) (board_link s []) \<or>
      (\<exists>d. hs = fold (push_report d) (handles (state_of b w)) (fw_handles w) \<and>
        moves [decoded d] (board_link (state_of b w) []) (board_link s [decoded d]))"
    and "h < length (fw_handles w)" "fake_obs h (set_board b s hs w) = Some k'"
  shows "\<exists>k rs. fake_obs h w = Some k \<and> moves rs k k'"
proof (rule moves_set [OF assms(2) _ _ _ assms(5,6)])
  note ok = linked_board(1) [OF assms(1,2)]
  note ks = world_boardD(2,3) [OF ok assms(2)]
  show "length (fw_handles w) \<le> length hs" using assms(4) by auto
  show "hs ! g = fw_handles w ! g" if "g < length (fw_handles w)" "fh_board (fw_handles w ! g) \<noteq> b" for g
    using assms(4) nth_push [OF ks(1) that(1)] ks(2) [of g] that(2) by auto
  show "fh_board (hs ! g) = b \<and> handle_live (fw_handles w ! g) \<and> (\<exists>ds. reports (hs ! g) = reports (fw_handles w ! g) @ ds \<and>
      moves (map decoded ds) (board_link (state_of b w) []) (board_link s (map decoded ds)))"
    if g: "g < length (fw_handles w)" "fh_board (fw_handles w ! g) = b"
      and live: "handle_live (hs ! g)" "length (reports (hs ! g)) < QUEUE_LEN" for g
    using assms(4)
  proof
    assume "hs = fw_handles w \<and> moves [] (board_link (state_of b w) []) (board_link s [])"
    then show ?thesis using g live by (intro conjI exI [of _ "[]"]) simp_all
  next
    assume "\<exists>d. hs = fold (push_report d) (handles (state_of b w)) (fw_handles w) \<and>
      moves [decoded d] (board_link (state_of b w) []) (board_link s [decoded d])"
    then obtain d where d: "hs = fold (push_report d) (handles (state_of b w)) (fw_handles w)"
      "moves [decoded d] (board_link (state_of b w) []) (board_link s [decoded d])" by blast
    note n = nth_push [OF ks(1) g(1), of d]
    have alive: "handle_live (fw_handles w ! g)"
      using live(1) unfolding d(1) n by (auto simp: handle_live_def split: if_splits)
    then have "g \<in> set (handles (state_of b w))" using world_handleD(3) [OF ok g(1)] g(2) by simp
    then have "hs ! g = (fw_handles w ! g)\<lparr>reports := reports (fw_handles w ! g) @ [d]\<rparr>"
      using live(2) n unfolding d(1) by (simp add: QUEUE_LEN_def split: if_splits)
    then show ?thesis using d(2) g(2) alive by (intro conjI exI [of _ "[d]"]) simp_all
  qed
qed

lemma moves_op:
  assumes "linked_op f" "safe_op f" "b < length (fw_boards w)" "on_board b f w = Some w'"
  shows "fake_moves w w'"
  unfolding fake_moves_def
proof (intro impI)
  assume w: "linked_world w"
  note b = linked_board [OF w assms(3)]
  obtain s hs where f: "f (state_of b w) (fw_handles w) = Some (s, hs)" "w' = set_board b s hs w"
    using assms(4) by (auto simp: on_board_def split: option.splits)
  have l: "handles s = handles (state_of b w) \<and> powered s = powered (state_of b w) \<and>
    (hs = fw_handles w \<and> moves [] (board_link (state_of b w) []) (board_link s []) \<or>
      (\<exists>d. hs = fold (push_report d) (handles (state_of b w)) (fw_handles w) \<and>
        moves [decoded d] (board_link (state_of b w) []) (board_link s [decoded d])))"
    using assms(1) b(2) f(1) unfolding linked_op_def by blast
  have "world_ok w'" using safe_step [OF assms(2) b(1) assms(3,4)] .
  then have "linked_world w'" unfolding f(2) by (intro linked_set [OF w assms(3)]) (use l b in auto)
  moreover have "length (fw_handles w) \<le> length (fw_handles w')" using l f(2) by auto
  moreover have "\<exists>k rs. fake_obs h w = Some k \<and> moves rs k k'"
    if "h < length (fw_handles w)" "fake_obs h w' = Some k'" for h k'
    using moves_pushed [OF w assms(3) _ _ that(1)] l that(2) f(2) by blast
  ultimately show "linked_world w' \<and> length (fw_handles w) \<le> length (fw_handles w') \<and>
     (\<forall>h < length (fw_handles w). \<forall>k'. fake_obs h w' = Some k' \<longrightarrow> (\<exists>k rs. fake_obs h w = Some k \<and> moves rs k k'))"
    by blast
qed

text \<open>A change of one board that its watchers do not see, or that ends their handles.\<close>

lemma moves_quiet:
  assumes "linked_world w \<Longrightarrow> linked_world (set_board b s hs w)" "b < length (fw_boards w)"
    and "length (fw_handles w) \<le> length hs"
    and "\<And>h. linked_world w \<Longrightarrow> h < length (fw_handles w) \<Longrightarrow> fh_board (fw_handles w ! h) \<noteq> b \<Longrightarrow> hs ! h = fw_handles w ! h"
    and "\<And>h. linked_world w \<Longrightarrow> h < length (fw_handles w) \<Longrightarrow> fh_board (fw_handles w ! h) = b \<Longrightarrow> handle_live (hs ! h) \<Longrightarrow>
      hs ! h = fw_handles w ! h \<and> board_link s [] = board_link (state_of b w) []"
  shows "fake_moves w (set_board b s hs w)"
  unfolding fake_moves_def
proof (intro impI conjI allI)
  assume w: "linked_world w"
  show "linked_world (set_board b s hs w)" by (rule assms(1) [OF w])
  show "length (fw_handles w) \<le> length (fw_handles (set_board b s hs w))" using assms(3) by simp
  fix h k'
  assume h: "h < length (fw_handles w)" "fake_obs h (set_board b s hs w) = Some k'"
  show "\<exists>k rs. fake_obs h w = Some k \<and> moves rs k k'"
  proof (rule moves_set [OF assms(2,3) _ _ h])
    show "hs ! g = fw_handles w ! g" if "g < length (fw_handles w)" "fh_board (fw_handles w ! g) \<noteq> b" for g
      using assms(4) [OF w that] .
    show "fh_board (hs ! g) = b \<and> handle_live (fw_handles w ! g) \<and> (\<exists>ds. reports (hs ! g) = reports (fw_handles w ! g) @ ds \<and>
        moves (map decoded ds) (board_link (state_of b w) []) (board_link s (map decoded ds)))"
      if "g < length (fw_handles w)" "fh_board (fw_handles w ! g) = b" "handle_live (hs ! g)" for g
      using assms(5) [OF w that] that moves_refl by (intro conjI exI [of _ "[]"]) simp_all
  qed
qed

lemma moves_state:
  assumes "b < length (fw_boards w)" "linked_world w \<Longrightarrow> world_ok (set_board b s (fw_handles w) w)"
    and "handles s = handles (state_of b w)" "powered s = powered (state_of b w)" "board_link s [] = board_link (state_of b w) []"
  shows "fake_moves w (set_board b s (fw_handles w) w)"
proof (rule moves_quiet [OF _ assms(1)])
  assume w: "linked_world w"
  show "linked_world (set_board b s (fw_handles w) w)"
    by (rule linked_set [OF w assms(1) assms(2) [OF w]]) (use linked_board [OF w assms(1)] assms(3,4) in auto)
qed (use assms(5) in simp_all)

lemma linked_bus:
  "world_ok (w\<lparr>bus_boards := bs\<rparr>) \<Longrightarrow> linked_world w \<Longrightarrow> set bs \<subseteq> set (bus_boards w) \<union> {b. powered (state_of b w)} \<Longrightarrow>
    linked_world (w\<lparr>bus_boards := bs\<rparr>)"
  by (auto simp: linked_world_def state_of_def)

lemma obs_irrelevant [simp]:
  "fake_obs h (w\<lparr>bus_boards := x1\<rparr>) = fake_obs h w" "fake_obs h (w\<lparr>bus_nodes := x2\<rparr>) = fake_obs h w"
  "fake_obs h (w\<lparr>fw_time := x3\<rparr>) = fake_obs h w"
  by (simp_all add: fake_obs_def board_of_def state_of_def)

lemma linked_irrelevant [simp]:
  "linked_world (w\<lparr>bus_nodes := n\<rparr>) = linked_world w"
  "linked_world (w\<lparr>bus_nodes := n, bus_boards := bs\<rparr>) = linked_world (w\<lparr>bus_boards := bs\<rparr>)"
 "linked_world (w\<lparr>fw_time := t\<rparr>) = linked_world w"
  by (simp_all add: linked_world_def state_of_def world_ok_def)

lemma fake_moves_then:
  assumes "fake_moves u v" "linked_world u \<Longrightarrow> linked_world v \<Longrightarrow> linked_world w" "fw_handles w = fw_handles v"
    and "\<And>h. fake_obs h w = fake_obs h v"
  shows "fake_moves u w"
  using assms by (simp add: fake_moves_def)

lemma moves_time: "fake_moves w (w\<lparr>fw_time := t\<rparr>)"
  by (rule fake_moves_then [OF fake_moves_refl]) simp_all

lemma moves_make: "fake_moves w (make_board serial w)"
  unfolding fake_moves_def
proof (intro impI conjI allI)
  assume w: "linked_world w"
  have st: "state_of b (make_board serial w) = (if b < length (fw_boards w) then state_of b w else new_state)"
    if "b < Suc (length (fw_boards w))" for b
    using that by (auto simp: state_of_def make_board_def nth_append fake_board_new_def)
  have ok: "world_ok w" using w by (simp add: linked_world_def)
  have f: "fw_handles (make_board serial w) = fw_handles w" "bus_boards (make_board serial w) = bus_boards w"
    "length (fw_boards (make_board serial w)) = Suc (length (fw_boards w))" by (simp_all add: make_board_def)
  have "\<forall>b \<in> set (bus_boards w). b < length (fw_boards w)" using ok by (simp add: world_ok_def)
  then show "linked_world (make_board serial w)"
    using w world_ok_make [OF ok] st by (auto simp: linked_world_def f new_state_def less_Suc_eq)
  show "length (fw_handles w) \<le> length (fw_handles (make_board serial w))" by (simp add: f)
  fix h k'
  assume h: "h < length (fw_handles w)" "fake_obs h (make_board serial w) = Some k'"
  have "fh_board (fw_handles w ! h) < length (fw_boards w)" using world_handleD(2) [OF ok h(1)] .
  then have "board_of h (make_board serial w) = board_of h w" using st by (simp add: board_of_def f)
  then have "fake_obs h w = Some k'" using h(2) by (simp add: fake_obs_def f split: if_splits)
  then show "\<exists>k rs. fake_obs h w = Some k \<and> moves rs k k'" using moves_refl by blast
qed

lemma moves_plug:
  assumes "b < length (fw_boards w)"
  shows "fake_moves w (plug b w)"
proof -
  let ?s = "plug_board (''/dev/hidraw'' @ show_nat (bus_nodes w)) (state_of b w)"
  let ?w = "set_board b ?s (fw_handles w) w"
  have s: "handles ?s = handles (state_of b w)" "powered ?s"
    by (simp_all add: plug_board_def Let_def)
  have plug: "plug b w = ?w\<lparr>bus_nodes := bus_nodes w + 1, bus_boards := bus_boards ?w @ [b]\<rparr>"
    by (simp add: plug_def Let_def set_board_def)
  have ok: "world_ok ?w" if "linked_world w"
    using world_ok_plug [OF linked_board(1) [OF that assms] assms] ok_plug [OF linked_board(2) [OF that assms]]
      linked_board(1) [OF that assms] by (intro world_ok_state assms s(1)) simp_all
  have "fake_moves w ?w"
  proof (rule moves_quiet [OF _ assms])
    show "linked_world ?w" if "linked_world w"
      by (rule linked_set [OF that assms ok [OF that]]) (use s in simp_all)
    fix h
    assume w: "linked_world w" and h: "h < length (fw_handles w)" "fh_board (fw_handles w ! h) = b" "handle_live (fw_handles w ! h)"
    have "h \<in> set (handles (state_of b w))" using world_handleD(3) [OF linked_board(1) [OF w assms] h(1)] h(2,3) by simp
    then have "powered (state_of b w)" using linked_board(3) [OF w assms] by force
    then show "fw_handles w ! h = fw_handles w ! h \<and> board_link ?s [] = board_link (state_of b w) []"
      by (simp add: plug_board_def board_link_def)
  qed simp_all
  then show ?thesis
  proof (rule fake_moves_then)
    assume w: "linked_world w" "linked_world ?w"
    have "linked_world (?w\<lparr>bus_boards := bus_boards ?w @ [b]\<rparr>)"
    proof (rule linked_bus [OF _ w(2)])
      have "set (bus_boards ?w) \<subseteq> {..<length (fw_boards ?w)}" using ok [OF w(1)] by (auto simp: world_ok_def)
      then show "world_ok (?w\<lparr>bus_boards := bus_boards ?w @ [b]\<rparr>)" using ok [OF w(1)] assms by (intro world_ok_bus) auto
    qed (use s(2) assms in \<open>auto simp: state_of_set_board\<close>)
    then show "linked_world (plug b w)" unfolding plug by simp
  qed (simp_all add: plug)
qed

text \<open>Unplugging and resetting end every handle of the board.\<close>

lemma moves_fail:
  assumes "b < length (fw_boards w)" "linked_world w \<Longrightarrow> linked_world (set_board b s (fold fail_handle (handles (state_of b w)) (fw_handles w)) w)"
  shows "fake_moves w (set_board b s (fold fail_handle (handles (state_of b w)) (fw_handles w)) w)"
proof (rule moves_quiet [OF assms(2) assms(1)])
  show "length (fw_handles w) \<le> length (fold fail_handle (handles (state_of b w)) (fw_handles w))"
    unfolding length_fail by (rule order_refl)
  fix h
  assume w: "linked_world w" and h: "h < length (fw_handles w)"
  note ok = linked_board(1) [OF w assms(1)]
  show "fold fail_handle (handles (state_of b w)) (fw_handles w) ! h = fw_handles w ! h"
    if "fh_board (fw_handles w ! h) \<noteq> b"
    using world_boardD(3) [OF ok assms(1), of h] that h by (auto simp: nth_fail)
  show "fold fail_handle (handles (state_of b w)) (fw_handles w) ! h = fw_handles w ! h \<and>
      board_link s [] = board_link (state_of b w) []"
    if b: "fh_board (fw_handles w ! h) = b" and live: "handle_live (fold fail_handle (handles (state_of b w)) (fw_handles w) ! h)"
  proof -
    have "h \<notin> set (handles (state_of b w))" "handle_live (fw_handles w ! h)"
      using live h by (auto simp: nth_fail handle_live_def split: if_splits)
    then show ?thesis using world_handleD(3) [OF ok h] b by simp
  qed
qed

lemma moves_unplug:
  assumes "b < length (fw_boards w)"
  shows "fake_moves w (unplug b w)"
proof -
  let ?hs = "fold fail_handle (handles (state_of b w)) (fw_handles w)"
  let ?s = "(state_of b w)\<lparr>handles := [], powered := False, b_path := []\<rparr>"
  let ?w = "w\<lparr>bus_boards := filter (\<lambda>b'. b' \<noteq> b) (bus_boards w)\<rparr>"
  have e: "unplug b w = set_board b ?s ?hs ?w" by (simp add: unplug_def unplug_board_def fail_handles_def)
  have st: "state_of x ?w = state_of x w" for x by (simp add: state_of_def)
  have 1: "fake_moves w ?w"
  proof (rule fake_moves_then [OF fake_moves_refl])
    assume w: "linked_world w"
    then have "world_ok ?w" by (intro world_ok_bus) (auto simp: linked_world_def world_ok_def)
    then show "linked_world ?w" by (rule linked_bus [OF _ w]) auto
  qed simp_all
  have 2: "fake_moves ?w (set_board b ?s (fold fail_handle (handles (state_of b ?w)) (fw_handles ?w)) ?w)"
  proof (rule moves_fail)
    assume w: "linked_world ?w"
    have "world_ok (set_board b (fst (unplug_board (state_of b w) (fw_handles w))) ?hs ?w)"
      using world_ok_set [OF linked_board(1) [OF w], of b] handles_fail [OF linked_board(1) [OF w], of b] assms
        ok_unplug [OF linked_board(2) [OF w], of b "fw_handles w"]
      by (simp add: unplug_board_def fail_handles_def st)
    then have "world_ok (set_board b ?s ?hs ?w)" by (simp add: unplug_board_def fail_handles_def)
    then show "linked_world (set_board b ?s (fold fail_handle (handles (state_of b ?w)) (fw_handles ?w)) ?w)"
      using linked_set [OF w, of b ?s ?hs] assms by (simp add: st)
  qed (use assms in simp)
  have "fw_handles ?w = fw_handles w" by simp
  then show ?thesis using fake_moves_trans [OF 1 2] by (simp only: e st)
qed

lemma moves_reenumerate:
  assumes "b < length (fw_boards w)"
  shows "fake_moves w (case reenumerate (state_of b w) (fw_handles w) of (s, hs) \<Rightarrow> set_board b s hs w)"
proof -
  let ?s = "snd (reset_outputs ((state_of b w)\<lparr>handles := []\<rparr>))"
  have e: "(case reenumerate (state_of b w) (fw_handles w) of (s, hs) \<Rightarrow> set_board b s hs w) =
      set_board b ?s (fold fail_handle (handles (state_of b w)) (fw_handles w)) w"
    by (simp add: reenumerate_def fail_handles_def)
  show ?thesis
    unfolding e
  proof (rule moves_fail [OF assms])
    assume w: "linked_world w"
    show "linked_world (set_board b ?s (fold fail_handle (handles (state_of b w)) (fw_handles w)) w)"
      by (rule linked_set [OF w assms]) (use world_ok_reenumerate [OF linked_board(1) [OF w assms] assms]
          linked_board(4) [OF w assms] in \<open>simp_all add: e reset_outputs_def\<close>)
  qed
qed

section \<open>Handles and tests\<close>

lemma moves_open:
  assumes "bus_open entry w = (r, w')"
  shows "fake_moves w w' \<and> (linked_world w \<longrightarrow> (\<forall>h. r = Inr h \<longrightarrow> h < length (fw_handles w') \<and>
    (\<forall>k. fake_obs h w' = Some k \<longrightarrow> lk_queue k = [])))"
proof (cases "find (\<lambda>b. b_path (state_of b w) = de_path entry) (bus_boards w)")
  case None
  then show ?thesis using assms fake_moves_refl by (auto simp: bus_open_def)
next
  case (Some b)
  then have bus: "b \<in> set (bus_boards w)" by (auto simp: find_Some_iff)
  show ?thesis
  proof (cases "linked_world w")
    case False
    then show ?thesis by (simp add: fake_moves_def)
  next
    case w: True
    have b: "b < length (fw_boards w)" using w bus by (auto simp: linked_world_def world_ok_def)
    note lb = linked_board [OF w b]
    show ?thesis
    proof (cases "open_error (state_of b w)")
      case err: (Some k)
      have "fake_moves w (set_board b (state_of b w) (fw_handles w) w)"
        by (rule moves_state [OF b]) (use world_ok_state [OF lb(1) b lb(2)] in simp_all)
      then show ?thesis using assms Some err by (auto simp: bus_open_def open_board_def)
    next
      case None
      let ?s = "(state_of b w)\<lparr>handles := handles (state_of b w) @ [length (fw_handles w)]\<rparr>"
      let ?hs = "fw_handles w @ [\<lparr>fh_board = b, reports = [], closed = False, gone_away = False\<rparr>]"
      have e: "r = Inr (length (fw_handles w))" "w' = set_board b ?s ?hs w"
        using assms Some None by (simp_all add: bus_open_def open_board_def)
      have "world_ok w'" using world_ok_open [OF lb(1) assms] by simp
      then have "fake_moves w w'"
        unfolding e(2)
        by (intro moves_quiet [OF _ b] linked_set [OF _ b]) (use w lb(4) bus in \<open>simp_all add: nth_append board_link_def\<close>)
      moreover have "lk_queue k = []" if "fake_obs (length (fw_handles w)) w' = Some k" for k
        using that by (auto simp: fake_obs_def e(2) split: if_splits)
      ultimately show ?thesis using e by simp
    qed
  qed
qed

lemma moves_drop:
  assumes "h < length (fw_handles w)"
  shows "fake_moves w (handle_drop h w)"
proof (cases "linked_world w")
  case False
  then show ?thesis by (simp add: fake_moves_def)
next
  case w: True
  let ?b = "fh_board (fw_handles w ! h)"
  let ?s = "(state_of ?b w)\<lparr>handles := filter (\<lambda>h'. h' \<noteq> h) (handles (state_of ?b w))\<rparr>"
  let ?hs = "(fw_handles w)[h := (fw_handles w ! h)\<lparr>closed := True\<rparr>]"
  have ok: "world_ok w" using w by (simp add: linked_world_def)
  note b = world_handleD(2) [OF ok assms]
  have e: "handle_drop h w = set_board ?b ?s ?hs w" by (simp add: handle_drop_def Let_def)
  have "filter (\<lambda>h'. h' \<noteq> h) ks \<noteq> [] \<Longrightarrow> ks \<noteq> []" for ks by (cases ks) simp_all
  then have "linked_world (set_board ?b ?s ?hs w)"
    using linked_set [OF w b, of ?s ?hs] world_ok_drop [OF ok assms] linked_board(3,4) [OF w b]
    by (simp add: e)
  moreover have nth: "?hs ! g = (if h = g then (fw_handles w ! h)\<lparr>closed := True\<rparr> else fw_handles w ! g)"
    if "g < length (fw_handles w)" for g
    using assms by (simp add: nth_list_update)
  ultimately show ?thesis
    unfolding e
  proof (intro moves_quiet [OF _ b])
    fix g
    assume g: "g < length (fw_handles w)"
    show "?hs ! g = fw_handles w ! g" if "fh_board (fw_handles w ! g) \<noteq> ?b"
      using nth [OF g] that by auto
    show "?hs ! g = fw_handles w ! g \<and> board_link ?s [] = board_link (state_of ?b w) []" if "handle_live (?hs ! g)"
      using nth [OF g] that by (simp add: handle_live_def board_link_def split: if_splits)
  qed simp_all
qed

lemma moves_write:
  assumes "handle_write h report w = Some (r, w')" "linked_world w" "h < length (fw_handles w)"
  shows "fake_moves w w'"
proof -
  have "fh_board (fw_handles w ! h) < length (fw_boards w)"
    using world_handleD(2) [OF _ assms(3)] assms(2) by (simp add: linked_world_def)
  then show ?thesis
    using assms(1) fake_moves_refl moves_op [OF linked_drive safe_drive]
    by (auto simp: handle_write_def split: sum.splits if_splits)
qed

lemma moves_send:
  assumes "handle_send_feature h report w = Some (r, w')" "linked_world w" "h < length (fw_handles w)"
  shows "fake_moves w w'"
proof -
  have "fh_board (fw_handles w ! h) < length (fw_boards w)"
    using world_handleD(2) [OF _ assms(3)] assms(2) by (simp add: linked_world_def)
  then show ?thesis
    using assms(1) fake_moves_refl moves_op [OF linked_write_config safe_write_config]
    by (auto simp: handle_send_feature_def split: sum.splits if_splits)
qed

text \<open>Whatever a test does, except skipping report numbers.\<close>

lemma moves_test:
  assumes "test_action w w'" "linked_world w"
  shows "fake_moves w w'"
  using assms(1)
proof cases
  case (test_write b c r s hs)
  then obtain payload where "write_config payload (state_of b w) (fw_handles w) = Some (s, hs)"
    using write_pin_config_ok by blast
  then have "on_board b (write_config payload) w = Some w'" using test_write(1) by (simp add: on_board_def)
  then show ?thesis using moves_op [OF linked_write_config safe_write_config test_write(2)] by blast
next
  case (test_open_error b k)
  have "world_ok w'" using test_action_ok [OF assms(1)] assms(2) by (simp add: linked_world_def)
  then show ?thesis using test_open_error moves_state by (simp add: set_open_error_def board_link_def)
next
  case (test_version b v)
  have "world_ok w'" using test_action_ok [OF assms(1)] assms(2) by (simp add: linked_world_def)
  then show ?thesis using test_version moves_state by (simp add: set_protocol_version_def board_link_def)
qed (auto intro: moves_make moves_plug moves_unplug moves_reenumerate moves_time
    moves_op linked_set_input safe_set_input linked_lose_input safe_lose_input linked_periodic safe_periodic
    linked_suspend safe_suspend)

section \<open>The contract\<close>

lemma fake_obs_live: "fake_obs h w = Some k \<Longrightarrow> h < length (fw_handles w) \<and> handle_live (fw_handles w ! h)"
  by (simp add: fake_obs_def split: if_splits)

lemma request_Cons: "request rid = rid # replicate 63 0"
  by (simp add: request_def REPORT_LEN_eq numeral_eq_Suc)

text \<open>The answer to a request for the status: the board as it is.\<close>

lemma status_answer:
  assumes "world_ok w" "h < length (fw_handles w)" "handle_get_input h (request REPORT_ID_STATUS) w = Some (Inr n, data, w')"
  shows "\<exists>p r. data = REPORT_ID_STATUS # p \<and> length p = 63 \<and> decode_status p = Inr r \<and> w' = w \<and>
    solicited r \<and> \<not> config_news r \<and> \<not> more_events r \<and> seq r = last_seq (board_of h w) \<and>
    (\<forall>q. shows_pins r (board_link (board_of h w) q))"
proof -
  let ?s = "board_of h w"
  let ?r = "fake_status ?s HOST_REQUEST [] (last_seq ?s) 0"
  have "status_encodable ?r" by (simp add: status_encodable_def fake_status_def)
  then obtain p where p: "encode_status ?r = Inr p" "decode_status p = Inr ?r" "length p = 63"
    using decode_encode_status encode_status_length by blast
  have "data = REPORT_ID_STATUS # p" "w' = w"
    using assms(3) p(1,3) request_Cons [of REPORT_ID_STATUS]
    by (auto simp: handle_get_input_def board_of_def reply_bytes_def Let_def split: sum.splits if_splits)
  moreover have "wf_config (b_config ?s)"
    using board_okD(1) [OF world_boardD(1) [OF assms(1) world_handleD(2) [OF assms(1,2)]]] by (simp add: board_of_def)
  then have "shows_pins ?r (board_link ?s q)" for q
    by (simp add: shows_pins_def link_monitored_def link_level_board sr_is_monitored_def sr_level_def
        bit_monitored_mask fake_status_def)
  moreover have "solicited ?r" "\<not> config_news ?r" "\<not> more_events ?r" "seq ?r = last_seq ?s"
    by (simp_all add: solicited_def config_news_def more_events_def fake_status_def reason_flags MORE_EVENTS_def)
  ultimately show ?thesis using p by blast
qed

interpretation fake_linked: linked fake_env linked_world "\<lambda>h w. h < length (fw_handles w)" fake_moves fake_obs roomy
proof
  show "fake_moves w w" for w by (rule fake_moves_refl)
  show "fake_moves u w" if "fake_moves u v" "fake_moves v w" for u v w using fake_moves_trans that .
  show "linked_world w'" if "linked_world w" "fake_moves w w'" for w w' using that by (simp add: fake_moves_def)
  show "h < length (fw_handles w')" if "linked_world w" "h < length (fw_handles w)" "fake_moves w w'" for w h w'
    using that by (simp add: fake_moves_def)
  show "fake_moves w w'" if "linked_world w" "e_devices fake_env w = (entries, w')" for w entries w'
    using that fake_moves_refl by (simp add: fake_env_def bus_devices_def)
  show "fake_moves w w' \<and> (\<forall>h. opened = Inr h \<longrightarrow> h < length (fw_handles w'))"
    if "linked_world w" "e_open fake_env entry w = (opened, w')" for w entry opened w'
    using that moves_open [of entry w opened w'] by (simp add: fake_env_def)
  show "lk_queue k = []" if "linked_world w" "e_open fake_env entry w = (Inr h, w')" "fake_obs h w' = Some k" for w entry h w' k
    using that moves_open [of entry w "Inr h" w'] by (simp add: fake_env_def)
  show "fake_moves w (e_close fake_env h w)" if "linked_world w" "h < length (fw_handles w)" for w h
    using moves_drop [OF that(2)] by (simp add: fake_env_def)
  show "fake_moves w w'" if "linked_world w" "h < length (fw_handles w)" "e_write fake_env h report w = (n, w')" for w h report n w'
    using that moves_write [of h report w n w'] fake_moves_refl [of w]
    by (auto simp: fake_env_def or_stuck_def split: option.splits)
  show "fake_moves w w'" if "linked_world w" "h < length (fw_handles w)" "e_send_feature fake_env h report w = (n, w')" for w h report n w'
    using that moves_send [of h report w n w'] fake_moves_refl [of w]
    by (auto simp: fake_env_def or_stuck_def split: option.splits)
  show "fake_moves w w'" if "linked_world w" "h < length (fw_handles w)" "e_get_feature fake_env h buf w = (n, data, w')" for w h buf n data w'
    using that fake_moves_refl [of w]
    by (auto simp: fake_env_def or_stuck_def handle_get_feature_def reply_bytes_def Let_def split: sum.splits list.splits if_splits)
  show "fake_moves w w'" if "linked_world w" "h < length (fw_handles w)" "e_get_input fake_env h buf w = (n, data, w')" for w h buf n data w'
    using that fake_moves_refl [of w]
    by (auto simp: fake_env_def or_stuck_def handle_get_input_def reply_bytes_def Let_def split: sum.splits if_splits)
  show "fake_moves w w'" if "linked_world w" "e_now fake_env w = (t, w')" for w t w'
    using that fake_moves_refl by (simp add: fake_env_def)
  show "fake_moves w w'" if "linked_world w" "e_wall fake_env w = (s, w')" for w s w'
    using that fake_moves_refl by (simp add: fake_env_def)
  show "\<exists>k rs. fake_obs h u = Some k \<and> moves rs k k'"
    if "linked_world u" "h < length (fw_handles u)" "fake_moves u w" "fake_obs h w = Some k'" for u h w k'
    using that unfolding fake_moves_def by blast
  show "\<exists>p x. data = REPORT_ID_PIN_CONFIG # p \<and> length p = 63 \<and> decode_pin_config p = Inr x \<and> pcr_config x = lk_config k"
    if w: "linked_world w" "h < length (fw_handles w)" and e: "e_get_feature fake_env h (request REPORT_ID_PIN_CONFIG) w = (Inr n, data, w')"
      and k: "fake_obs h w' = Some k" for w h n data w' k
  proof -
    have ok: "world_ok w" using w(1) by (simp add: linked_world_def)
    have "w' = w"
      using e by (auto simp: fake_env_def or_stuck_def handle_get_feature_def reply_bytes_def Let_def
          split: sum.splits list.splits if_splits)
    then have "data = REPORT_ID_PIN_CONFIG # encode_pin_config (config_report (board_of h w))"
      and k: "lk_config k = b_config (board_of h w)"
      using get_feature_reply(2) [of w h] fake_obs_live [OF k] e k by (auto simp: fake_obs_def split: if_splits)
    moreover have wf: "wf_config (b_config (board_of h w))"
      using board_okD(1) [OF world_boardD(1) [OF ok world_handleD(2) [OF ok w(2)]]] by (simp add: board_of_def)
    ultimately show ?thesis
      using decode_encode_pin_config [of "config_report (board_of h w)"]
      by (simp add: config_report_def)
  qed
  show "\<exists>p r. data = REPORT_ID_STATUS # p \<and> length p = 63 \<and> decode_status p = Inr r \<and>
        solicited r \<and> \<not> config_news r \<and> \<not> more_events r \<and>
        (\<forall>k. fake_obs h w' = Some k \<longrightarrow> seq r = lk_seq k \<and> shows_pins r k)"
    if w: "linked_world w" "h < length (fw_handles w)" and e: "e_get_input fake_env h (request REPORT_ID_STATUS) w = (Inr n, data, w')"
    for w h n data w'
  proof -
    have ok: "world_ok w" using w(1) by (simp add: linked_world_def)
    have "handle_get_input h (request REPORT_ID_STATUS) w = Some (Inr n, data, w')"
      using e by (auto simp: fake_env_def or_stuck_def gone_def split: option.splits)
    from status_answer [OF ok w(2) this] show ?thesis by (auto simp: fake_obs_def split: if_splits)
  qed
  show "linked_world w' \<and> h < length (fw_handles w')"
    if w: "linked_world w" "h < length (fw_handles w)" and e: "e_read fake_env h buf timeout w = Some (x, data, w')"
    for w h buf timeout x data w'
  proof -
    have ok: "world_ok w" using w(1) by (simp add: linked_world_def)
    have r: "handle_read h buf timeout w = Returns (x, data, w')"
      using e by (simp add: fake_env_def split: call.splits)
    note ok' = handle_read_ok [OF ok w(2) r]
    have "fw_boards w' = fw_boards w \<and> bus_boards w' = bus_boards w"
      using r by (auto simp: handle_read_def Let_def split: option.splits list.splits if_splits)
    then show ?thesis using ok' w by (simp add: linked_world_def state_of_def)
  qed
  show "n = 0 \<and> fake_obs h w' = Some k \<or>
        (\<exists>r q p. lk_queue k = r # q \<and> n = 64 \<and> data = REPORT_ID_STATUS # p \<and> length p = 63 \<and>
          decode_status p = Inr r \<and> fake_obs h w' = Some (k\<lparr>lk_queue := q\<rparr>))"
    if w: "linked_world w" "h < length (fw_handles w)"
      and e: "e_read fake_env h (replicate REPORT_LEN 0) timeout w = Some (Inr n, data, w')" and k: "fake_obs h w = Some k"
    for w h timeout n data w' k
  proof -
    have ok: "world_ok w" using w(1) by (simp add: linked_world_def)
    let ?q = "fw_handles w ! h"
    have r: "handle_read h (replicate REPORT_LEN 0) timeout w = Returns (Inr n, data, w')"
      using e by (simp add: fake_env_def split: call.splits)
    have live: "\<not> gone_away ?q" using fake_obs_live [OF k] by (simp add: handle_live_def)
    show ?thesis
    proof (cases "reports ?q")
      case Nil
      then show ?thesis using r live k by (auto simp: handle_read_def Let_def split: option.splits if_splits)
    next
      case (Cons report rest)
      have "report_ok report" using world_handleD(1) [OF ok w(2)] Cons by (simp add: queue_ok_def)
      then obtain p where p: "report = REPORT_ID_STATUS # p" "length p = 63"
        by (cases report) (auto simp: report_ok_def)
      then have d: "decode_status p = Inr (decoded report)"
        using \<open>report_ok report\<close> by (auto simp: report_ok_def decoded_def)
      have w': "n = 64" "data = report" "w' = w\<lparr>fw_handles := (fw_handles w)[h := ?q\<lparr>reports := rest\<rparr>]\<rparr>"
        using r live Cons p by (auto simp: handle_read_def Let_def REPORT_LEN_eq split: option.splits if_splits)
      have "lk_queue k = decoded report # map decoded rest" "fake_obs h w' = Some (k\<lparr>lk_queue := map decoded rest\<rparr>)"
        using k Cons w(2) by (auto simp: fake_obs_def w'(3) board_of_def state_of_def handle_live_def board_link_def
            split: if_splits)
      then show ?thesis using w'(1,2) p d by blast
    qed
  qed
  show "fake_obs h w' = None"
    if "linked_world w" "h < length (fw_handles w)" "roomy w" "fake_obs h w = None"
      and e: "e_read fake_env h buf timeout w = Some (x, data, w')" for w h buf timeout x data w'
  proof -
    have "\<not> handle_live (fw_handles w ! h)" using that(2-4) by (auto simp: fake_obs_def roomy_def split: if_splits)
    moreover have "handle_read h buf timeout w = Returns (x, data, w')"
      using e by (simp add: fake_env_def split: call.splits)
    then have "handle_live (fw_handles w' ! h) = handle_live (fw_handles w ! h)" if "h < length (fw_handles w)"
      using that by (auto simp: handle_read_def Let_def handle_live_def split: option.splits list.splits if_splits)
    ultimately show ?thesis using that(2) by (simp add: fake_obs_def)
  qed
  show "roomy w'" if "linked_world w" "roomy w" "e_now fake_env w = (t, w')" for w t w'
    using that by (simp add: fake_env_def)
qed

end
