(* ===== verification/Watch_Returns.thy ===== *)
theory Watch_Returns
  imports Watch_Theorems
begin

text \<open>
  Every turn of the thread comes to an end when reads with a timeout do: the only operation that
  may wait forever is the read of a report, and it always has a timeout. And no turn changes the
  settings of the watcher, the polarities and the interval of its options.
\<close>

definition same_settings :: "watch_loop \<Rightarrow> watch_loop \<Rightarrow> bool" where
  "same_settings l l' \<longleftrightarrow> active_low l' = active_low l \<and> interval l' = interval l"

fun ends_well :: "watch_loop \<Rightarrow> ('w, 'a) outcome \<Rightarrow> bool" where
  "ends_well l (Ret x l' w) \<longleftrightarrow> same_settings l l'"
| "ends_well l Blocks \<longleftrightarrow> False"
| "ends_well l (Fatal e l' w) \<longleftrightarrow> same_settings l l'"
| "ends_well l Panic \<longleftrightarrow> True"

definition returns :: "('w, 'a) loop_op \<Rightarrow> bool" where
  "returns m \<longleftrightarrow> (\<forall>l w. ends_well l (m l w))"

named_theorems returning \<open>operations that do not wait forever and leave the settings alone\<close>

lemma returnsI: "(\<And>l w. ends_well l (m l w)) \<Longrightarrow> returns m"
  by (simp add: returns_def)

lemma returnsD: "returns m \<Longrightarrow> ends_well l (m l w)"
  by (simp add: returns_def)

lemma same_settings_refl [simp]: "same_settings l l"
  by (simp add: same_settings_def)

lemma settingsI [returning]: "active_low l' = active_low l \<Longrightarrow> interval l' = interval l \<Longrightarrow> same_settings l l'"
  by (simp add: same_settings_def)


lemma returns_bind [returning]:
  assumes "returns m" "\<And>x. returns (f x)"
  shows "returns (bind m f)"
proof (rule returnsI)
  fix l w
  show "ends_well l (bind m f l w)"
  proof (cases "m l w")
    case (Ret x l' w')
    have "same_settings l l'" using returnsD [OF assms(1), of l w] by (simp add: Ret)
    then show ?thesis
      using returnsD [OF assms(2), of l' x w'] by (cases "f x l' w'") (simp_all add: bind_def Ret same_settings_def)
  qed (use returnsD [OF assms(1), of l w] in \<open>simp_all add: bind_def\<close>)
qed

lemma returns_also_do [returning]: "returns m \<Longrightarrow> returns n \<Longrightarrow> returns (also_do m n)"
  by (simp add: also_do_def returns_bind)

lemma returns_ignore_fatal [returning]:
  assumes "returns m"
  shows "returns (ignore_fatal m)"
proof (rule returnsI)
  show "ends_well l (ignore_fatal m l w)" for l w
    using returnsD [OF assms, of l w] by (cases "m l w") (simp_all add: ignore_fatal_def)
qed

lemma returns_change [returning]: "(\<And>l. same_settings l (f l)) \<Longrightarrow> returns (change f)"
  by (rule returnsI) (simp add: change_def)

lemma returns_basic [returning]:
  "returns (ret x)" "returns (fatal e)" "returns (look g)" "returns (or_panic y)"
  "returns (emit ev)" "returns (now E)" "returns the_conn" "returns (change_conn f')" "returns (on_device m)"
  by (auto intro!: returnsI simp: ret_def fatal_def look_def or_panic_def emit_def change_def now_def the_conn_def
      change_conn_def on_device_def same_settings_def split: option.splits prod.splits)

lemma returns_now_plus [returning]: "returns (now_plus E d)"
  unfolding now_plus_def
  by (intro returning)

lemma returns_if [returning]: "(b \<Longrightarrow> returns m) \<Longrightarrow> (\<not> b \<Longrightarrow> returns n) \<Longrightarrow> returns (if b then m else n)"
  by simp

lemma returns_option [returning]:
  "returns m \<Longrightarrow> (\<And>x. returns (f x)) \<Longrightarrow> returns (case y of None \<Rightarrow> m | Some x \<Rightarrow> f x)"
  by (simp split: option.split)

lemma returns_sum [returning]:
  "(\<And>e. returns (f e)) \<Longrightarrow> (\<And>x. returns (g x)) \<Longrightarrow> returns (case y of Inl e \<Rightarrow> f e | Inr x \<Rightarrow> g x)"
  by (simp split: sum.split)

lemma returns_prod [returning]: "(\<And>a b. returns (f a b)) \<Longrightarrow> returns (case p of (a, b) \<Rightarrow> f a b)"
  by (simp split: prod.split)

section \<open>The operations of the thread\<close>

lemma returns_set_config [returning]: "returns (set_config c)"
  and returns_drop_connection [returning]: "returns (drop_connection E)"
  and returns_list_devices [returning]: "returns (list_devices E)"
  by (auto intro!: returnsI simp: set_config_def drop_connection_def list_devices_def same_settings_def split: option.splits prod.splits if_splits)

lemma returns_event_time [returning]: "returns (event_time E start)"
  unfolding event_time_def
  by (intro returning) (auto intro!: returnsI split: option.split prod.split)

lemma returns_simple [returning]:
  "returns (active_low_of g)" "returns (loop_on_off r)" "returns (failed e)" "returns reset_failures"
  "returns (scan_later E)" "returns (lost E e)" "returns (restore_later E d)" "returns (wrote E found new)"
  "returns (suspend_event r)" "returns (outputs_event found driven re)"
  unfolding active_low_of_def loop_on_off_def failed_def reset_failures_def scan_later_def lost_def restore_later_def
    wrote_def suspend_event_def outputs_event_def
  by (intro returning; simp)+

lemma returns_absorb_event [returning]: "returns (absorb_event E us e)"
  unfolding absorb_event_def Let_def
  by (intro returning) simp_all

lemma returns_absorb_events [returning]: "returns (absorb_events E us es)"
  by (induction es) (auto intro!: returning)

lemma returns_absorb_level [returning]: "returns (absorb_level r g learned)"
  unfolding absorb_level_def Let_def
  by (intro returning) simp_all

lemma returns_absorb_levels [returning]: "returns (absorb_levels r gs learned)"
  by (induction gs arbitrary: learned) (auto intro!: returning)

lemma returns_absorb [returning]: "returns (absorb E r)"
  unfolding absorb_def
  by (intro returning) simp_all

lemma returns_restore [returning]:
  "returns (restore_over E tgt found)" "returns (restore_target E)" "returns (restore_or_wait E)"
  "returns (config_changed E)"
  unfolding restore_over_def restore_target_def restore_or_wait_def config_changed_def Let_def
  by (intro returning; simp)+

lemma returns_set_target [returning]: "returns (write_target E new previous)" "returns (set_target E new)"
  unfolding write_target_def set_target_def
  by (intro returning; simp)+

lemma returns_status_step [returning]: "returns (status_step E r at missed)"
  unfolding status_step_def absorb_unless_def Let_def
  by (intro returning) simp_all

lemma returns_received [returning]: "returns (received E data at)"
  unfolding received_def Let_def
  by (intro returning)

lemma returns_snapshot [returning]: "returns (snapshot E)"
  unfolding snapshot_def
  by (intro returning)

lemma returns_connected [returning]: "returns (connected E entry i d fda)"
  unfolding connected_def
  by (intro returning) simp_all

lemma settings_info: "ends_well (l\<lparr>wl_info := x\<rparr>) r \<Longrightarrow> ends_well l r"
  by (cases r) (simp_all add: same_settings_def)

lemma returns_connect [returning]: "returns (connect E entry)"
proof (rule returnsI)
  have "ends_well (l\<lparr>wl_info := x\<rparr>) (connected E entry i d fda (l\<lparr>wl_info := x\<rparr>) w)" for i d fda x l w
    by (rule returnsD [OF returns_connected])
  then have "ends_well l (connected E entry i d fda (l\<lparr>wl_info := x\<rparr>) w)" for i d fda x l w
    by (rule settings_info)
  then show "ends_well l (connect E entry l w)" for l w
    by (auto simp: connect_def same_settings_def split: prod.split sum.split)
qed

lemma returns_try_connect [returning]: "returns (try_connect E)"
  unfolding try_connect_def try_entries_def
  by (intro returning) (auto intro!: returning split: list.split)

lemma returns_request [returning]: "returns (run_request E r)"
  unfolding run_request_def by (cases r) (auto intro!: returning)

lemma returns_requests [returning]: "returns (run_requests E rs)"
proof (induction rs)
  case (Cons q rs)
  then show ?case by (cases q) (auto intro!: returning)
qed (auto intro: returning)

section \<open>Turns\<close>

text \<open>A read with a timeout returns.\<close>

definition timed_reads :: "'w env \<Rightarrow> bool" where
  "timed_reads E \<longleftrightarrow> (\<forall>h buf t w. int t \<le> horizon \<longrightarrow> e_read E h buf (Some t) w \<noteq> None)"

lemma read_timeout_short: "int (read_timeout l t) \<le> horizon"
  by (auto simp: read_timeout_def READ_POLL_def from_millis_def horizon_def min_def max_def split: option.split)

lemma returns_read_device:
  assumes "timed_reads E" "int t \<le> horizon"
  shows "returns (read_device E t)"
proof -
  have "\<exists>r data w'. e_read E h buf (Some t) w = Some (r, data, w')" for h buf w
    using assms unfolding timed_reads_def by fastforce
  then have "ends_well l (read_report E t l w)" for l w
    by (cases "conn l"; fastforce simp: read_report_def read_raw_def same_settings_def split: option.split prod.split sum.split)
  then have "returns (read_report E t)" by (rule returnsI)
  then show ?thesis unfolding read_device_def
  by (intro returning) simp_all
qed

lemma returns_turn_body:
  assumes "timed_reads E"
  shows "returns (turn_body E rs)"
  unfolding turn_body_def idle_turn_def scan_def restore_def settle_def
  by (intro returning returns_read_device [OF assms read_timeout_short]) simp_all

lemma turn_ends_well:
  assumes "timed_reads E" "sys_thread s = Running"
  shows "sys_thread (turn E s) \<noteq> Stuck \<and>
    (sys_thread (turn E s) = Running \<longrightarrow> same_settings (sys_loop s) (sys_loop (turn E s)))"
proof -
  obtain pend queue where d: "deliver (pending (sys_loop s)) (out (sys_shared s)) = (pend, queue)" by force
  let ?l = "(sys_loop s)\<lparr>pending := pend\<rparr>"
  have "ends_well ?l (turn_body E (requests (sys_shared s)) ?l (sys_world s))"
    by (rule returnsD [OF returns_turn_body [OF assms(1)]])
  then show ?thesis
    using assms(2)
    by (cases "turn_body E (requests (sys_shared s)) ?l (sys_world s)")
      (auto simp: turn_def d Let_def end_thread_def same_settings_def split: prod.splits)
qed

lemma runs_end_well:
  assumes "reachable E outside opt t0 s" "timed_reads E"
  shows "sys_thread s \<noteq> Stuck \<and>
    (sys_thread s = Running \<longrightarrow> active_low (sys_loop s) = opt_active_low opt \<and> interval (sys_loop s) = opt_interval opt)"
  using assms(1)
proof (induction rule: reachable.induct)
  case (start w)
  then show ?case by (simp add: start_system_def initial_loop_def)
next
  case (step s s')
  from step(2) show ?case
  proof (cases rule: sys_step.cases)
    case thread_turn
    then show ?thesis using turn_ends_well [OF assms(2) thread_turn(2)] step(3) by (simp add: same_settings_def)
  qed (use step(3) in simp_all)
qed

lemma fake_timed_reads: "timed_reads fake_env"
proof -
  have "handle_read h buf (Some t) w \<noteq> Panics \<and> handle_read h buf (Some t) w \<noteq> Waits"
    if "int t \<le> horizon" for h buf t w
    using that handle_read_no_panic [of "Some t" h buf w]
    by (auto simp: handle_read_def Let_def split: option.split list.split)
  then show ?thesis
    by (simp add: timed_reads_def fake_env_def split: call.split)
qed

section \<open>Properties\<close>

text \<open>C6: The thread neither hangs nor dies, as long as its clocks and its scan interval are within
  \<open>horizon\<close>, a read stays in its buffer, and a read with a timeout comes back: in every reachable
  state it runs or has ended as it should, and while it runs its next turn comes back, and it
  goes by the polarities and the scan interval of its options.\<close>

theorem thread_keeps_going:
  assumes "host E" "timed_reads E" "reachable E outside opt t0 s" "good_options opt"
  shows "(sys_thread s = Running \<or> sys_thread s = Ended) \<and>
    (sys_thread s = Running \<longrightarrow> active_low (sys_loop s) = opt_active_low opt \<and> interval (sys_loop s) = opt_interval opt) \<and>
    (sys_thread s = Running \<longrightarrow> (\<exists>s'. sys_step E outside s s' \<and> s' = turn E s \<and>
      (sys_thread s' = Running \<or> sys_thread s' = Ended)))"
proof -
  have ok: "sys_thread s = Running \<or> sys_thread s = Ended" if "reachable E outside opt t0 s" for s
    using runs_end_well [OF that assms(2)] sys_reachable_inv [OF assms(1) that assms(4)]
    by (cases "sys_thread s") (simp_all add: sys_inv_def)
  have "reachable E outside opt t0 (turn E s)" if "sys_thread s = Running"
    using reachable.step [OF assms(3) thread_turn [OF that]] .
  then show ?thesis
    using ok ok [OF assms(3)] thread_turn [of s E outside] runs_end_well [OF assms(3,2)] by blast
qed

theorem thread_keeps_going_witness:
  "sys_thread (turn fake_env pico_start) = Running \<or> sys_thread (turn fake_env pico_start) = Ended"
  using thread_keeps_going [OF fake_host.host_axioms fake_timed_reads pico_turn_reachable any_board_good] by blast

end
