(* ===== verification/Watch_View.thy ===== *)
theory Watch_View
  imports Fake_Link Watch_Returns
begin

text \<open>
  What the application has been told is what the pins are: the watcher on the simulated boards,
  in every interleaving with a test in which no queue overflows and no report number is skipped.
\<close>

section \<open>The view of a board\<close>

text \<open>The ON/OFF of a monitored pin at the level of its input: its polarity is what the options say,
  or else \<open>PullUp\<close> means active low.\<close>

definition shown_on :: "(u8, bool) btree \<Rightarrow> board_state \<Rightarrow> u8 \<Rightarrow> bool option" where
  "shown_on lows s g =
     (if unat g < 30 \<and> is_monitored (b_config s ! unat g)
      then map_option (\<lambda>low. bit (inputs s) (unat g) \<noteq> low) (active_low_in (map_of lows) (b_config s) g)
      else None)"

lemma shown_on_monitored:
  assumes "wf_config (b_config s)" "unat g < 30" "is_monitored (b_config s ! unat g)"
  shows "shown_on lows s g \<noteq> None"
  using assms config_at_Some [OF assms(1,2)]
  by (auto simp: shown_on_def active_low_in_def split: option.split)

lemma known_right_shown:
  assumes "known_right l (board_link s q)" "config l = b_config s" "map_of (known l) g = Some on"
    and "board_ok s" "powered s"
  shows "shown_on (active_low l) s g = Some on"
proof -
  from assms(1,3) obtain low where g: "link_monitored (board_link s q) g" "polarity_of l g = Some low"
    "on = (link_level (board_link s q) g \<noteq> low)"
    unfolding known_right_def by blast
  have b: "unat g < 30" "is_monitored (b_config s ! unat g)" using g(1) by (simp_all add: link_monitored_def)
  have "bit (b_levels s) (unat g) = bit (inputs s) (unat g)"
    using board_okD(3) [OF assms(4), of "unat g"] b assms(5) by (simp add: level_ok_def)
  then show ?thesis
    using g b assms(2) by (simp add: shown_on_def polarity_of_def link_level_board)
qed

lemma live_powered:
  assumes "linked_world w" "h < length (fw_handles w)" "handle_live (fw_handles w ! h)"
  shows "board_ok (board_of h w) \<and> powered (board_of h w)"
proof -
  have ok: "world_ok w" using assms(1) by (simp add: linked_world_def)
  let ?b = "fh_board (fw_handles w ! h)"
  have b: "?b < length (fw_boards w)" by (rule world_handleD(2) [OF ok assms(2)])
  moreover have "h \<in> set (handles (state_of ?b w))"
    using ok assms(2,3) by (simp add: world_ok_def)
  ultimately have "powered (state_of ?b w)"
    using assms(1) unfolding linked_world_def by fastforce
  then show ?thesis using world_boardD(1) [OF ok b] by (simp add: board_of_def)
qed

text \<open>The view of the watcher, when nothing is on its way.\<close>

lemma quiet_view:
  assumes "seen linked_world (\<lambda>h w. h < length (fw_handles w)) fake_obs (\<lambda>c k. synced Empty_Hand False l c k) l w"
    and "roomy w" "conn l = Some c" "h = dev_handle (c_device c)"
    and "handle_live (fw_handles w ! h)" "reports (fw_handles w ! h) = []"
    and "\<not> b_overflow (board_of h w)" "\<not> awaiting_config c"
  shows "config l = b_config (board_of h w) \<and> board_ok (board_of h w) \<and> powered (board_of h w) \<and>
    (\<forall>g on. map_of (known l) g = Some on \<longrightarrow> shown_on (active_low l) (board_of h w) g = Some on) \<and>
    (snapshot_seq c = None \<longrightarrow>
      (\<forall>g on. shown_on (active_low l) (board_of h w) g = Some on \<longrightarrow> map_of (known l) g = Some on))"
proof -
  let ?s = "board_of h w"
  have w: "linked_world w" "h < length (fw_handles w)" using assms(1,3,4) by (simp_all add: seen_def)
  have s: "board_ok ?s" "powered ?s" using live_powered [OF w assms(5)] by simp_all
  have "fake_obs h w = Some (board_link ?s [])"
    using w assms(2,5,6) by (simp add: fake_obs_def QUEUE_LEN_def)
  then have "synced Empty_Hand False l c (board_link ?s [])"
    using assms(1,3,4) by (simp add: seen_def)
  then have c: "config l = b_config ?s" and v: "known_right l (board_link ?s [])"
    "snapshot_seq c = None \<longrightarrow> all_known l (board_link ?s [])"
    using assms(7,8) by (auto simp: synced_def config_or_news_def view_ok_def absorbs_def)
  have known: "shown_on (active_low l) ?s g = Some on" if "map_of (known l) g = Some on" for g on
    using known_right_shown [OF v(1) c that s] .
  moreover have "map_of (known l) g = Some on"
    if snap: "snapshot_seq c = None" and g: "shown_on (active_low l) ?s g = Some on" for g on
  proof -
    have "link_monitored (board_link ?s []) g"
      using g by (simp add: shown_on_def link_monitored_def split: if_splits)
    then obtain on' where "map_of (known l) g = Some on'"
      using v(2) snap unfolding all_known_def by blast
    then show ?thesis using known g by fastforce
  qed
  ultimately show ?thesis using c s by blast
qed

text \<open>What holds along every run in which the world stays calm.\<close>

definition calm_run :: "watch_options \<Rightarrow> instant \<Rightarrow> fake_world \<Rightarrow> fake_world system \<Rightarrow> bool" where
  "calm_run opt t0 w0 s \<longleftrightarrow> good_options opt \<and> linked_world w0 \<and> roomy w0 \<and>
     (calm_step fake_env test_action roomy)\<^sup>*\<^sup>* (start_system opt t0 w0) s"

lemma calm_run_step:
  assumes "calm_run opt t0 w0 s" "sys_step fake_env test_action s s'" "roomy (sys_world s')"
  shows "calm_run opt t0 w0 s'"
proof -
  have "calm_step fake_env test_action roomy s s'" using assms(2,3) by (simp add: calm_step_def)
  then show ?thesis
    using assms(1) rtranclp.rtrancl_into_rtrancl [of "calm_step fake_env test_action roomy" _ s s']
    by (simp add: calm_run_def)
qed

lemma calm_run_seen:
  assumes "calm_run opt t0 w0 s" "sys_thread s = Running"
  shows "seen linked_world (\<lambda>h w. h < length (fw_handles w)) fake_obs
      (\<lambda>c k. synced Empty_Hand False (sys_loop s) c k) (sys_loop s) (sys_world s)" "roomy (sys_world s)"
proof -
  have R: "fake_moves w w'" if "linked_world w" "test_action w w'" for w w'
    using moves_test [OF that(2)] that(1) by blast
  show "seen linked_world (\<lambda>h w. h < length (fw_handles w)) fake_obs
      (\<lambda>c k. synced Empty_Hand False (sys_loop s) c k) (sys_loop s) (sys_world s)" "roomy (sys_world s)"
    using fake_linked.runs_mirror [OF _ _ _ R] assms unfolding calm_run_def by blast+
qed

lemma calm_run_inv:
  assumes "calm_run opt t0 w0 s"
  shows "reachable fake_env test_action opt t0 s" "sys_inv s" "sys_thread s \<noteq> Stuck"
    "sys_thread s = Running \<Longrightarrow> active_low (sys_loop s) = opt_active_low opt"
proof -
  show r: "reachable fake_env test_action opt t0 s"
    by (rule calm_steps_reach [of _ _ roomy _ _ w0]) (use assms in \<open>simp add: calm_run_def\<close>)
  show "sys_inv s" using sys_reachable_inv [OF fake_host.host_axioms r] assms by (simp add: calm_run_def)
  show "sys_thread s \<noteq> Stuck" "sys_thread s = Running \<Longrightarrow> active_low (sys_loop s) = opt_active_low opt"
    using runs_end_well [OF r fake_timed_reads] by simp_all
qed

text \<open>What is known has been told.\<close>

lemma known_told:
  assumes "sys_inv s" "sys_thread s = Running" "map_of (known (sys_loop s)) g = Some on"
  shows "replay (history s) g = Some on"
  using assms by (simp add: sys_inv_def loop_inv_def agrees_def history_def)

section \<open>Properties\<close>

text \<open>C1: What the application has been told about the pins of a board is true. While the thread is
  connected to a board, has read all of its reports and awaits none of a write of its own, it has
  the configuration of the board, and what the events say of a pin that the watcher knows, those
  still to be delivered included, is the ON/OFF of the pin at its level now, with the polarity of
  the options; once the status read when connecting is superseded, that is so for every monitored
  pin. This holds whatever the application and a test do in between, from simulated boards in
  order and a scan interval up to \<open>horizon\<close>, while no queue of a handle is full, no report number is
  skipped and no change is lost on the board.\<close>

theorem view_of_board:
  assumes "calm_run opt t0 w0 s" "sys_thread s = Running" "conn (sys_loop s) = Some c" "h = dev_handle (c_device c)"
    and "handle_live (fw_handles (sys_world s) ! h)" "reports (fw_handles (sys_world s) ! h) = []"
    and "\<not> b_overflow (board_of h (sys_world s))" "\<not> awaiting_config c"
  shows "config (sys_loop s) = b_config (board_of h (sys_world s)) \<and>
    (\<forall>g on. map_of (known (sys_loop s)) g = Some on \<longrightarrow>
      shown_on (opt_active_low opt) (board_of h (sys_world s)) g = Some on \<and> replay (history s) g = Some on) \<and>
    (snapshot_seq c = None \<longrightarrow> (\<forall>g on. shown_on (opt_active_low opt) (board_of h (sys_world s)) g = Some on \<longrightarrow>
      replay (history s) g = Some on))"
proof -
  have "active_low (sys_loop s) = opt_active_low opt" using calm_run_inv(4) [OF assms(1,2)] .
  then show ?thesis
    using quiet_view [OF calm_run_seen [OF assms(1,2)] assms(3-8)] known_told [OF calm_run_inv(2) [OF assms(1)] assms(2)]
    unfolding \<open>active_low (sys_loop s) = _\<close> by blast
qed

end
