(* ===== verification/Watch_Connects.thy ===== *)
theory Watch_Connects
  imports Watch_View
begin

text \<open>
  The thread finds its board: the first turn of the watcher connects to the one board its options
  name, and if they have a configuration the board has it from then on.
\<close>

section \<open>The simulated calls of a connection\<close>

lemma fake_now_same: "e_now fake_env w = (fake_now w, w)"
  by (simp add: fake_env_def)

lemma device_new_same: "\<exists>d. device_new fake_env h serial w = (d, w) \<and> dev_handle d = h \<and> dev_info d = None"
  by (simp add: device_new_def fresh_ids_def fake_env_def split: prod.split)

lemma fake_info:
  assumes "good_handle h avail w" "dev_handle d = h" "dev_info d = None"
  shows "\<exists>i. info fake_env d w = (Inr i, d\<lparr>dev_info := Some i\<rparr>, w) \<and> available i = avail"
proof -
  obtain i w' where i: "info fake_env d w = (Inr i, d\<lparr>dev_info := Some i\<rparr>, w')" "available i = avail"
    using fake_port.info_succeeds [OF assms(1,2)] assms(3) by auto
  moreover have "handle_live (fw_handles w ! h)" using assms(1) by (simp add: good_handle_def)
  then have "w' = w"
    using i(1) assms(2,3) get_feature_reply(1) [of w h]
    by (auto simp: info_def seq_op_def get_feature_full return_op_def split: sum.splits if_splits)
  ultimately show ?thesis by blast
qed

lemma fake_status_request:
  assumes "good_handle h avail w" "dev_handle d = h"
  shows "request_status fake_env d w = (Inr (fake_status (board_of h w) HOST_REQUEST [] (last_seq (board_of h w)) 0), d, w)"
proof -
  let ?r = "fake_status (board_of h w) HOST_REQUEST [] (last_seq (board_of h w)) 0"
  have "status_encodable ?r" by (simp add: status_encodable_def fake_status_def)
  then obtain p where p: "encode_status ?r = Inr p" "decode_status p = Inr ?r" "length p = 63"
    using decode_encode_status encode_status_length by blast
  have "handle_check h w = Inr ()"
    using assms(1) handle_check_Inr by (simp add: good_handle_def)
  then have "e_get_input fake_env h (request REPORT_ID_STATUS) w = (Inr 64, REPORT_ID_STATUS # p, w)"
    using p request_Cons [of REPORT_ID_STATUS]
    by (simp add: fake_env_def or_stuck_def handle_get_input_def reply_bytes_def Let_def board_of_def)
  then show ?thesis
    using p assms(2) by (simp add: request_status_def Let_def fill_def REPORT_LEN_eq length_request)
qed

section \<open>Absorbing what the board answers\<close>

text \<open>The watcher is connected to \<open>h\<close> in the world \<open>w0\<close> and awaits no report of its own write.\<close>

definition joined :: "handle \<Rightarrow> pin_config \<Rightarrow> fake_world \<Rightarrow> watch_loop \<Rightarrow> fake_world \<Rightarrow> bool" where
  "joined h cfg w0 l w \<longleftrightarrow> w = w0 \<and> config l = cfg \<and> keys_ok l \<and> restore_at l = None \<and>
     (\<exists>c. conn l = Some c \<and> dev_handle (c_device c) = h \<and> \<not> awaiting_config c)"

text \<open>Absorbing a report leaves the world and the connection as they are.\<close>

lemma absorb_event_still: "wlp (absorb_event fake_env us e l w) (\<lambda>_ _ w'. w' = w) (\<lambda>_ _. False)"
proof -
  have time: "wlp (event_time fake_env start l' w) Q (\<lambda>_ _. False)" if "\<And>t. Q t l' w" for start l' Q
    using that by (auto simp: event_time_def clock_at_def fake_env_def wlp_rules split: option.split prod.split)
  show ?thesis
    by (auto simp: absorb_event_def active_low_of_def Let_def wlp_rules intro!: time split: option.split)
qed

lemma absorb_events_still: "wlp (absorb_events fake_env us es l w) (\<lambda>_ _ w'. w' = w) (\<lambda>_ _. False)"
proof (induction es arbitrary: l)
  case (Cons e es)
  show ?case
    unfolding absorb_events.simps wlp_also_do
    by (rule wlp_mono [OF absorb_event_still]) (use Cons.IH in auto)
qed (simp add: wlp_rules)

lemma absorb_still:
  assumes "keys_ok l"
  shows "wlp (absorb fake_env r l w) (\<lambda>_ l' w'. w' = w \<and> kept l l' \<and> keys_ok l') (\<lambda>_ _. False)"
proof (rule wlp_mono [OF wlp_conj])
  show "wlp (absorb fake_env r l w) (\<lambda>_ l' _. kept l l' \<and> learned_from r l') (\<lambda>_ _. False)"
    by (rule absorb_learns [OF assms])
  have levels: "wlp (bind (absorb_levels r gs []) (\<lambda>learned.
      also_do (change (\<lambda>l. l\<lparr>known := bt_retain (sr_is_monitored r) (known l)\<rparr>))
       (if learned \<noteq> [] then emit (InitialOnOff learned) else ret ())) l1 w) (\<lambda>_ _ w'. w' = w) (\<lambda>_ _. False)" for gs l1
    unfolding wlp_bind by (rule wlp_quiet [OF quiet_absorb_levels]) (simp add: wlp_rules)
  show "wlp (absorb fake_env r l w) (\<lambda>_ _ w'. w' = w) (\<lambda>_ _. False)"
    unfolding absorb_def wlp_also_do
    by (rule wlp_mono [OF absorb_events_still]) (use levels in auto)
qed (auto simp: learned_from_def)

text \<open>So does a report that does not tell of another configuration, but for the snapshot it supersedes.\<close>

definition after_report :: "status_report \<Rightarrow> connection \<Rightarrow> watch_loop \<Rightarrow> watch_loop \<Rightarrow> bool" where
  "after_report r c l l' \<longleftrightarrow> config l' = config l \<and> keys_ok l' \<and>
     restore_at l' = restore_at l \<and> (\<exists>c'. conn l' = Some c' \<and> c_device c' = c_device c \<and>
     awaiting_config c' = awaiting_config c \<and> snapshot_seq c' = snd (stale_after (snapshot_seq c) r))"

lemma status_step_still:
  assumes "conn l = Some c" "keys_ok l" "\<not> config_news r"
  shows "wlp (status_step fake_env r t m l w) (\<lambda>_ l' w'. w' = w \<and> after_report r c l l') (\<lambda>_ _. False)"
proof -
  obtain stale snap where st: "stale_after (snapshot_seq c) r = (stale, snap)" by force
  have step: "wlp (absorb_unless fake_env stale r l' w) (\<lambda>_ l' w'. w' = w \<and> after_report r c l l') (\<lambda>_ _. False)"
    if "after_report r c l l'" for l'
  proof -
    have "wlp (absorb fake_env r l' w) (\<lambda>_ l' w'. w' = w \<and> after_report r c l l') (\<lambda>_ _. False)"
    proof (rule wlp_mono [OF absorb_still])
      show "keys_ok l'" using that by (simp add: after_report_def)
    qed (use that in \<open>auto simp: after_report_def kept_def\<close>)
    then show ?thesis using that by (simp add: absorb_unless_def wlp_rules)
  qed
  have "after_report r c l (l\<lparr>conn := Some (c\<lparr>c_clock := x, snapshot_seq := snap\<rparr>), pending := y\<rparr>)" for x y
    using assms(1,2) st by (simp add: after_report_def keys_ok_def)
  then show ?thesis
    using assms(1,3) st step
    by (simp add: status_step_def loop_on_off_def suspend_event_def wlp_rules config_news_def)
qed

lemma joined_status_step:
  assumes "joined h cfg w0 l w" "\<not> config_news r"
  shows "wlp (status_step fake_env r t m l w) (\<lambda>_ l' w'. joined h cfg w0 l' w') (\<lambda>_ _. False)"
proof -
  obtain c where c: "conn l = Some c" "dev_handle (c_device c) = h" "\<not> awaiting_config c" and l: "keys_ok l"
    using assms(1) by (auto simp: joined_def)
  show ?thesis
    by (rule wlp_mono [OF status_step_still [OF c(1) l assms(2)]])
      (use assms(1) c in \<open>auto simp: joined_def after_report_def\<close>)
qed

lemma joined_snapshot:
  assumes "joined h cfg w0 l w" "good_handle h avail w"
  shows "wlp (snapshot fake_env l w) (\<lambda>_ l' w'. joined h cfg w0 l' w') (\<lambda>_ _. False)"
proof -
  let ?r = "fake_status (board_of h w) HOST_REQUEST [] (last_seq (board_of h w)) 0"
  obtain c where c: "conn l = Some c" "dev_handle (c_device c) = h" using assms(1) by (auto simp: joined_def)
  have r: "request_status fake_env (c_device c) w = (Inr ?r, c_device c, w)"
    by (rule fake_status_request [OF assms(2) c(2)])
  have j: "joined h cfg w0 (l\<lparr>conn := Some (c\<lparr>snapshot_seq := x\<rparr>)\<rparr>) w" for x
    using assms(1) c by (auto simp: joined_def keys_ok_def)
  have s: "wlp (status_step fake_env ?r t m (l\<lparr>conn := Some (c\<lparr>snapshot_seq := x\<rparr>)\<rparr>) w)
      (\<lambda>_ l' w'. joined h cfg w0 l' w') (\<lambda>l' w'. joined h cfg w0 l' w')" for t m x
    by (rule wlp_mono [OF joined_status_step [OF j]])
      (simp_all add: fake_status_def config_news_def flags_contains_def HOST_REQUEST_def CONFIG_CHANGED_def)
  show ?thesis
    using s by (simp add: snapshot_def wlp_rules c r fake_now_same)
qed

section \<open>Connecting\<close>

text \<open>The watcher is connected to a board that has the configuration \<open>cfg\<close>.\<close>

definition attached :: "u32 \<Rightarrow> pin_config \<Rightarrow> watch_loop \<Rightarrow> fake_world \<Rightarrow> bool" where
  "attached avail cfg l w \<longleftrightarrow> config l = cfg \<and> (\<exists>c. conn l = Some c \<and>
     good_handle (dev_handle (c_device c)) avail w \<and> b_config (board_of (dev_handle (c_device c)) w) = cfg)"

lemma attached_joined:
  assumes "joined h cfg w0 l w" "good_handle h avail w0" "b_config (board_of h w0) = cfg"
  shows "attached avail cfg l w"
  using assms by (auto simp: joined_def attached_def)

lemma outputs_event_pending:
  "wlp (outputs_event found driven re l w) (\<lambda>_ l' w'. \<exists>es. l' = l\<lparr>pending := es\<rparr> \<and> w' = w) (\<lambda>_ _. False)"
proof -
  have "\<exists>es. l = l\<lparr>pending := es\<rparr>" by (rule exI [of _ "pending l"]) simp
  then show ?thesis by (auto simp: outputs_event_def wlp_rules)
qed

lemma wlp_connected:
  assumes "keys_ok l"
    and "\<And>l' t. aw \<Longrightarrow> config l' = found \<Longrightarrow> conn l' = Some (new_connection d aw) \<Longrightarrow> keys_ok l' \<Longrightarrow>
      restore_at l' = restore_at l \<Longrightarrow> Q (l'\<lparr>settle_at := Some t\<rparr>) w"
    and "\<And>l'. \<not> aw \<Longrightarrow> config l' = found \<Longrightarrow> conn l' = Some (new_connection d aw) \<Longrightarrow> keys_ok l' \<Longrightarrow>
      restore_at l' = restore_at l \<Longrightarrow> wlp (snapshot fake_env l' w) (\<lambda>_. Q) (\<lambda>_ _. False)"
  shows "wlp (connected fake_env entry i d (found, driven, aw) l w) (\<lambda>x l w. x = Inr () \<and> Q l w) (\<lambda>_ _. False)"
proof -
  let ?rest = "also_do (if aw then bind (now_plus fake_env SETTLE_TIMEOUT) (\<lambda>t. change (\<lambda>l. l\<lparr>settle_at := Some t\<rparr>))
      else snapshot fake_env) (ret (Inr ()))"
  have rest: "wlp (?rest l' w) (\<lambda>x l w. x = Inr () \<and> Q l w) (\<lambda>_ _. False)"
    if "config l' = found" "conn l' = Some (new_connection d aw)" "keys_ok l'" "restore_at l' = restore_at l" for l'
    using assms(2,3) [OF _ that] by (cases aw) (simp_all add: wlp_rules fake_now_same)
  have told: "wlp (also_do (outputs_event found driven re) ?rest l' w) (\<lambda>x l w. x = Inr () \<and> Q l w) (\<lambda>_ _. False)"
    if "config l' = found" "conn l' = Some (new_connection d aw)" "keys_ok l'" "restore_at l' = restore_at l" for l' re
    unfolding wlp_also_do [of "outputs_event found driven re"]
  proof (rule wlp_mono [OF outputs_event_pending])
    fix l1 w1
    assume "\<exists>es. l1 = l'\<lparr>pending := es\<rparr> \<and> w1 = w"
    then have w1: "w1 = w" and "config l1 = found" "conn l1 = Some (new_connection d aw)" "keys_ok l1"
      "restore_at l1 = restore_at l"
      using that by (auto simp: keys_ok_def)
    from rest [OF this(2-5)] show "wlp (?rest l1 w1) (\<lambda>x l w. x = Inr () \<and> Q l w) (\<lambda>_ _. False)"
      unfolding w1 .
  qed simp
  have set: "wlp (also_do (set_config found) (also_do (emit e) (also_do (outputs_event found driven re) ?rest)) l' w)
      (\<lambda>x l w. x = Inr () \<and> Q l w) (\<lambda>_ _. False)"
    if "conn l' = Some (new_connection d aw)" "keys_ok l'" "restore_at l' = restore_at l" for l' re e
    unfolding wlp_also_do [of "set_config found"]
  proof (rule wlp_mono [OF wlp_conj [OF
      wlp_set_config_follows [where F = "\<lambda>_ _. False"] quiet_set_config [where F = "\<lambda>_ _. False"]]])
    fix l1 w1
    assume a: "(follows_config found l' l1 \<and> w1 = w) \<and> no_news l1 = no_news l' \<and> w1 = w"
    then have f: "follows_config found l' l1 \<and> w1 = w" by blast
    have l1: "config l1 = found" "conn l1 = Some (new_connection d aw)" "restore_at l1 = restore_at l"
      using that(1,3) a by (auto simp: follows_config_def dest!: no_news_fields)
    have "keys_ok l1" by (rule follows_keys [OF conjunct1 [OF f] that(2)])
    show "wlp (also_do (emit e) (also_do (outputs_event found driven re) ?rest) l1 w1)
        (\<lambda>x l w. x = Inr () \<and> Q l w) (\<lambda>_ _. False)"
      unfolding wlp_also_do [of "emit e"] wlp_basic conjunct2 [OF f]
      by (rule told) (use l1 \<open>keys_ok l1\<close> in \<open>simp_all add: keys_ok_def\<close>)
  qed simp
  show ?thesis
    unfolding connected_def prod.case wlp_also_do [of "change f" for f] wlp_also_do [of reset_failures]
      wlp_bind [of "look f" for f] reset_failures_def wlp_basic
    by (rule set) (use assms(1) in \<open>simp_all add: keys_ok_def\<close>)
qed

text \<open>The configuration the watcher sees to: the one of its options, or that of the board.\<close>

definition wanted :: "pin_config option \<Rightarrow> pin_config \<Rightarrow> pin_config" where
  "wanted tgt found = (case tgt of None \<Rightarrow> found | Some t \<Rightarrow> t)"

lemma fake_apply_target:
  assumes "good_handle h avail w" "dev_handle d = h" "\<forall>i. dev_info d = Some i \<longrightarrow> available i = avail"
    and "\<forall>t. tgt = Some t \<longrightarrow> wf_config t \<and> config_ok avail t" "found = b_config (board_of h w)"
  shows "\<exists>driven aw d' w'. apply_target fake_env tgt found d w = (Inr (wanted tgt found, driven, aw), d', w') \<and>
    dev_handle d' = h \<and> good_handle h avail w' \<and> b_config (board_of h w') = wanted tgt found \<and>
    (tgt = None \<longrightarrow> \<not> aw \<and> w' = w)"
proof (cases "\<exists>t. tgt = Some t \<and> found \<noteq> t")
  case True
  then obtain t where t: "tgt = Some t" "found \<noteq> t" by blast
  then obtain read d' w' where s: "set_pin_config fake_env t d w = (Inr read, d', w')" "good_handle h avail w'"
    "b_config (board_of h w') = t"
    using fake_port.write_succeeds [OF assms(1-3)] assms(4) by blast
  have "dev_handle d' = dev_handle d"
    using fake_frame.staysD [OF fake_frame.stays_set_pin_config _ _ s(1)] assms(1,2) by (auto simp: good_handle_def)
  have a: "apply_target fake_env tgt found d w = (Inr (t, driven_outputs found t, True), d', w')"
    using s t by (simp add: apply_target_def seq_op_def return_op_def)
  show ?thesis
    unfolding a using s(2,3) t(1) assms(2) \<open>dev_handle d' = dev_handle d\<close> by (auto simp: wanted_def)
next
  case False
  then show ?thesis
    using assms by (auto simp: apply_target_def wanted_def return_op_def split: option.split)
qed

text \<open>The board the options name, the only one that is plugged in.\<close>

definition named_board :: "watch_options \<Rightarrow> nat \<Rightarrow> fake_world \<Rightarrow> bool" where
  "named_board opt b w \<longleftrightarrow>
     filter (\<lambda>b. opt_serial opt = None \<or> opt_serial opt = Some (fb_serial (fw_boards w ! b))) (bus_boards w) = [b] \<and>
     (\<forall>b' \<in> set (bus_boards w). b_path (state_of b' w) = b_path (state_of b w) \<longrightarrow> b' = b) \<and>
     open_error (state_of b w) = None \<and> protocol_version (b_info (state_of b w)) = PROTOCOL_VERSION"

lemma named_open:
  assumes "named_board opt b w" "world_ok w"
  shows "\<exists>w'. bus_open (bus_entry (fw_boards w ! b)) w = (Inr (length (fw_handles w)), w') \<and>
    good_handle (length (fw_handles w)) (available (b_info (state_of b w))) w' \<and>
    fh_board (fw_handles w' ! length (fw_handles w)) = b \<and>
    reports (fw_handles w' ! length (fw_handles w)) = [] \<and>
    (\<exists>hs. state_of b w' = (state_of b w)\<lparr>handles := hs\<rparr>)"
proof -
  let ?h = "length (fw_handles w)" and ?s = "state_of b w"
  let ?w = "set_board b (?s\<lparr>handles := handles ?s @ [?h]\<rparr>)
      (fw_handles w @ [\<lparr>fh_board = b, reports = [], closed = False, gone_away = False\<rparr>]) w"
  have "b \<in> set (filter (\<lambda>b. opt_serial opt = None \<or> opt_serial opt = Some (fb_serial (fw_boards w ! b))) (bus_boards w))"
    using assms(1) by (simp add: named_board_def)
  then have bus: "b \<in> set (bus_boards w)" by simp
  then have b: "b < length (fw_boards w)" using assms(2) by (simp add: world_ok_def)
  have "find (\<lambda>b'. b_path (state_of b' w) = b_path ?s) (bus_boards w) = Some b"
  proof (cases "find (\<lambda>b'. b_path (state_of b' w) = b_path ?s) (bus_boards w)")
    case None
    then show ?thesis using bus unfolding find_None_iff by blast
  next
    case (Some b')
    then show ?thesis using assms(1) by (auto simp: find_Some_iff named_board_def)
  qed
  then have o: "bus_open (bus_entry (fw_boards w ! b)) w = (Inr ?h, ?w)"
    using assms(1) by (simp add: bus_open_def bus_entry_def state_of_def open_board_def named_board_def)
  have s: "state_of b ?w = ?s\<lparr>handles := handles ?s @ [?h]\<rparr>" using b by (simp add: state_of_set_board)
  have "good_handle ?h (available (b_info ?s)) ?w"
    using world_ok_open [OF assms(2) o] s assms(1) by (simp add: good_handle_def board_of_def named_board_def)
  then show ?thesis using o s by auto
qed

text \<open>Connecting to the board: without a configuration to see to, the world is the one after the open.\<close>

definition finds :: "nat \<Rightarrow> fake_world \<Rightarrow> pin_config option \<Rightarrow> watch_loop \<Rightarrow> fake_world \<Rightarrow> bool" where
  "finds b w tgt l' w' \<longleftrightarrow>
     attached (available (b_info (state_of b w))) (wanted tgt (b_config (state_of b w))) l' w' \<and>
     (tgt = None \<longrightarrow> (\<exists>c. conn l' = Some c \<and> \<not> awaiting_config c \<and> dev_handle (c_device c) = length (fw_handles w) \<and>
        restore_at l' = None \<and> bus_open (bus_entry (fw_boards w ! b)) w = (Inr (length (fw_handles w)), w')))"

lemma connect_named:
  assumes "named_board opt b w" "world_ok w" "keys_ok l" "restore_at l = None"
    and "\<forall>t. target l = Some t \<longrightarrow> wf_config t \<and> config_ok (available (b_info (state_of b w))) t"
  shows "wlp (connect fake_env (bus_entry (fw_boards w ! b)) l w)
    (\<lambda>x l' w'. x = Inr () \<and> finds b w (target l) l' w') (\<lambda>_ _. False)"
proof -
  let ?entry = "bus_entry (fw_boards w ! b)" and ?h = "length (fw_handles w)" and ?s = "state_of b w"
  let ?avail = "available (b_info ?s)" and ?cfg = "wanted (target l) (b_config ?s)"
  obtain w1 hs where o: "bus_open ?entry w = (Inr ?h, w1)" "good_handle ?h ?avail w1" "board_of ?h w1 = ?s\<lparr>handles := hs\<rparr>"
    using named_open [OF assms(1,2)] unfolding board_of_def by metis
  have cfg: "b_config (board_of ?h w1) = b_config ?s" by (simp add: o(3))
  obtain d where d: "device_new fake_env ?h (de_serial ?entry) w1 = (d, w1)" "dev_handle d = ?h" "dev_info d = None"
    using device_new_same by blast
  obtain i where i: "info fake_env d w1 = (Inr i, d\<lparr>dev_info := Some i\<rparr>, w1)" "available i = ?avail"
    using fake_info [OF o(2) d(2,3)] by blast
  let ?d = "d\<lparr>dev_info := Some i, dev_config := Some (b_config ?s)\<rparr>"
  have g: "get_pin_config fake_env (d\<lparr>dev_info := Some i\<rparr>) w1 = (Inr (config_report (board_of ?h w1)), ?d, w1)"
    using fake_get_pin_config [OF o(2), of "d\<lparr>dev_info := Some i\<rparr>"] d(2) cfg by simp
  have dd: "dev_handle ?d = ?h" "\<forall>j. dev_info ?d = Some j \<longrightarrow> available j = ?avail" using d(2) i(2) by simp_all
  obtain driven aw d' w2 where a: "apply_target fake_env (target l) (b_config ?s) ?d w1 = (Inr (?cfg, driven, aw), d', w2)"
    "dev_handle d' = ?h" "good_handle ?h ?avail w2" "b_config (board_of ?h w2) = ?cfg" "target l = None \<longrightarrow> \<not> aw \<and> w2 = w1"
    using fake_apply_target [OF o(2) dd assms(5) cfg [symmetric]] by (elim exE conjE) (rule that)
  have e: "e_open fake_env ?entry w = (Inr ?h, w1)" using o(1) by (simp add: fake_env_def)
  have r: "pcr_config (config_report (board_of ?h w1)) = b_config ?s" by (simp add: config_report_def cfg)
  have c: "connect fake_env ?entry l w = connected fake_env ?entry i d' (?cfg, driven, aw) (l\<lparr>wl_info := Some i\<rparr>) w2"
    unfolding connect_def e prod.case sum.case d(1) i(1) g r a(1) ..
  let ?Q = "finds b w (target l)"
  have "wlp (connected fake_env ?entry i d' (?cfg, driven, aw) (l\<lparr>wl_info := Some i\<rparr>) w2)
      (\<lambda>x l' w'. x = Inr () \<and> ?Q l' w') (\<lambda>_ _. False)"
  proof (rule wlp_connected)
    show "keys_ok (l\<lparr>wl_info := Some i\<rparr>)" using assms(3) by (simp add: keys_ok_def)
    show "?Q (l'\<lparr>settle_at := Some t\<rparr>) w2"
      if "aw" "config l' = ?cfg" "conn l' = Some (new_connection d' aw)" for l' t
      using that a(2-5) o(1) by (auto simp: finds_def attached_def new_connection_def)
    show "wlp (snapshot fake_env l' w2) (\<lambda>_. ?Q) (\<lambda>_ _. False)"
      if l': "\<not> aw" "config l' = ?cfg" "conn l' = Some (new_connection d' aw)" "keys_ok l'"
        "restore_at l' = restore_at (l\<lparr>wl_info := Some i\<rparr>)" for l'
    proof (rule wlp_mono [OF joined_snapshot [OF _ a(3)]])
      show "joined ?h ?cfg w2 l' w2" using l' a(2) assms(4) by (simp add: joined_def new_connection_def)
      show "?Q l2 w3" if "joined ?h ?cfg w2 l2 w3" for l2 w3
        using attached_joined [OF that a(3,4)] that a(5) o(1) by (auto simp: joined_def finds_def)
    qed simp
  qed
  then show ?thesis unfolding c .
qed

section \<open>The first turn\<close>

lemma scan_named:
  assumes "named_board opt b w" "world_ok w" "keys_ok l" "wl_serial l = opt_serial opt" "restore_at l = None"
    and "\<forall>t. target l = Some t \<longrightarrow> wf_config t \<and> config_ok (available (b_info (state_of b w))) t"
  shows "wlp (scan fake_env l w)
    (\<lambda>_ l' w'. finds b w (target l) l' w') (\<lambda>_ _. False)"
proof -
  let ?entry = "bus_entry (fw_boards w ! b)"
  have "filter (\<lambda>b. opt_serial opt = None \<or> opt_serial opt = Some (fb_serial (fw_boards w ! b))) (bus_boards w) = [b]"
    using assms(1) by (simp add: named_board_def)
  then have m: "matching_entries (opt_serial opt) (map (\<lambda>b. bus_entry (fw_boards w ! b)) (bus_boards w)) = [?entry]"
    by (simp add: matching_entries_def filter_map bus_entry_def comp_def)
  have d: "list_devices fake_env l' w = Ret (Inr (map (\<lambda>b. bus_entry (fw_boards w ! b)) (bus_boards w))) l' w" for l'
    by (simp add: list_devices_def fake_env_def bus_devices_def)
  let ?l = "l\<lparr>scan_at := None, wl_serial := Some (de_serial ?entry)\<rparr>"
  have c: "wlp (connect fake_env ?entry ?l w) (\<lambda>x l' w'. x = Inr () \<and> finds b w (target l) l' w') (\<lambda>_ _. False)"
    using connect_named [OF assms(1,2), of ?l] assms(3,5,6) by (simp add: keys_ok_def)
  have "wlp (bind (connect fake_env ?entry) (case_sum (\<lambda>e. also_do (failed e) (scan_later fake_env)) ret) ?l w) (\<lambda>_. finds b w (target l)) (\<lambda>_ _. False)"
    unfolding wlp_bind [of "connect E e" for E e] by (rule wlp_mono [OF c]) (auto simp: wlp_basic)
  then show ?thesis
    using assms(4) m by (simp add: scan_def try_connect_def try_entries_def wlp_also_do [of "change f" for f]
        wlp_basic wlp_bind [of "list_devices E" for E] wlp_bind [of "look f" for f] d)
qed

lemma first_turn:
  assumes "named_board opt b w" "world_ok w" "good_options opt" "t0 \<le> fake_now w"
    and "\<forall>t. opt_target opt = Some t \<longrightarrow> config_ok (available (b_info (state_of b w))) t"
  shows "sys_thread (turn fake_env (start_system opt t0 w)) = Running \<and>
    finds b w (opt_target opt) (sys_loop (turn fake_env (start_system opt t0 w))) (sys_world (turn fake_env (start_system opt t0 w)))"
proof -
  let ?s = "start_system opt t0 w" and ?l = "initial_loop opt t0"
  have "\<forall>t. opt_target opt = Some t \<longrightarrow> wf_config t" using assms(3) by (auto simp: good_options_def)
  then have "wlp (scan fake_env ?l w) (\<lambda>_ l' w'. finds b w (target ?l) l' w') (\<lambda>_ _. False)"
    by (intro scan_named [OF assms(1,2)]) (use assms(5) in \<open>simp_all add: initial_loop_def keys_ok_def\<close>)
  then have "wlp (idle_turn fake_env ?l w) (\<lambda>_ l' w'. finds b w (opt_target opt) l' w') (\<lambda>_ _. False)"
    using assms(4) by (simp add: idle_turn_def wlp_bind [of "now E" for E] wlp_bind [of "look f" for f] wlp_now wlp_basic
        fake_now_same due_def initial_loop_def)
  then have body: "wlp (turn_body fake_env [] ?l w) (\<lambda>_ l' w'. finds b w (opt_target opt) l' w') (\<lambda>_ _. False)"
    by (simp add: turn_body_def wlp_also_do [of "idle_turn E" for E] wlp_basic)
  have r: "reachable fake_env test_action opt t0 (turn fake_env ?s)"
    by (rule reachable.step [OF reachable.start thread_turn]) (simp add: start_system_def)
  have ok: "sys_thread (turn fake_env ?s) \<noteq> Crashed" "sys_thread (turn fake_env ?s) \<noteq> Stuck"
    using sys_reachable_inv [OF fake_host.host_axioms r assms(3)] runs_end_well [OF r fake_timed_reads]
    by (simp_all add: sys_inv_def)
  have d: "deliver [] [] = ([], [])" by simp
  show ?thesis
    using body ok by (cases "turn_body fake_env [] ?l w")
      (simp_all add: turn_def start_system_def initial_shared_def d Let_def initial_loop_def)
qed

section \<open>Properties\<close>

text \<open>C5: The watcher finds its board. If exactly one board is plugged in that the options name, it can
  be opened and speaks this version of the protocol, and the configuration of the options, if
  there is one, is valid for it, then the first turn of the thread connects to it: the thread
  runs on, holds an open handle, and the board has the configuration the watcher works with,
  which is that of the options or else the one the board had.\<close>

theorem board_connected:
  assumes "named_board opt b w" "world_ok w" "good_options opt" "t0 \<le> fake_now w"
    and "\<forall>t. opt_target opt = Some t \<longrightarrow> config_ok (available (b_info (state_of b w))) t"
    and "s = turn fake_env (start_system opt t0 w)"
  shows "\<exists>c. sys_thread s = Running \<and> conn (sys_loop s) = Some c \<and>
    handle_live (fw_handles (sys_world s) ! dev_handle (c_device c)) \<and>
    config (sys_loop s) = wanted (opt_target opt) (b_config (state_of b w)) \<and>
    b_config (board_of (dev_handle (c_device c)) (sys_world s)) = config (sys_loop s)"
  using first_turn [OF assms(1-5)] assms(6) by (auto simp: finds_def attached_def good_handle_def)

text \<open>A board that is plugged in, and options that name it.\<close>

definition plugged_world :: fake_world where
  "plugged_world = plug 0 (make_board ''ABCD'' empty_world)"

lemma plugged_simps:
  "length (fw_boards plugged_world) = 1" "fw_handles plugged_world = []" "bus_boards plugged_world = [0]"
  "b_path (state_of 0 plugged_world) = ''/dev/hidraw0''" "handles (state_of 0 plugged_world) = []"
  "open_error (state_of 0 plugged_world) = None" "b_info (state_of 0 plugged_world) = pico_info"
  "powered (state_of 0 plugged_world)" "\<not> b_overflow (state_of 0 plugged_world)"
  "b_config (state_of 0 plugged_world) = default_for PICO_AVAILABLE"
  and plugged_inputs: "inputs (state_of 0 plugged_world) = PICO_AVAILABLE"
  by (simp_all add: plugged_world_def plug_def make_board_def empty_world_def
      plug_board_def state_of_def set_board_def fake_board_new_def new_state_def pico_info_def Let_def show_0)

lemma plugged_named: "named_board any_board 0 plugged_world"
  by (simp add: named_board_def plugged_simps any_board_def pico_info_def)

lemma plugged_ok: "world_ok plugged_world"
  unfolding plugged_world_def
  by (intro test_action_ok [OF test_plug] test_action_ok [OF test_make] world_ok_empty)
    (simp add: make_board_def empty_world_def)

lemma any_board_target: "opt_target any_board = None"
  by (simp add: any_board_def)

lemma plugged_start: "Instant 0 \<le> fake_now plugged_world"
  by (simp add: fake_now_def less_eq_instant_def)

theorem board_connected_witness:
  "config (sys_loop (turn fake_env (start_system any_board (Instant 0) plugged_world))) = default_for PICO_AVAILABLE"
  using board_connected [OF plugged_named plugged_ok any_board_good plugged_start]
  by (auto simp: any_board_target wanted_def plugged_simps)

lemma plugged_linked: "linked_world plugged_world \<and> roomy plugged_world"
  using plugged_ok plugged_simps by (simp add: linked_world_def roomy_def)

definition plugged_turn :: "fake_world system" where
  "plugged_turn = turn fake_env (start_system any_board (Instant 0) plugged_world)"

definition plugged_open :: "fake_world \<Rightarrow> bool" where
  "plugged_open w \<longleftrightarrow> good_handle 0 PICO_AVAILABLE w \<and> fh_board (fw_handles w ! 0) = 0 \<and>
     reports (fw_handles w ! 0) = [] \<and> length (fw_handles w) = 1 \<and>
     (\<exists>hs. state_of 0 w = (state_of 0 plugged_world)\<lparr>handles := hs\<rparr>)"

lemma plugged_first:
  obtains c where "calm_run any_board (Instant 0) plugged_world plugged_turn" "sys_thread plugged_turn = Running"
    "conn (sys_loop plugged_turn) = Some c" "dev_handle (c_device c) = 0" "\<not> awaiting_config c"
    "restore_at (sys_loop plugged_turn) = None" "plugged_open (sys_world plugged_turn)"
proof -
  have f: "sys_thread plugged_turn = Running" "finds 0 plugged_world None (sys_loop plugged_turn) (sys_world plugged_turn)"
    using first_turn [OF plugged_named plugged_ok any_board_good plugged_start]
    by (simp_all add: any_board_target plugged_turn_def)
  then obtain c where c: "conn (sys_loop plugged_turn) = Some c" "\<not> awaiting_config c" "dev_handle (c_device c) = 0"
    "restore_at (sys_loop plugged_turn) = None"
    "bus_open (bus_entry (fw_boards plugged_world ! 0)) plugged_world = (Inr 0, sys_world plugged_turn)"
    by (auto simp: finds_def plugged_simps)
  have "length (fw_handles (sys_world plugged_turn)) = 1"
    using world_ok_open [OF plugged_ok c(5)] by simp
  then have o: "plugged_open (sys_world plugged_turn)"
    using named_open [OF plugged_named plugged_ok] c(5) by (auto simp: plugged_simps pico_info_def plugged_open_def)
  then have "roomy (sys_world plugged_turn)" by (simp add: roomy_def QUEUE_LEN_def plugged_open_def)
  moreover have "sys_step fake_env test_action (start_system any_board (Instant 0) plugged_world) plugged_turn"
    unfolding plugged_turn_def by (rule thread_turn) (simp add: start_system_def)
  moreover have "calm_run any_board (Instant 0) plugged_world (start_system any_board (Instant 0) plugged_world)"
    using plugged_linked any_board_good by (simp add: calm_run_def)
  ultimately have "calm_run any_board (Instant 0) plugged_world plugged_turn" using calm_run_step by blast
  then show thesis using that f(1) c(1,3,2,4) o by blast
qed

theorem view_of_board_witness:
  "\<exists>c. conn (sys_loop plugged_turn) = Some c \<and> config (sys_loop plugged_turn) = default_for PICO_AVAILABLE \<and>
    (\<forall>g on. map_of (known (sys_loop plugged_turn)) g = Some on \<longrightarrow> replay (history plugged_turn) g = Some on)"
proof -
  obtain c where c: "calm_run any_board (Instant 0) plugged_world plugged_turn" "sys_thread plugged_turn = Running"
    "conn (sys_loop plugged_turn) = Some c" "dev_handle (c_device c) = 0" "\<not> awaiting_config c"
    and o: "plugged_open (sys_world plugged_turn)"
    using plugged_first by metis
  have w: "handle_live (fw_handles (sys_world plugged_turn) ! 0)" "\<not> b_overflow (board_of 0 (sys_world plugged_turn))"
    "reports (fw_handles (sys_world plugged_turn) ! 0) = []" "b_config (board_of 0 (sys_world plugged_turn)) = default_for PICO_AVAILABLE"
    using o by (auto simp: plugged_open_def good_handle_def board_of_def plugged_simps)
  from view_of_board [OF c(1-3) c(4) [symmetric] w(1,3,2) c(5)]
  show ?thesis using c(3) w(4) by auto
qed

end
