(* ===== verification/Watch_Told.thy ===== *)
theory Watch_Told
  imports Watch_Connects
begin

text \<open>
  From the pin to the application: a change of an input is told by the next turn of the thread.
\<close>

section \<open>A turn that reads one report\<close>

text \<open>The thread has nothing else to do than to read.\<close>

definition only_reads :: "fake_world system \<Rightarrow> bool" where
  "only_reads s \<longleftrightarrow> sys_thread s = Running \<and> \<not> stopping (sys_shared s) \<and> requests (sys_shared s) = [] \<and>
     length (out (sys_shared s)) + length (pending (sys_loop s)) \<le> OUT_CAPACITY \<and>
     scan_at (sys_loop s) = None \<and> restore_at (sys_loop s) = None \<and> settle_at (sys_loop s) = None"

lemma deliver_all: "length queue + length pend \<le> OUT_CAPACITY \<Longrightarrow> deliver pend queue = ([], queue @ pend)"
  by (induction pend queue rule: deliver.induct) auto

lemma turn_reads:
  assumes "only_reads s" "conn (sys_loop s) = Some c" "h = dev_handle (c_device c)" "keys_ok (sys_loop s)"
    and "handle_live (fw_handles (sys_world s) ! h)" "reports (fw_handles (sys_world s) ! h) = (REPORT_ID_STATUS # p) # q"
    and "length p = 63" "decode_status p = Inr r" "\<not> config_news r"
    and "sys_thread (turn fake_env s) \<noteq> Crashed" "sys_thread (turn fake_env s) \<noteq> Stuck"
  shows "sys_thread (turn fake_env s) = Running \<and> after_report r c (sys_loop s) (sys_loop (turn fake_env s)) \<and>
    sys_world (turn fake_env s) = (sys_world s)\<lparr>fw_handles := (fw_handles (sys_world s))[h :=
      (fw_handles (sys_world s) ! h)\<lparr>reports := q\<rparr>]\<rparr>"
proof -
  let ?l = "(sys_loop s)\<lparr>pending := []\<rparr>" and ?w = "sys_world s" and ?d = "REPORT_ID_STATUS # p"
  let ?w' = "?w\<lparr>fw_handles := (fw_handles ?w)[h := (fw_handles ?w ! h)\<lparr>reports := q\<rparr>]\<rparr>"
  let ?t = "read_timeout ?l (fake_now ?w)"
  let ?Q = "\<lambda>_ l' w'. w' = ?w' \<and> after_report r c (sys_loop s) l'"
  have "instant_add (fake_now ?w) ?t \<noteq> None"
    using read_timeout_short [of ?l "fake_now ?w"] fake_now_range [of ?w]
    by (simp add: instant_add_def in_time_range_def time_limit_def horizon_def)
  then have e: "e_read fake_env h (replicate REPORT_LEN 0) (Some ?t) ?w = Some (Inr 64, ?d, ?w')"
    using assms(5-7) by (auto simp: fake_env_def handle_read_def Let_def handle_live_def REPORT_LEN_eq split: option.split)
  have step: "wlp (status_step fake_env r t m (l1\<lparr>conn := Some (c\<lparr>c_last_seq := x\<rparr>)\<rparr>) ?w') ?Q (\<lambda>_ _. False)"
    if "config l1 = config (sys_loop s)" "keys_ok l1" "restore_at l1 = restore_at (sys_loop s)" for t m x l1
  proof (rule wlp_mono [OF status_step_still [of _ "c\<lparr>c_last_seq := x\<rparr>", OF _ _ assms(9)]])
    show "keys_ok (l1\<lparr>conn := Some (c\<lparr>c_last_seq := x\<rparr>)\<rparr>)" using that(2) by (simp add: keys_ok_def)
  qed (use that in \<open>auto simp: after_report_def\<close>)
  have fields: "scan_at ?l = None" "restore_at ?l = None" "settle_at ?l = None" "conn ?l = Some c" "pending ?l = []"
    using assms(1,2) by (simp_all add: only_reads_def)
  have k: "keys_ok ?l" using assms(4) by (simp add: keys_ok_def)
  have "wlp (received fake_env ?d t (?l\<lparr>conn := Some c\<rparr>) ?w') ?Q (\<lambda>_ _. False)" for t
    using step [of ?l] k assms(7,8) fields by (simp add: received_def REPORT_LEN_eq REPORT_PAYLOAD_LEN_def wlp_rules Let_def)
  then have "wlp (read_device fake_env ?t ?l ?w) ?Q (\<lambda>_ _. False)"
    using e assms(3,7) fields
    by (simp add: read_device_def read_report_def read_raw_def wlp_rules fill_def REPORT_LEN_eq fake_now_same)
  then have "wlp (turn_body fake_env [] ?l ?w) ?Q (\<lambda>_ _. False)"
    using fields
    by (simp add: turn_body_def idle_turn_def wlp_also_do [of "idle_turn E" for E] wlp_bind [of "now E" for E]
        wlp_bind [of "look f" for f] wlp_also_do [of "bind m f" for m f] wlp_now wlp_basic fake_now_same due_def)
  then show ?thesis
    using assms(1,10,11) deliver_all [of "out (sys_shared s)" "pending (sys_loop s)"]
    by (cases "turn_body fake_env [] ?l ?w") (auto simp: turn_def only_reads_def Let_def)
qed

section \<open>The change and its turn\<close>

text \<open>What the world is after the change and after the turn that reads its report.\<close>

lemma input_world:
  assumes "linked_world w" "h < length (fw_handles w)" "handle_live (fw_handles w ! h)" "reports (fw_handles w ! h) = []"
    and "unat g < 30" "is_monitored (b_config (board_of h w) ! unat g)" "bit (inputs (board_of h w)) (unat g) \<noteq> high"
    and "on_board (fh_board (fw_handles w ! h)) (set_input g high) w = Some w1"
  obtains p r where "decode_status p = Inr r" "length p = 63" "\<not> config_news r" "\<not> solicited r"
    "last_seq (board_of h w) \<noteq> 0 \<Longrightarrow> seq r = last_seq (board_of h w) + 1"
    "h < length (fw_handles w1)" "handle_live (fw_handles w1 ! h)" "reports (fw_handles w1 ! h) = [REPORT_ID_STATUS # p]"
    "board_of h w1 = after_send (followed g high (board_of h w))"
proof -
  let ?b = "fh_board (fw_handles w ! h)" and ?s = "board_of h w"
  have ok: "world_ok w" using assms(1) by (simp add: linked_world_def)
  note b = world_handleD(2) [OF ok assms(2)]
  have st: "state_of ?b w = ?s" by (simp add: board_of_def)
  have bs: "board_ok ?s" "powered ?s" using live_powered [OF assms(1-3)] by simp_all
  have "h \<in> set (handles ?s)" using ok assms(2,3) by (simp add: world_ok_def board_of_def)
  have lv: "bit (b_levels ?s) (unat g) \<noteq> high"
    using board_okD(3) [OF bs(1), of "unat g"] bs(2) assms(5-7) by (simp add: level_ok_def)
  let ?r = "sent_report (followed g high ?s) LEVEL_CHANGED
      [\<lparr>ev_gpio = g, ev_level = high, age_us = ucast (param (b_config ?s ! unat g)) * 1000\<rparr>]"
  obtain p where p: "w1 = set_board ?b (after_send (followed g high ?s))
      (fold (push_report (REPORT_ID_STATUS # p)) (handles ?s) (fw_handles w)) w" "decode_status p = Inr ?r" "length p = 63"
    using set_input_sends [OF ok b assms(5), of high] bs(2) assms(6,8) lv by (auto simp: st)
  have q: "reports (fw_handles w1 ! h) = [REPORT_ID_STATUS # p]"
    using nth_push [OF world_boardD(2) [OF ok b]] world_boardD(3) [OF ok b, of h] \<open>h \<in> set (handles ?s)\<close> assms(4)
    by (simp add: p(1) st QUEUE_LEN_def)
  show thesis
  proof (rule that [OF p(2,3) _ _ _ _ _ q])
    show "\<not> config_news ?r" "\<not> solicited ?r"
      by (simp_all add: config_news_def solicited_def sent_report_def fake_status_def reason_flags)
    show "seq ?r = last_seq ?s + 1" if "last_seq ?s \<noteq> 0"
      using next_of_last [OF bs(1) that] by (simp add: sent_report_def fake_status_def followed_def moved_def)
    show "h < length (fw_handles w1)" "handle_live (fw_handles w1 ! h)"
      using assms(2,3) push_same by (simp_all add: p(1))
    show "board_of h w1 = after_send (followed g high ?s)"
      using assms(2) b push_same by (simp add: p(1) board_of_def state_of_set_board)
  qed
qed

text \<open>A report that is the next one supersedes the snapshot.\<close>

lemma next_supersedes:
  assumes "synced Empty_Hand False l c (board_link s [])" "\<not> solicited r" "last_seq s \<noteq> 0 \<Longrightarrow> seq r = last_seq s + 1"
  shows "snd (stale_after (snapshot_seq c) r) = None"
proof (cases "snapshot_seq c")
  case (Some n)
  then have "n \<noteq> 0" "n = last_seq s"
    using assms(1) by (auto simp: synced_def snapshot_fine_def absorbs_def)
  then have "fresh_after (Some n) r" using assms(3) next_fresh by blast
  then show ?thesis using stale_cases [OF assms(2), of "Some n"] Some by (cases "stale_after (Some n) r") auto
qed (simp add: stale_after_def)

text \<open>The turn that reads the report of a change.\<close>

lemma input_turn:
  assumes "calm_run opt t0 w0 s" "only_reads s" "conn (sys_loop s) = Some c" "h = dev_handle (c_device c)"
    and "handle_live (fw_handles (sys_world s) ! h)" "reports (fw_handles (sys_world s) ! h) = []"
    and "unat g < 30" "is_monitored (b_config (board_of h (sys_world s)) ! unat g)"
    and "bit (inputs (board_of h (sys_world s))) (unat g) \<noteq> high"
    and "on_board (fh_board (fw_handles (sys_world s) ! h)) (set_input g high) (sys_world s) = Some w1" "roomy w1"
    and "s' = turn fake_env (s\<lparr>sys_world := w1\<rparr>)"
  obtains c' where "calm_run opt t0 w0 s'" "sys_thread s' = Running" "conn (sys_loop s') = Some c'"
    "h = dev_handle (c_device c')" "\<not> awaiting_config c'" "snapshot_seq c' = None"
    "handle_live (fw_handles (sys_world s') ! h)" "reports (fw_handles (sys_world s') ! h) = []"
    "board_of h (sys_world s') = after_send (followed g high (board_of h (sys_world s)))"
proof -
  let ?s1 = "s\<lparr>sys_world := w1\<rparr>" and ?w = "sys_world s"
  have run: "sys_thread s = Running" using assms(2) by (simp add: only_reads_def)
  note m = calm_run_seen [OF assms(1) run]
  have w: "linked_world ?w" "h < length (fw_handles ?w)" "keys_ok (sys_loop s)"
    using m(1) assms(3,4) by (simp_all add: seen_def)
  obtain p r where r: "decode_status p = Inr r" "length p = 63" "\<not> config_news r" "\<not> solicited r"
      "last_seq (board_of h ?w) \<noteq> 0 \<Longrightarrow> seq r = last_seq (board_of h ?w) + 1"
    and w1: "h < length (fw_handles w1)" "handle_live (fw_handles w1 ! h)" "reports (fw_handles w1 ! h) = [REPORT_ID_STATUS # p]"
      "board_of h w1 = after_send (followed g high (board_of h ?w))"
    using input_world [OF w(1,2) assms(5-10)] by metis
  have "fake_obs h ?w = Some (board_link (board_of h ?w) [])"
    using w assms(5,6) by (simp add: fake_obs_def QUEUE_LEN_def)
  then have sy: "synced Empty_Hand False (sys_loop s) c (board_link (board_of h ?w) [])"
    using m(1) assms(3,4) by (simp add: seen_def)
  have "timed (sys_loop s)" by (rule reachable_timed [OF calm_run_inv(1) [OF assms(1)] run])
  then have aw: "\<not> awaiting_config c" using assms(2,3) by (simp add: timed_def only_reads_def)
  have b: "fh_board (fw_handles ?w ! h) < length (fw_boards ?w)"
    using w(1,2) world_handleD(2) by (simp add: linked_world_def)
  have s1: "calm_run opt t0 w0 ?s1"
    using calm_run_step [OF assms(1) world_moves] test_input [OF b assms(7,10)] assms(11) by simp
  have r1: "reachable fake_env test_action opt t0 s'"
    unfolding assms(12) by (rule reachable.step [OF calm_run_inv(1) [OF s1] thread_turn]) (simp add: run)
  have good: "good_options opt" using assms(1) by (simp add: calm_run_def)
  have s': "sys_thread s' = Running" "after_report r c (sys_loop s) (sys_loop s')"
    and w': "sys_world s' = w1\<lparr>fw_handles := (fw_handles w1)[h := (fw_handles w1 ! h)\<lparr>reports := []\<rparr>]\<rparr>"
    using turn_reads [of ?s1 c h p "[]" r] assms(2-4) w(3) w1(2,3) r(1-3) runs_end_well [OF r1 fake_timed_reads]
      sys_reachable_inv [OF fake_host.host_axioms r1 good]
    by (simp_all add: only_reads_def sys_inv_def assms(12))
  have "roomy (sys_world s')"
    using assms(11) w1(1) by (simp add: w' roomy_def nth_list_update QUEUE_LEN_def)
  then have run': "calm_run opt t0 w0 s'"
    using calm_run_step [OF s1 thread_turn] run assms(12) by simp
  obtain c' where c': "conn (sys_loop s') = Some c'" "h = dev_handle (c_device c')" "\<not> awaiting_config c'" "snapshot_seq c' = None"
    using s'(2) next_supersedes [OF sy r(4,5)] aw assms(4) by (auto simp: after_report_def)
  show thesis
    using that [OF run' s'(1) c'] w1 by (simp add: w' board_of_def state_of_def handle_live_def)
qed

section \<open>Properties\<close>

text \<open>C2: A change of an input reaches the application: while the thread is connected, has read all reports
  of its board and has nothing else to do (no timer, no request, room for its events), a change
  of a monitored input is told by its next turn. After it the events, those still to be delivered
  included, say of the pin what its input is now, which is the opposite of what it was, and the
  queue of the handle is empty again. This holds in every run, from simulated boards in order and
  a scan interval up to \<open>horizon\<close>, in which no queue of a handle was full and no report number
  was skipped: a board that skips half of the range of the numbers makes its next report look
  older than the status read when connecting.\<close>

theorem input_told:
  assumes "calm_run opt t0 w0 s" "only_reads s" "conn (sys_loop s) = Some c" "h = dev_handle (c_device c)"
    and "handle_live (fw_handles (sys_world s) ! h)" "reports (fw_handles (sys_world s) ! h) = []"
    and "unat g < 30" "is_monitored (b_config (board_of h (sys_world s)) ! unat g)"
    and "bit (inputs (board_of h (sys_world s))) (unat g) \<noteq> high"
    and "on_board (fh_board (fw_handles (sys_world s) ! h)) (set_input g high) (sys_world s) = Some w1" "roomy w1"
    and "s' = turn fake_env (s\<lparr>sys_world := w1\<rparr>)"
  shows "sys_thread s' = Running \<and> bit (inputs (board_of h (sys_world s'))) (unat g) = high \<and>
    reports (fw_handles (sys_world s') ! h) = [] \<and>
    (\<exists>on. shown_on (opt_active_low opt) (board_of h (sys_world s)) g = Some (\<not> on) \<and>
      shown_on (opt_active_low opt) (board_of h (sys_world s')) g = Some on \<and> replay (history s') g = Some on)"
proof -
  let ?lows = "opt_active_low opt" and ?b = "board_of h (sys_world s)"
  obtain c' where run: "calm_run opt t0 w0 s'" "sys_thread s' = Running" and c': "conn (sys_loop s') = Some c'"
    "h = dev_handle (c_device c')" "\<not> awaiting_config c'" "snapshot_seq c' = None"
    and h': "handle_live (fw_handles (sys_world s') ! h)" "reports (fw_handles (sys_world s') ! h) = []"
    and b': "board_of h (sys_world s') = after_send (followed g high ?b)"
    using input_turn [OF assms] by metis
  have over: "\<not> b_overflow (board_of h (sys_world s'))" by (simp add: b' after_send_def)
  note view = quiet_view [OF calm_run_seen [OF run] c'(1,2) h' over c'(3)]
  have cfg: "b_config (board_of h (sys_world s')) = b_config ?b"
    and bits: "bit (inputs (board_of h (sys_world s'))) (unat g) = high"
    using bit_moved [OF assms(7), of "unat g"] assms(7) by (simp_all add: b' after_send_def followed_def moved_def)
  have "wf_config (b_config (board_of h (sys_world s')))" using view board_okD(1) by blast
  then obtain on where on: "shown_on ?lows (board_of h (sys_world s')) g = Some on"
    using shown_on_monitored [of "board_of h (sys_world s')" g ?lows] assms(7,8) cfg by auto
  have before: "shown_on ?lows ?b g = Some (\<not> on)"
    using on bits assms(7-9) by (auto simp: shown_on_def cfg)
  have "shown_on (active_low (sys_loop s')) (board_of h (sys_world s')) g = Some on"
    using on calm_run_inv(4) [OF run] by simp
  then have "map_of (known (sys_loop s')) g = Some on" using view c'(4) by blast
  then have told: "replay (history s') g = Some on" by (rule known_told [OF calm_run_inv(2) [OF run(1)] run(2)])
  show ?thesis by (intro conjI exI [of _ on] run(2) bits h'(2) before on told)
qed

section \<open>The queues drain\<close>

text \<open>A thread that is connected and has nothing due but events to deliver.\<close>

definition at_rest :: "fake_world system \<Rightarrow> bool" where
  "at_rest s \<longleftrightarrow> sys_thread s = Running \<and> \<not> stopping (sys_shared s) \<and> requests (sys_shared s) = [] \<and>
     conn (sys_loop s) \<noteq> None \<and> scan_at (sys_loop s) = None \<and> restore_at (sys_loop s) = None \<and> settle_at (sys_loop s) = None"

text \<open>What draining leaves alone.\<close>

definition same_place :: "fake_world system \<Rightarrow> fake_world system \<Rightarrow> bool" where
  "same_place s s' \<longleftrightarrow> sys_world s' = sys_world s \<and> conn (sys_loop s') = conn (sys_loop s)"

lemma turn_delivers:
  assumes "at_rest s" "out (sys_shared s) = []" "OUT_CAPACITY < length (pending (sys_loop s))"
  shows "at_rest (turn fake_env s) \<and> same_place s (turn fake_env s) \<and>
    length (out (sys_shared (turn fake_env s))) = OUT_CAPACITY \<and>
    length (pending (sys_loop (turn fake_env s))) + OUT_CAPACITY = length (pending (sys_loop s))"
proof -
  obtain pend queue where d: "deliver (pending (sys_loop s)) [] = (pend, queue)" by force
  have q: "length queue = OUT_CAPACITY" "length pend + OUT_CAPACITY = length (pending (sys_loop s))" "pend \<noteq> []"
    using deliver_spec [OF d] assms(3) by auto
  let ?l = "(sys_loop s)\<lparr>pending := pend\<rparr>"
  have "turn_body fake_env [] ?l (sys_world s) = Ret [] ?l (sys_world s)"
    using assms(1) q(3)
    by (simp add: turn_body_def idle_turn_def also_do_def bind_def now_def fake_now_same look_def ret_def due_def at_rest_def)
  then show ?thesis
    using assms(1,2) q by (simp add: turn_def d at_rest_def same_place_def Let_def)
qed

text \<open>Turns of the thread and calls of the application lead to a thread that only reads.\<close>

lemma drains:
  assumes "calm_run opt t0 w0 s" "at_rest s"
  shows "\<exists>s'. calm_run opt t0 w0 s' \<and> only_reads s' \<and> same_place s s'"
  using assms
proof (induction "2 * length (pending (sys_loop s)) + length (out (sys_shared s))" arbitrary: s rule: less_induct)
  case less
  have run: "sys_thread s = Running" using less.prems(2) by (simp add: at_rest_def)
  note world = calm_run_seen(2) [OF less.prems(1) run]
  show ?case
  proof (cases "length (out (sys_shared s)) + length (pending (sys_loop s)) \<le> OUT_CAPACITY")
    case True
    then have "only_reads s" using less.prems(2) by (simp add: only_reads_def at_rest_def)
    then show ?thesis using less.prems(1) by (auto simp: same_place_def)
  next
    case False
    show ?thesis
    proof (cases "out (sys_shared s)")
      case Nil
      let ?s = "turn fake_env s"
      have t: "at_rest ?s" "same_place s ?s" "length (out (sys_shared ?s)) = OUT_CAPACITY"
        "length (pending (sys_loop ?s)) + OUT_CAPACITY = length (pending (sys_loop s))"
        using turn_delivers [OF less.prems(2) Nil] False Nil by simp_all
      have "calm_run opt t0 w0 ?s"
        by (rule calm_run_step [OF less.prems(1) thread_turn [OF run]]) (use t(2) world in \<open>simp add: same_place_def\<close>)
      then have "\<exists>s'. calm_run opt t0 w0 s' \<and> only_reads s' \<and> same_place ?s s'"
        by (intro less.hyps) (use t Nil in \<open>simp_all add: OUT_CAPACITY_def\<close>)
      then show ?thesis using t(2) by (auto simp: same_place_def)
    next
      case (Cons e es)
      let ?s = "s\<lparr>sys_shared := (sys_shared s)\<lparr>out := es\<rparr>, sys_taken := sys_taken s @ [e]\<rparr>"
      have "sys_step fake_env test_action s ?s" by (rule app_take) (simp add: take_event_def Cons)
      then have "calm_run opt t0 w0 ?s" by (rule calm_run_step [OF less.prems(1)]) (simp add: world)
      then have "\<exists>s'. calm_run opt t0 w0 s' \<and> only_reads s' \<and> same_place ?s s'"
        by (intro less.hyps) (use less.prems(2) in \<open>simp_all add: Cons at_rest_def\<close>)
      then show ?thesis by (simp add: same_place_def)
    qed
  qed
qed

lemma turn_shared:
  assumes "sys_thread s = Running" "sys_thread (turn E s) = Running"
  shows "stopping (sys_shared (turn E s)) = stopping (sys_shared s)" "requests (sys_shared (turn E s)) = []"
  using assms by (auto simp: turn_def Let_def end_thread_def split: prod.splits outcome.splits if_splits)

text \<open>The board of the witnesses, connected and drained.\<close>

lemma plugged_connected:
  obtains s c where "calm_run any_board (Instant 0) plugged_world s" "only_reads s" "conn (sys_loop s) = Some c"
    "dev_handle (c_device c) = 0" "good_handle 0 PICO_AVAILABLE (sys_world s)" "fh_board (fw_handles (sys_world s) ! 0) = 0"
    "reports (fw_handles (sys_world s) ! 0) = []" "length (fw_handles (sys_world s)) = 1"
    "\<exists>hs. state_of 0 (sys_world s) = (state_of 0 plugged_world)\<lparr>handles := hs\<rparr>"
proof -
  obtain c where c: "calm_run any_board (Instant 0) plugged_world plugged_turn" "sys_thread plugged_turn = Running"
    "conn (sys_loop plugged_turn) = Some c" "dev_handle (c_device c) = 0" "\<not> awaiting_config c"
    "restore_at (sys_loop plugged_turn) = None" and o: "plugged_open (sys_world plugged_turn)"
    using plugged_first by metis
  have "timed (sys_loop plugged_turn)" by (rule reachable_timed [OF calm_run_inv(1) [OF c(1)] c(2)])
  then have "scan_at (sys_loop plugged_turn) = None" "settle_at (sys_loop plugged_turn) = None"
    using c(3,5) by (simp_all add: timed_def)
  moreover have "\<not> stopping (sys_shared plugged_turn)" "requests (sys_shared plugged_turn) = []"
    using c(2) turn_shared [of "start_system any_board (Instant 0) plugged_world"]
    by (simp_all add: plugged_turn_def start_system_def initial_shared_def)
  ultimately have "at_rest plugged_turn" using c(2,3,6) by (simp add: at_rest_def)
  then obtain s where "calm_run any_board (Instant 0) plugged_world s" "only_reads s" "same_place plugged_turn s"
    using drains [OF c(1)] by blast
  then show thesis using that [of s c] c(3,4) o by (simp add: same_place_def plugged_open_def)
qed

theorem input_told_witness:
  "\<exists>s w1 on. on_board 0 (set_input 2 False) (sys_world s) = Some w1 \<and>
    replay (history (turn fake_env (s\<lparr>sys_world := w1\<rparr>))) 2 = Some on"
proof -
  obtain s c where s: "calm_run any_board (Instant 0) plugged_world s" "only_reads s" "conn (sys_loop s) = Some c"
    "dev_handle (c_device c) = 0" "good_handle 0 PICO_AVAILABLE (sys_world s)" "fh_board (fw_handles (sys_world s) ! 0) = 0"
    "reports (fw_handles (sys_world s) ! 0) = []" "length (fw_handles (sys_world s)) = 1"
    and "\<exists>hs. state_of 0 (sys_world s) = (state_of 0 plugged_world)\<lparr>handles := hs\<rparr>"
    using plugged_connected by metis
  then obtain hs where b: "state_of 0 (sys_world s) = (state_of 0 plugged_world)\<lparr>handles := hs\<rparr>" by blast
  have pin: "bit PICO_AVAILABLE 2" by (simp add: PICO_AVAILABLE_def)
  then have mon: "is_monitored (default_for PICO_AVAILABLE ! 2)"
    by (simp add: nth_default pull_up_def is_monitored_def is_input_def)
  have high: "bit (inputs (state_of 0 plugged_world)) 2" using pin by (simp add: plugged_inputs)
  have ok: "world_ok (sys_world s)" "0 < length (fw_boards (sys_world s))"
    using s(5) world_handleD(2) s(6) by (fastforce simp: good_handle_def)+
  have lv: "bit (b_levels (state_of 0 (sys_world s))) 2"
    using board_okD(3) [OF world_boardD(1) [OF ok], of 2] mon high by (simp add: level_ok_def b plugged_simps)
  obtain p where o: "on_board 0 (set_input 2 False) (sys_world s) = Some (set_board 0 (after_send (followed 2 False (state_of 0 (sys_world s))))
      (fold (push_report (REPORT_ID_STATUS # p)) (handles (state_of 0 (sys_world s))) (fw_handles (sys_world s))) (sys_world s))"
    using set_input_sends [OF ok, of 2 False] lv mon by (auto simp: b plugged_simps)
  let ?w1 = "set_board 0 (after_send (followed 2 False (state_of 0 (sys_world s))))
      (fold (push_report (REPORT_ID_STATUS # p)) (handles (state_of 0 (sys_world s))) (fw_handles (sys_world s))) (sys_world s)"
  have live: "handle_live (fw_handles (sys_world s) ! 0)" using s(5) by (simp add: good_handle_def)
  have open_handle: "0 \<in> set (handles (state_of 0 (sys_world s)))"
    using ok(1) live s(6,8) by (auto simp: world_ok_def)
  have "reports (fw_handles ?w1 ! 0) = [REPORT_ID_STATUS # p]"
    using nth_push [OF world_boardD(2) [OF ok]] s(7) open_handle world_boardD(3) [OF ok, of 0]
    by (simp add: QUEUE_LEN_def)
  then have "roomy ?w1" using s(8) push_same by (simp add: roomy_def QUEUE_LEN_def)
  from input_told [OF s(1-3) s(4) [symmetric] live s(7), of 2 False, OF _ _ _ _ this refl] o
  show ?thesis using mon high s(6) by (auto simp: board_of_def b plugged_simps)
qed

end
