(* ===== verification/Watch_Typing.thy ===== *)
theory Watch_Typing
  imports Watch_Theorems Watch_Frame
begin

text \<open>
  Well-typed states and events. The sources give a pin as a \<open>u8\<close> and a pin configuration as an array
  of 30; that a GPIO number is one of a pin, and a list of pins in order and not empty, is not
  in their types. \<open>typed P m\<close> says that \<open>m\<close> keeps the state of the thread well-typed, which
  includes every event it has yet to deliver, and returns a value with \<open>P\<close>. There is one rule for
  each way of composing operations and one lemma for each operation.
\<close>

section \<open>Types\<close>

definition pins_ok :: "u8 list \<Rightarrow> bool" where
  "pins_ok gs \<longleftrightarrow> sorted_wrt (<) gs \<and> list_all (\<lambda>g. unat g < 30) gs"

fun event_ok :: "event \<Rightarrow> bool" where
  "event_ok (Connected serial path i cfg re) \<longleftrightarrow> wf_config cfg"
| "event_ok (StatusReceived r missed on) \<longleftrightarrow> status_encodable r \<and> unat missed < 0x10000 \<and>
     bt_keys on = mask_to_gpios (monitored r)"
| "event_ok (InitialOnOff on) \<longleftrightarrow> on \<noteq> [] \<and> pins_ok (bt_keys on)"
| "event_ok (OnOffChange c) \<longleftrightarrow> unat (oc_gpio c) < 30 \<and>
     (oc_inferred c \<longrightarrow> oc_device_us c = None) \<and> (oc_time c = None \<longleftrightarrow> oc_device_us c = None)"
| "event_ok (OutputsReset gs cause) \<longleftrightarrow> gs \<noteq> [] \<and> pins_ok gs"
| "event_ok (PinConfigChanged cfg) \<longleftrightarrow> wf_config cfg"
| "event_ok (PinConfigRestored found n) \<longleftrightarrow> wf_config found"
| "event_ok (Disconnected e) \<longleftrightarrow> True"
| "event_ok (ConnectFailed e) \<longleftrightarrow> True"

definition loop_typed :: "watch_loop \<Rightarrow> bool" where
  "loop_typed l \<longleftrightarrow> wf_config (config l) \<and> pred_option wf_config (target l) \<and> known_ok (known l) \<and>
     list_all event_ok (pending l)"

lemma loop_typed_fields [simp]:
  "loop_typed (l\<lparr>conn := x1\<rparr>) = loop_typed l" "loop_typed (l\<lparr>scan_at := x2\<rparr>) = loop_typed l"
  "loop_typed (l\<lparr>restore_at := x2\<rparr>) = loop_typed l" "loop_typed (l\<lparr>settle_at := x2\<rparr>) = loop_typed l"
  "loop_typed (l\<lparr>last_restore := x2\<rparr>) = loop_typed l" "loop_typed (l\<lparr>restore_count := x3\<rparr>) = loop_typed l"
  "loop_typed (l\<lparr>failure := x4\<rparr>) = loop_typed l" "loop_typed (l\<lparr>failures := x5\<rparr>) = loop_typed l"
  "loop_typed (l\<lparr>wl_serial := x6\<rparr>) = loop_typed l" "loop_typed (l\<lparr>wl_info := x7\<rparr>) = loop_typed l"
  "loop_typed (l\<lparr>ever_connected := x8\<rparr>) = loop_typed l"
  by (simp_all add: loop_typed_def)

lemma known_ok_pins: "known_ok k \<longleftrightarrow> pins_ok (bt_keys k)"
  by (simp add: known_ok_def pins_ok_def bt_ordered_def bt_keys_def)

lemma pins_ok_mask [simp]: "pins_ok (mask_to_gpios m)"
  by (simp add: pins_ok_def sorted_mask_to_gpios list_all_iff set_mask_to_gpios)

lemma pins_ok_driven [simp]: "pins_ok (driven_outputs prev new)"
  by (simp add: driven_outputs_def pins_ok_def sorted_wrt_filter [OF sorted_gpio_range] list_all_iff set_gpio_range)

section \<open>Typed operations\<close>

definition typed :: "('a \<Rightarrow> bool) \<Rightarrow> ('w, 'a) loop_op \<Rightarrow> bool" where
  "typed P m \<longleftrightarrow> (\<forall>l w. loop_typed l \<longrightarrow>
     wlp (m l w) (\<lambda>x l' _. loop_typed l' \<and> P x) (\<lambda>l' _. loop_typed l'))"

named_theorems typing \<open>operations that keep the state well-typed\<close>

lemma typedI: "(\<And>l w. loop_typed l \<Longrightarrow> wlp (m l w) (\<lambda>x l' _. loop_typed l' \<and> P x) (\<lambda>l' _. loop_typed l')) \<Longrightarrow> typed P m"
  by (simp add: typed_def)

lemma typedD: "typed P m \<Longrightarrow> loop_typed l \<Longrightarrow> wlp (m l w) (\<lambda>x l' _. loop_typed l' \<and> P x) (\<lambda>l' _. loop_typed l')"
  by (simp add: typed_def)

abbreviation (input) any :: "'a \<Rightarrow> bool" where "any \<equiv> \<lambda>_. True"

lemma typed_bind:
  assumes "typed P m" "\<And>x. P x \<Longrightarrow> typed Q (f x)"
  shows "typed Q (bind m f)"
proof (rule typedI)
  fix l w
  assume l: "loop_typed l"
  show "wlp (bind m f l w) (\<lambda>x l' _. loop_typed l' \<and> Q x) (\<lambda>l' _. loop_typed l')"
    unfolding wlp_bind
    by (rule wlp_mono [OF typedD [OF assms(1) l]]) (simp_all add: typedD [OF assms(2)])
qed

lemma typed_mono: "typed P m \<Longrightarrow> (\<And>x. P x \<Longrightarrow> Q x) \<Longrightarrow> typed Q m"
  by (rule typedI, rule wlp_mono, erule (1) typedD) auto

lemma typed_also [typing]: "typed any m \<Longrightarrow> typed Q n \<Longrightarrow> typed Q (also_do m n)"
  unfolding also_do_def by (rule typed_bind)

lemma typed_basic [typing]:
  "P x \<Longrightarrow> typed P (ret x)" "typed P (fatal e)" "event_ok ev \<Longrightarrow> typed any (emit ev)"
  "(\<And>l. loop_typed l \<Longrightarrow> loop_typed (g l)) \<Longrightarrow> typed any (change g)" "typed any (change_conn f)"
  by (auto intro!: typedI simp: wlp_rules) (simp add: loop_typed_def)

text \<open>Binding an operation that reads something.\<close>

lemma typed_reads [typing]:
  "(\<And>l. loop_typed l \<Longrightarrow> typed Q (f1 (g l))) \<Longrightarrow> typed Q (bind (look g) f1)"
  "(\<And>x. y = Some x \<Longrightarrow> typed Q (f2 x)) \<Longrightarrow> typed Q (bind (or_panic y) f2)"
  "(\<And>t. typed Q (f3 t)) \<Longrightarrow> typed Q (bind (now E) f3)"
  "(\<And>t. typed Q (f3 t)) \<Longrightarrow> typed Q (bind (now_plus E d) f3)"
  "(\<And>c. typed Q (f4 c)) \<Longrightarrow> typed Q (bind the_conn f4)"
  "(\<And>x d d' w w'. m d w = (x, d', w') \<Longrightarrow> typed Q (f5 x)) \<Longrightarrow> typed Q (bind (on_device m) f5)"
  by (auto intro!: typedI simp: wlp_rules typedD)

lemma typed_on_device [typing]: "typed any (on_device m)"
  by (auto intro!: typedI simp: wlp_rules)

lemma typed_ignore_fatal [typing]:
  assumes "typed any m"
  shows "typed any (ignore_fatal m)"
  by (rule typedI) (use typedD [OF assms] in \<open>simp add: wlp_ignore_fatal\<close>)

lemma typed_if [typing]: "(b \<Longrightarrow> typed P m) \<Longrightarrow> (\<not> b \<Longrightarrow> typed P n) \<Longrightarrow> typed P (if b then m else n)"
  by simp

lemma typed_option [typing]:
  "(y = None \<Longrightarrow> typed P m) \<Longrightarrow> (\<And>x. y = Some x \<Longrightarrow> typed P (f x)) \<Longrightarrow> typed P (case y of None \<Rightarrow> m | Some x \<Rightarrow> f x)"
  by (cases y) simp_all

lemma typed_sum [typing]:
  "(\<And>e. y = Inl e \<Longrightarrow> typed P (f e)) \<Longrightarrow> (\<And>x. y = Inr x \<Longrightarrow> typed P (g x)) \<Longrightarrow>
    typed P (case y of Inl e \<Rightarrow> f e | Inr x \<Rightarrow> g x)"
  by (cases y) simp_all

lemma typed_list:
  "typed P m \<Longrightarrow> (\<And>x xs. typed P (f x xs)) \<Longrightarrow> typed P (case ys of [] \<Rightarrow> m | x # xs \<Rightarrow> f x xs)"
  by (cases ys) simp_all

lemma typed_prod [typing]: "(\<And>a b. p = (a, b) \<Longrightarrow> typed P (f a b)) \<Longrightarrow> typed P (case p of (a, b) \<Rightarrow> f a b)"
  by (cases p) simp

section \<open>The operations of the thread\<close>

lemma typed_set_config [typing]: "wf_config c \<Longrightarrow> typed any (set_config c)"
  by (auto intro!: typedI simp: set_config_def loop_typed_def known_ok_retain)

lemma typed_drop_connection [typing]: "typed any (drop_connection E)"
  by (auto intro!: typedI simp: drop_connection_def split: option.split)

lemma typed_simple [typing]:
  "typed any (failed e)" "typed any reset_failures" "typed any (scan_later E)" "typed any (restore_later E d)"
  "typed any (suspend_event r)" "pins_ok driven \<Longrightarrow> typed any (outputs_event found driven re)"
  unfolding failed_def reset_failures_def scan_later_def restore_later_def suspend_event_def outputs_event_def
  by (intro typing; simp)+

lemma typed_lost [typing]: "typed any (lost E e)"
  unfolding lost_def by (intro typing; simp)

lemma typed_event_time: "typed (\<lambda>t. t = None \<longleftrightarrow> us = None) (event_time E us)"
  by (auto intro!: typedI simp: event_time_def wlp_rules split: option.split prod.split)

lemma typed_absorb_event [typing]: "typed any (absorb_event E us e)"
proof -
  have known: "loop_typed (l\<lparr>known := bt_insert (ev_gpio e) on (known l)\<rparr>)"
    if "unat (ev_gpio e) < 30" "loop_typed l" for l on
    using that by (simp add: loop_typed_def known_ok_insert)
  have change: "typed any (bind (event_time E start) (\<lambda>time.
        also_do (emit (change_event (ev_gpio e) on (ev_level e) time start False))
          (change (\<lambda>l. l\<lparr>known := bt_insert (ev_gpio e) on (known l)\<rparr>))))"
    if "unat (ev_gpio e) < 30" for start on
    by (rule typed_bind [OF typed_event_time]) (intro typing; simp add: change_event_def that known)
  show ?thesis
    unfolding absorb_event_def active_low_of_def Let_def
  proof (rule typed_reads(1), rule typed_option)
    show "typed any (bind (bind (look (\<lambda>l. active_low_in (map_of (active_low l)) (config l) (ev_gpio e))) or_panic)
       (\<lambda>low. also_do (if (ev_level e \<noteq> low) = was
          then emit (change_event (ev_gpio e) (\<not> (ev_level e \<noteq> low)) (\<not> ev_level e) None None True) else ret ())
         (bind (event_time E (start_us e us)) (\<lambda>time.
          also_do (emit (change_event (ev_gpio e) (ev_level e \<noteq> low) (ev_level e) time (start_us e us) False))
           (change (\<lambda>l. l\<lparr>known := bt_insert (ev_gpio e) (ev_level e \<noteq> low) (known l)\<rparr>))))))"
      if "loop_typed l" "map_of (known l) (ev_gpio e) = Some was" for l was
    proof -
      have g: "unat (ev_gpio e) < 30" using that known_ok_keys by (auto simp: loop_typed_def)
      show ?thesis
        by (rule typed_bind [of any]) (intro typing change [OF g]; simp add: change_event_def g wlp_rules typed_def)+
    qed
  qed (intro typing; simp)
qed

lemma typed_absorb_events [typing]: "typed any (absorb_events E us es)"
  by (induction es) (auto intro!: typing)

lemma typed_absorb_level:
  assumes "unat g < 30" "known_ok learned"
  shows "typed known_ok (absorb_level r g learned)"
proof -
  have "loop_typed (l\<lparr>known := bt_insert g on (known l)\<rparr>)" if "loop_typed l" for l on
    using that assms(1) by (simp add: loop_typed_def known_ok_insert)
  then show ?thesis
    unfolding absorb_level_def Let_def
    by (intro typed_bind [of any "active_low_of g"] typing)
      (simp_all add: change_event_def assms known_ok_insert active_low_of_def typed_def wlp_rules)
qed

lemma typed_absorb_levels:
  "\<forall>g \<in> set gs. unat g < 30 \<Longrightarrow> known_ok learned \<Longrightarrow> typed known_ok (absorb_levels r gs learned)"
proof (induction gs arbitrary: learned)
  case (Cons g gs)
  then show ?case
    unfolding absorb_levels.simps by (intro typed_bind [OF typed_absorb_level]) auto
qed (auto intro: typing)

lemma typed_absorb [typing]: "typed any (absorb E r)"
  unfolding absorb_def
proof (intro typed_also typed_absorb_events)
  have "typed any (also_do (change (\<lambda>l. l\<lparr>known := bt_retain (sr_is_monitored r) (known l)\<rparr>))
      (if learned \<noteq> [] then emit (InitialOnOff learned) else ret ()))" if "known_ok learned" for learned
    using that by (intro typing; simp add: loop_typed_def known_ok_retain) (simp add: known_ok_pins)
  then show "typed any (bind (absorb_levels r (mask_to_gpios (monitored r)) []) (\<lambda>learned.
      also_do (change (\<lambda>l. l\<lparr>known := bt_retain (sr_is_monitored r) (known l)\<rparr>))
       (if learned \<noteq> [] then emit (InitialOnOff learned) else ret ())))"
    by (rule typed_bind [OF typed_absorb_levels, rotated 2]) (simp_all add: set_mask_to_gpios)
qed

section \<open>Configurations\<close>

lemma get_pin_config_wf: "get_pin_config E d w = (Inr r, d', w') \<Longrightarrow> wf_config (pcr_config r)"
  by (auto dest: get_pin_config_Inr)

lemma typed_wrote [typing]: "wf_config new \<Longrightarrow> typed any (wrote E found new)"
  unfolding wrote_def by (intro typing; simp)

lemma typed_restore_over: "wf_config tgt \<Longrightarrow> wf_config found \<Longrightarrow> typed any (restore_over E tgt found)"
  unfolding restore_over_def by (intro typing; simp)

lemma loop_typed_target: "loop_typed l \<Longrightarrow> target l = Some t \<Longrightarrow> wf_config t"
  by (simp add: loop_typed_def)

lemma typed_restore_target [typing]: "typed any (restore_target E)"
  unfolding restore_target_def
  by (intro typing typed_restore_over) (auto dest: get_pin_config_wf loop_typed_target)

lemma typed_restore_or_wait [typing]: "typed any (restore_or_wait E)"
  unfolding restore_or_wait_def Let_def by (intro typing)

lemma typed_config_changed [typing]: "typed any (config_changed E)"
  unfolding config_changed_def by (intro typing) (auto dest: get_pin_config_wf)

lemma typed_write_target:
  "wf_config new \<Longrightarrow> pred_option wf_config previous \<Longrightarrow> typed any (write_target E new previous)"
  unfolding write_target_def
  by (intro typing) (auto dest: get_pin_config_wf simp: loop_typed_def)

lemma typed_set_target [typing]: "wf_config new \<Longrightarrow> typed any (set_target E new)"
  unfolding set_target_def
  by (intro typing typed_write_target) (auto simp: loop_typed_def)

section \<open>Status reports\<close>

lemma typed_absorb_unless [typing]: "typed any (absorb_unless E stale r)"
  unfolding absorb_unless_def by (intro typing; simp)

lemma typed_loop_on_off: "typed (\<lambda>on. bt_keys on = mask_to_gpios (monitored r)) (loop_on_off r)"
proof (rule typedI)
  fix l w
  assume "loop_typed l"
  then have "wf_config (config l)" by (simp add: loop_typed_def)
  from on_off_Some [OF this, of "map_of (active_low l)" r "monitored r"] \<open>loop_typed l\<close>
  show "wlp (loop_on_off r l w) (\<lambda>x l' _. loop_typed l' \<and> bt_keys x = mask_to_gpios (monitored r)) (\<lambda>l' _. loop_typed l')"
    by (auto simp: loop_on_off_def wlp_rules bt_keys_def comp_def)
qed

lemma typed_status_step:
  assumes "status_encodable r" "unat missed < 0x10000"
  shows "typed any (status_step E r t missed)"
  unfolding status_step_def Let_def
  by (rule typed_bind [OF typed_loop_on_off]) (intro typing; simp add: assms)

lemma missed_bound: "unat (ucast (x :: u16) :: u64) < 0x10000"
  unfolding unsigned_ucast_eq
  by (rule le_less_trans [OF take_bit_nat_less_eq_self]) (use unsigned_less [of x, where ?'a = nat] in simp)

lemma typed_received [typing]: "typed any (received E data t)"
  unfolding received_def Let_def
  by (intro typing typed_status_step) (auto dest: decode_status_encodable simp: missed_bound split: option.split)

lemma request_status_encodable: "request_status E d w = (Inr r, d', w') \<Longrightarrow> status_encodable r"
  using decode_status_encodable by (auto simp: request_status_def Let_def split: prod.splits sum.splits if_splits)

lemma typed_snapshot [typing]: "typed any (snapshot E)"
  unfolding snapshot_def
  by (intro typing typed_status_step) (auto dest: request_status_encodable)

section \<open>Connecting and turns\<close>

lemma typed_connected:
  assumes "wf_config found" "pins_ok driven"
  shows "typed any (connected E entry i d (found, driven, aw))"
  unfolding connected_def prod.case by (intro typing; simp add: assms)

lemma apply_target_typed:
  assumes "apply_target E tgt found d w = (Inr (c, driven, aw), d', w')" "wf_config found" "pred_option wf_config tgt"
  shows "wf_config c \<and> pins_ok driven"
  using assms by (auto simp: apply_target_def seq_op_def return_op_def pins_ok_def [of "[]"] split: option.splits if_splits
      prod.splits sum.splits)

lemma typed_connect [typing]: "typed any (connect E entry)"
proof (rule typedI)
  fix l w
  assume l: "loop_typed l"
  have c: "wlp (connected E entry i d fda (l\<lparr>wl_info := Some i\<rparr>) w') (\<lambda>x l' _. loop_typed l' \<and> True) (\<lambda>l' _. loop_typed l')"
    if "apply_target E (target l) (pcr_config r) d1 w1 = (Inr fda, d, w')" "get_pin_config E d2 w2 = (Inr r, d1, w1)"
    for i d fda w' r d1 w1 d2 w2
  proof -
    obtain c driven aw where f: "fda = (c, driven, aw)" by (metis prod_cases3)
    have "pred_option wf_config (target l)" using l by (simp add: loop_typed_def)
    from apply_target_typed [OF that(1) [unfolded f] get_pin_config_wf [OF that(2)] this]
    show ?thesis using typedD [OF typed_connected [of c driven E entry i d aw], of "l\<lparr>wl_info := Some i\<rparr>" w'] l
      by (simp add: f)
  qed
  show "wlp (connect E entry l w) (\<lambda>x l' _. loop_typed l' \<and> True) (\<lambda>l' _. loop_typed l')"
    using l by (auto simp: connect_def split: prod.split sum.split intro: c [simplified])
qed

lemma typed_try_connect [typing]: "typed any (try_connect E)"
proof -
  have "typed any (try_entries E entries)" for entries
    unfolding try_entries_def by (intro typing typed_list typed_bind [OF typed_connect]; simp)
  moreover have "typed any (list_devices E)"
    by (auto intro!: typedI simp: list_devices_def split: prod.split)
  ultimately show ?thesis
    unfolding try_connect_def by (intro typed_bind [of any "list_devices E"] typing)
qed

lemma typed_run_requests:
  "list_all (\<lambda>(_, r). request_ok r) rs \<Longrightarrow> typed any (run_requests E rs)"
proof (induction rs)
  case (Cons q rs)
  obtain n r where q: "q = (n, r)" by force
  have "typed any (run_request E r)"
    using Cons.prems unfolding run_request_def by (cases r) (auto simp: q request_ok_def intro!: typing)
  then show ?case
    using Cons by (auto simp: q intro!: typed_bind [of any] typing)
qed (auto intro: typing)

lemma typed_read_device [typing]: "typed any (read_device E t)"
proof -
  have "typed any (read_report E t)"
    by (auto intro!: typedI simp: read_report_def split: option.split prod.split sum.split)
  then show ?thesis
    unfolding read_device_def by (intro typed_bind [of any "read_report E t"] typing)
qed

lemma typed_turn_body:
  "list_all (\<lambda>(_, r). request_ok r) rs \<Longrightarrow> typed any (turn_body E rs)"
  unfolding turn_body_def idle_turn_def scan_def restore_def settle_def
  by (intro typing typed_run_requests; simp)

text \<open>An event leaves the queue of the thread unchanged: what is told is typed, step by step.\<close>

definition sys_typed :: "'w system \<Rightarrow> bool" where
  "sys_typed s \<longleftrightarrow> list_all event_ok (sys_taken s @ out (sys_shared s)) \<and>
     (sys_thread s = Running \<longrightarrow> loop_typed (sys_loop s))"

lemma turn_typed:
  assumes "sys_typed s" "sys_thread s = Running" "list_all (\<lambda>(_, r). request_ok r) (requests (sys_shared s))"
  shows "sys_typed (turn E s)"
proof -
  obtain pend queue where d: "deliver (pending (sys_loop s)) (out (sys_shared s)) = (pend, queue)" by force
  let ?l = "(sys_loop s)\<lparr>pending := pend\<rparr>"
  have all: "list_all event_ok (out (sys_shared s) @ pending (sys_loop s))" and taken: "list_all event_ok (sys_taken s)"
    using assms(1,2) by (simp_all add: sys_typed_def loop_typed_def)
  have q: "list_all event_ok queue" "list_all event_ok pend"
    using all deliver_spec [OF d] by (metis list_all_append)+
  have l: "loop_typed ?l" using assms(1,2) q(2) by (simp add: sys_typed_def loop_typed_def)
  have "wlp (turn_body E (requests (sys_shared s)) ?l (sys_world s)) (\<lambda>x l' _. loop_typed l' \<and> True) (\<lambda>l' _. loop_typed l')"
    by (rule typedD [OF typed_turn_body [OF assms(3)] l])
  then show ?thesis
    using q taken assms(2) l
    by (cases "turn_body E (requests (sys_shared s)) ?l (sys_world s)")
      (auto simp: turn_def d Let_def end_thread_def finish_def sys_typed_def loop_typed_def)
qed

section \<open>Properties\<close>

text \<open>C7: Every event the application can be told is well-typed: pin configurations have their 30
  settings, lists of pins are in order and name pins only, the ON/OFF of a report is that of
  its monitored pins, at most 65535 reports are missed at once, and the time of a change is
  given exactly with its time on the device, which an inferred change does not have. This
  holds for every environment and application, and the state of the running thread is well-typed
  too.\<close>

theorem events_well_typed:
  assumes "host E" "reachable E outside opt t0 s" "good_options opt"
  shows "list_all event_ok (sys_taken s @ out (sys_shared s)) \<and>
    (sys_thread s = Running \<longrightarrow> list_all event_ok (history s) \<and> loop_typed (sys_loop s))"
proof -
  have "sys_typed s"
    using assms(2)
  proof (induction rule: reachable.induct)
    case (start w)
    then show ?case
      using assms(3)
      by (simp add: sys_typed_def start_system_def initial_shared_def initial_loop_def loop_typed_def good_options_def)
  next
    case (step s s')
    from step(2) show ?case
    proof (cases rule: sys_step.cases)
      case thread_turn
      then show ?thesis
        using turn_typed [OF step(3) thread_turn(2)] sys_reachable_inv [OF assms(1) step(1) assms(3)]
        by (simp add: sys_inv_def)
    next
      case (app_take e sh)
      then show ?thesis using step(3) by (auto simp: take_event_Some sys_typed_def)
    next
      case (app_outputs n lvls sh)
      then show ?thesis using step(3) by (auto simp: post_request_None sys_typed_def)
    next
      case (app_target tgt n sh)
      then show ?thesis using step(3) by (auto simp: set_target_pins_None post_request_None sys_typed_def)
    next
      case (app_refused_outputs n lvls a sh)
      then show ?thesis using step(3) post_request_Some by (fastforce simp: sys_typed_def)
    next
      case (app_refused_target tgt n a sh)
      then show ?thesis using step(3) set_target_pins_Some by (fastforce simp: sys_typed_def)
    qed (use step(3) in \<open>simp_all add: sys_typed_def request_close_def\<close>)
  qed
  then show ?thesis by (simp add: sys_typed_def loop_typed_def history_def)
qed

theorem events_well_typed_witness: "list_all event_ok (out (sys_shared (turn fake_env pico_start)))"
  using events_well_typed [OF fake_host.host_axioms pico_turn_reachable any_board_good] by simp

end
