(* ===== verification/Watch_Handle.thy ===== *)
theory Watch_Handle
  imports Watch_Returns Device_Find
begin

text \<open>
  The \<open>Watcher\<close> an application holds: how it is started, how its calls wait, and how it is closed.
  A call that waits takes the lock again each time it is woken; \<open>wakes\<close> are the times at
  which it does and the state it then finds, in order.
\<close>

section \<open>Starting\<close>

definition default_options :: watch_options where
  "default_options = \<lparr>opt_serial = None, opt_target = None, opt_active_low = [], opt_interval = DEFAULT_SCAN_INTERVAL\<rparr>"

text \<open>Without a bus of the options, the variables with the USB ids are read at once; \<open>spawned\<close> is what
  the system says to the new thread.\<close>

definition watch :: "variables option \<Rightarrow> unit io_result \<Rightarrow> watch_options \<Rightarrow> instant \<Rightarrow> 'w \<Rightarrow> 'w system result" where
  "watch vars spawned opt t w = and_then (check_options opt) (\<lambda>_.
     and_then (case vars of None \<Rightarrow> Inr () | Some v \<Rightarrow> and_then (usb_ids v) (\<lambda>_. Inr ())) (\<lambda>_.
     and_then (map_err Io spawned) (\<lambda>_. Inr (start_system opt t w))))"

section \<open>Waiting for events\<close>

text \<open>\<open>Watcher::take\<close>: \<open>None\<close> when the call still waits; otherwise the answer and the state it leaves.\<close>

fun take_wait :: "instant option \<Rightarrow> (instant \<times> shared) list \<Rightarrow> (event option result \<times> shared) option" where
  "take_wait deadline [] = None"
| "take_wait deadline ((t, sh) # wakes) = (case take_event sh of
     (Some (Inr e), sh) \<Rightarrow> Some (Inr (Some e), sh)
   | (Some (Inl e), sh) \<Rightarrow> Some (Inl e, sh)
   | (None, sh) \<Rightarrow> (case deadline of
        Some d \<Rightarrow> if d \<le> t then Some (Inr None, sh) else take_wait deadline wakes
      | None \<Rightarrow> take_wait deadline wakes))"

definition recv :: "(instant \<times> shared) list \<Rightarrow> (event option \<times> shared) option" where
  "recv wakes = map_option (\<lambda>(r, sh). (case r of Inr e \<Rightarrow> e | Inl _ \<Rightarrow> None, sh)) (take_wait None wakes)"

text \<open>\<open>Inl ()\<close> is the panic of \<open>Instant::now() + timeout\<close> at an instant that cannot be represented.\<close>

definition recv_timeout :: "instant \<Rightarrow> duration \<Rightarrow> (instant \<times> shared) list \<Rightarrow>
    unit + (event option result \<times> shared) option" where
  "recv_timeout t timeout wakes = (case instant_add t timeout of
     None \<Rightarrow> Inl () | Some d \<Rightarrow> Inr (take_wait (Some d) wakes))"

definition watcher_error :: "shared \<Rightarrow> error option" where
  "watcher_error sh = sh_error sh"

text \<open>\<open>iter\<close> and \<open>into_iter\<close>: the events of one call of \<open>recv\<close> after another, up to the first
  \<open>None\<close>; each call has wakes of its own.\<close>

fun iter_events :: "(instant \<times> shared) list list \<Rightarrow> event list" where
  "iter_events [] = []"
| "iter_events (wakes # calls) = (case recv wakes of
     Some (Some e, _) \<Rightarrow> e # iter_events calls
   | _ \<Rightarrow> [])"

definition into_iter :: "(instant \<times> shared) list list \<Rightarrow> event list" where
  "into_iter calls = iter_events calls"

section \<open>Calls and closing\<close>

definition call_set_outputs :: "nat \<Rightarrow> (u8 \<times> bool) list \<Rightarrow> shared \<Rightarrow> unit result option \<times> shared" where
  "call_set_outputs n lvls = post_request n (SetOutputs lvls)"

text \<open>\<open>close\<close> asks the thread to stop and joins it: the thread sees that at its next turn, the turn it
  is in being a step before. Dropping the watcher closes it.\<close>

definition watcher_close :: "'w env \<Rightarrow> 'w system \<Rightarrow> 'w system" where
  "watcher_close E s =
     (let s = s\<lparr>sys_shared := request_close (sys_shared s)\<rparr>
      in if sys_thread s = Running then turn E s else s)"

definition watcher_drop :: "'w env \<Rightarrow> 'w system \<Rightarrow> 'w system" where
  "watcher_drop E s = watcher_close E s"

section \<open>What the calls do\<close>

text \<open>A waiting call returns at the first wake at which there is something to tell: an event comes
  before the end of the watcher, and both before the end of the time.\<close>

definition nothing_yet :: "instant option \<Rightarrow> instant \<times> shared \<Rightarrow> bool" where
  "nothing_yet deadline wake \<longleftrightarrow> out (snd wake) = [] \<and> \<not> finished (snd wake) \<and>
     (case deadline of None \<Rightarrow> True | Some d \<Rightarrow> \<not> d \<le> fst wake)"

definition first_answer :: "(instant \<times> shared) list \<Rightarrow> (event option result \<times> shared) option" where
  "first_answer wakes = (case wakes of
     [] \<Rightarrow> None
   | (t, sh) # _ \<Rightarrow> (case out sh of
        e # es \<Rightarrow> Some (Inr (Some e), sh\<lparr>out := es\<rparr>)
      | [] \<Rightarrow> Some (if finished sh then Inl WatcherClosed else Inr None, sh)))"

lemma take_wait_first: "take_wait deadline wakes = first_answer (dropWhile (nothing_yet deadline) wakes)"
proof (induction wakes)
  case (Cons wake wakes)
  obtain t sh where w: "wake = (t, sh)" by force
  show ?case
  proof (cases "nothing_yet deadline wake")
    case True
    then have "take_event sh = (None, sh)" and "case deadline of None \<Rightarrow> True | Some d \<Rightarrow> \<not> d \<le> t"
      by (cases deadline; simp add: nothing_yet_def w take_event_def)+
    then have "take_wait deadline (wake # wakes) = take_wait deadline wakes"
      by (cases deadline) (simp_all add: w)
    then show ?thesis using Cons True by simp
  next
    case False
    then show ?thesis
      by (cases "out sh"; cases deadline) (auto simp: nothing_yet_def take_event_def first_answer_def w)
  qed
qed (simp add: first_answer_def)

lemma recv_event:
  "recv wakes = Some (Some e, sh') \<longleftrightarrow> (\<exists>t sh rest es.
     dropWhile (nothing_yet None) wakes = (t, sh) # rest \<and> out sh = e # es \<and> sh' = sh\<lparr>out := es\<rparr>)"
  by (auto simp: recv_def take_wait_first first_answer_def simp del: dropWhile_eq_Nil_conv split: list.splits if_splits)

lemma dropWhile_first:
  assumes "dropWhile P xs = x # rest"
  shows "\<not> P x \<and> x \<in> set xs"
  using assms by (metis dropWhile_eq_Cons_conv in_set_conv_decomp)

text \<open>Without a deadline a call never answers that its time is up.\<close>

lemma recv_None:
  assumes "recv wakes = Some (None, sh')"
  shows "out sh' = [] \<and> finished sh'"
proof -
  obtain t sh rest where w: "dropWhile (nothing_yet None) wakes = (t, sh) # rest" "out sh = []" "sh' = sh"
    using assms by (auto simp: recv_def take_wait_first first_answer_def split: list.splits if_splits)
  then show ?thesis using dropWhile_first [OF w(1)] by (simp add: nothing_yet_def)
qed

section \<open>Other platforms\<close>

text \<open>On a platform other than Linux the first turn ends the watcher with that error.\<close>

lemma other_platform_ends:
  assumes "e_now E w = (t, w1)" "t0 \<le> t" "usb_ids (vars w1) = Inr ids"
    and "s = turn (other_bus vars E) (start_system opt t0 w)"
  shows "sys_thread s = Ended \<and> watcher_error (sys_shared s) = Some UnsupportedPlatform \<and>
    out (sys_shared s) = []"
proof -
  let ?E = "other_bus vars E" and ?l = "initial_loop opt t0"
  have n: "e_now ?E w = (t, w1)" using assms(1) by (simp add: other_bus_def)
  have "list_devices ?E l w1 = Ret (Inl UnsupportedPlatform) l w1" for l
    using assms(3) by (cases ids) (simp add: list_devices_def other_bus_def find_devices_other_def)
  then have "scan ?E ?l w1 = Fatal UnsupportedPlatform (?l\<lparr>scan_at := None\<rparr>) w1"
    by (simp add: scan_def try_connect_def also_do_def bind_def change_def fatal_def)
  then have "turn_body ?E [] ?l w = Fatal UnsupportedPlatform (?l\<lparr>scan_at := None\<rparr>) w1"
    using assms(2) n
    by (simp add: turn_body_def idle_turn_def also_do_def bind_def now_def look_def due_def initial_loop_def)
  then show ?thesis
    unfolding assms(4)
    by (simp add: turn_def start_system_def initial_shared_def initial_loop_def Let_def end_thread_def finish_def watcher_error_def)
qed

section \<open>Properties\<close>

text \<open>C17: Closing ends a watcher whose clocks and scan interval are within \<open>horizon\<close>, whose reads stay in
  their buffer and come back when they have a timeout: whatever it was doing, when \<open>close\<close> returns
  the thread has ended, every request that was queued has been answered, and a running watcher
  has closed its device and dropped the events that were not taken; closing once more changes
  nothing.\<close>

theorem close_ends:
  assumes "host E" "timed_reads E" "reachable E outside opt t0 s" "good_options opt" "s' = watcher_close E s"
  shows "sys_thread s' = Ended \<and> finished (sys_shared s') \<and> map fst (sys_replies s') = sys_posted s' \<and>
    sys_taken s' = sys_taken s \<and> watcher_close E s' = s' \<and>
    (sys_thread s = Running \<longrightarrow> out (sys_shared s') = [] \<and> conn (sys_loop s') = None \<and>
      sys_world s' = (case conn (sys_loop s) of None \<Rightarrow> sys_world s
        | Some c \<Rightarrow> e_close E (dev_handle (c_device c)) (sys_world s)))"
proof -
  let ?s = "s\<lparr>sys_shared := request_close (sys_shared s)\<rparr>"
  have r: "reachable E outside opt t0 ?s" by (rule reachable.step [OF assms(3) app_close])
  have inv: "sys_inv s" by (rule sys_reachable_inv [OF assms(1,3,4)])
  have "sys_thread s = Running \<or> sys_thread s = Ended"
    using runs_end_well [OF assms(3,2)] inv by (cases "sys_thread s") (simp_all add: sys_inv_def)
  then show ?thesis
  proof
    assume run: "sys_thread s = Running"
    obtain pend queue where d: "deliver (pending (sys_loop s)) (out (sys_shared s)) = (pend, queue)" by force
    have s': "s' = turn E ?s" using assms(5) run by (simp add: watcher_close_def)
    have "reachable E outside opt t0 s'"
      unfolding s' by (rule reachable.step [OF r thread_turn]) (simp add: run)
    then have "sys_inv s'" using sys_reachable_inv [OF assms(1) _ assms(4)] by blast
    then show ?thesis
      using run
      by (auto simp: s' turn_def d Let_def request_close_def end_thread_def finish_def sys_inv_def watcher_close_def
          split: option.split)
  next
    assume ended: "sys_thread s = Ended"
    then show ?thesis
      using inv assms(5) by (auto simp: watcher_close_def request_close_def sys_inv_def)
  qed
qed

theorem close_ends_witness: "sys_thread (watcher_close fake_env (turn fake_env pico_start)) = Ended"
  using close_ends [OF fake_host.host_axioms fake_timed_reads pico_turn_reachable any_board_good refl] by blast

end
