(* ===== verification/Test_Vectors.thy ===== *)
theory Test_Vectors
  imports Protocol_Theorems Find_Theorems
begin

text \<open>
  The test vectors of the protocol, \<open>protocol/vectors.json\<close>, which the firmware and every
  library of the repository are tested with. Each is evaluated on the model: it decodes to
  the values the file gives and is what they are encoded to.
\<close>

section \<open>\<open>protocol/vectors.json\<close>\<close>

subsection \<open>Status reports\<close>

definition status_periodic_no_events :: status_report where
  "status_periodic_no_events = \<lparr>seq = 0, sr_reason = 8, sr_flags = 0, monitored = 0x1C7FFFFF, outputs = 0x00000000,
     levels = 0x1C7FFFFF, timestamp_us = 1000000,
     events = []\<rparr>"

definition status_periodic_no_events_payload :: bytes where
  "status_periodic_no_events_payload = 
    [0, 0, 8, 0, 0, 0, 0, 0, 255, 255, 127, 28, 0, 0, 0, 0, 255, 255, 127, 28, 64, 66, 15, 0, 0, 0,
     0, 0, 0, 0, 0, 0, 0, 0, 0, 0, 0, 0, 0, 0, 0, 0, 0, 0, 0, 0, 0, 0, 0, 0, 0, 0, 0, 0, 0, 0,
     0, 0, 0, 0, 0, 0, 0]"

lemma vector_status_periodic_no_events:
  "decode_status status_periodic_no_events_payload = Inr status_periodic_no_events"
  "encode_status status_periodic_no_events = Inr status_periodic_no_events_payload"
  by code_simp+

definition status_single_press_event :: status_report where
  "status_single_press_event = \<lparr>seq = 1, sr_reason = 1, sr_flags = 0, monitored = 0x1C7FFFFF, outputs = 0x00000000,
     levels = 0x1C7FFFDF, timestamp_us = 2023500,
     events = [\<lparr>ev_gpio = 5, ev_level = False, age_us = 20500\<rparr>]\<rparr>"

definition status_single_press_event_payload :: bytes where
  "status_single_press_event_payload = 
    [1, 0, 1, 0, 1, 0, 0, 0, 255, 255, 127, 28, 0, 0, 0, 0, 223, 255, 127, 28, 76, 224, 30, 0, 0,
     0, 0, 0, 5, 20, 80, 0, 0, 0, 0, 0, 0, 0, 0, 0, 0, 0, 0, 0, 0, 0, 0, 0, 0, 0, 0, 0, 0, 0,
     0, 0, 0, 0, 0, 0, 0, 0, 0]"

lemma vector_status_single_press_event:
  "decode_status status_single_press_event_payload = Inr status_single_press_event"
  "encode_status status_single_press_event = Inr status_single_press_event_payload"
  by code_simp+

definition status_seven_events_more_pending :: status_report where
  "status_seven_events_more_pending = \<lparr>seq = 4660, sr_reason = 3, sr_flags = 2, monitored = 0x1C7FFF7F, outputs = 0x00000080,
     levels = 0x1C00FF80, timestamp_us = 5124095576030430,
     events = [\<lparr>ev_gpio = 0, ev_level = True, age_us = 0\<rparr>,
     \<lparr>ev_gpio = 1, ev_level = False, age_us = 1\<rparr>,
     \<lparr>ev_gpio = 13, ev_level = True, age_us = 11259375\<rparr>,
     \<lparr>ev_gpio = 22, ev_level = False, age_us = 1000\<rparr>,
     \<lparr>ev_gpio = 26, ev_level = True, age_us = 65536\<rparr>,
     \<lparr>ev_gpio = 28, ev_level = False, age_us = 2147483647\<rparr>,
     \<lparr>ev_gpio = 29, ev_level = True, age_us = 4294967295\<rparr>]\<rparr>"

definition status_seven_events_more_pending_payload :: bytes where
  "status_seven_events_more_pending_payload = 
    [52, 18, 3, 2, 7, 0, 0, 0, 127, 255, 127, 28, 128, 0, 0, 0, 128, 255, 0, 28, 222, 188, 154,
     120, 86, 52, 18, 0, 128, 0, 0, 0, 0, 1, 1, 0, 0, 0, 141, 239, 205, 171, 0, 22, 232, 3, 0,
     0, 154, 0, 0, 1, 0, 28, 255, 255, 255, 127, 157, 255, 255, 255, 255]"

lemma vector_status_seven_events_more_pending:
  "decode_status status_seven_events_more_pending_payload = Inr status_seven_events_more_pending"
  "encode_status status_seven_events_more_pending = Inr status_seven_events_more_pending_payload"
  by code_simp+

definition status_host_request_max_seq :: status_report where
  "status_host_request_max_seq = \<lparr>seq = 65535, sr_reason = 128, sr_flags = 2, monitored = 0x3FD00078, outputs = 0x00000000,
     levels = 0x3FD00070, timestamp_us = 5,
     events = []\<rparr>"

definition status_host_request_max_seq_payload :: bytes where
  "status_host_request_max_seq_payload = 
    [255, 255, 128, 2, 0, 0, 0, 0, 120, 0, 208, 63, 0, 0, 0, 0, 112, 0, 208, 63, 5, 0, 0, 0, 0, 0,
     0, 0, 0, 0, 0, 0, 0, 0, 0, 0, 0, 0, 0, 0, 0, 0, 0, 0, 0, 0, 0, 0, 0, 0, 0, 0, 0, 0, 0, 0,
     0, 0, 0, 0, 0, 0, 0]"

lemma vector_status_host_request_max_seq:
  "decode_status status_host_request_max_seq_payload = Inr status_host_request_max_seq"
  "encode_status status_host_request_max_seq = Inr status_host_request_max_seq_payload"
  by code_simp+

definition status_overflow_drained :: status_report where
  "status_overflow_drained = \<lparr>seq = 42, sr_reason = 5, sr_flags = 1, monitored = 0x1C7FFFFF, outputs = 0x00000000,
     levels = 0x1C7FFFFE, timestamp_us = 3000000,
     events = [\<lparr>ev_gpio = 0, ev_level = False, age_us = 12\<rparr>]\<rparr>"

definition status_overflow_drained_payload :: bytes where
  "status_overflow_drained_payload = 
    [42, 0, 5, 1, 1, 0, 0, 0, 255, 255, 127, 28, 0, 0, 0, 0, 254, 255, 127, 28, 192, 198, 45, 0, 0,
     0, 0, 0, 0, 12, 0, 0, 0, 0, 0, 0, 0, 0, 0, 0, 0, 0, 0, 0, 0, 0, 0, 0, 0, 0, 0, 0, 0, 0, 0,
     0, 0, 0, 0, 0, 0, 0, 0]"

lemma vector_status_overflow_drained:
  "decode_status status_overflow_drained_payload = Inr status_overflow_drained"
  "encode_status status_overflow_drained = Inr status_overflow_drained_payload"
  by code_simp+

subsection \<open>Device information\<close>

definition info_pico :: device_info where
  "info_pico = \<lparr>protocol_version = PROTOCOL_VERSION, firmware = (0, 1, 0), di_board = 1, gpio_count = 30,
     periodic_interval_ms = 1000, available = 0x1C7FFFFF, events_per_report = 7, event_queue_size = 32,
     di_chip = 0, chip_revision = 0, di_quirks = 0,
     sdk_board = ''''\<rparr>"

definition info_pico_payload :: bytes where
  "info_pico_payload = 
    [1, 0, 1, 0, 1, 30, 232, 3, 255, 255, 127, 28, 7, 32, 0, 0, 0, 0, 0, 0, 0, 0, 0, 0, 0, 0, 0, 0,
     0, 0, 0, 0, 0, 0, 0, 0, 0, 0, 0, 0, 0, 0, 0, 0, 0, 0, 0, 0, 0, 0, 0, 0, 0, 0, 0, 0, 0, 0,
     0, 0, 0, 0, 0]"

lemma vector_info_pico:
  "decode_device_info info_pico_payload = Inr info_pico"
  "encode_device_info info_pico = info_pico_payload"
  "(info_board_name info_pico, info_chip_name info_pico, pull_down_unreliable info_pico) =
     (''Raspberry Pi Pico'', ''not reported'', False)"
  by code_simp+

definition info_qtpy_rp2040 :: device_info where
  "info_qtpy_rp2040 = \<lparr>protocol_version = PROTOCOL_VERSION, firmware = (1, 2, 3), di_board = 2, gpio_count = 30,
     periodic_interval_ms = 1000, available = 0x3FD00078, events_per_report = 7, event_queue_size = 32,
     di_chip = 1, chip_revision = 2, di_quirks = 0,
     sdk_board = ''adafruit_qtpy_rp2040''\<rparr>"

definition info_qtpy_rp2040_payload :: bytes where
  "info_qtpy_rp2040_payload = 
    [1, 1, 2, 3, 2, 30, 232, 3, 120, 0, 208, 63, 7, 32, 1, 2, 0, 97, 100, 97, 102, 114, 117, 105,
     116, 95, 113, 116, 112, 121, 95, 114, 112, 50, 48, 52, 48, 0, 0, 0, 0, 0, 0, 0, 0, 0, 0,
     0, 0, 0, 0, 0, 0, 0, 0, 0, 0, 0, 0, 0, 0, 0, 0]"

lemma vector_info_qtpy_rp2040:
  "decode_device_info info_qtpy_rp2040_payload = Inr info_qtpy_rp2040"
  "encode_device_info info_qtpy_rp2040 = info_qtpy_rp2040_payload"
  "(info_board_name info_qtpy_rp2040, info_chip_name info_qtpy_rp2040, pull_down_unreliable info_qtpy_rp2040) =
     (''Adafruit QT Py RP2040'', ''RP2040'', False)"
  by code_simp+

definition info_pico2_a2 :: device_info where
  "info_pico2_a2 = \<lparr>protocol_version = PROTOCOL_VERSION, firmware = (0, 2, 0), di_board = 3, gpio_count = 30,
     periodic_interval_ms = 1000, available = 0x1C7FFFFF, events_per_report = 7, event_queue_size = 32,
     di_chip = 2, chip_revision = 2, di_quirks = 1,
     sdk_board = ''pico2''\<rparr>"

definition info_pico2_a2_payload :: bytes where
  "info_pico2_a2_payload = 
    [1, 0, 2, 0, 3, 30, 232, 3, 255, 255, 127, 28, 7, 32, 2, 2, 1, 112, 105, 99, 111, 50, 0, 0, 0,
     0, 0, 0, 0, 0, 0, 0, 0, 0, 0, 0, 0, 0, 0, 0, 0, 0, 0, 0, 0, 0, 0, 0, 0, 0, 0, 0, 0, 0, 0,
     0, 0, 0, 0, 0, 0, 0, 0]"

lemma vector_info_pico2_a2:
  "decode_device_info info_pico2_a2_payload = Inr info_pico2_a2"
  "encode_device_info info_pico2_a2 = info_pico2_a2_payload"
  "(info_board_name info_pico2_a2, info_chip_name info_pico2_a2, pull_down_unreliable info_pico2_a2) =
     (''Raspberry Pi Pico 2'', ''RP2350A'', True)"
  by code_simp+

definition info_other_pico_w :: device_info where
  "info_other_pico_w = \<lparr>protocol_version = PROTOCOL_VERSION, firmware = (0, 2, 0), di_board = 0, gpio_count = 30,
     periodic_interval_ms = 1000, available = 0x1C7FFFFF, events_per_report = 7, event_queue_size = 32,
     di_chip = 1, chip_revision = 2, di_quirks = 0,
     sdk_board = ''pico_w''\<rparr>"

definition info_other_pico_w_payload :: bytes where
  "info_other_pico_w_payload = 
    [1, 0, 2, 0, 0, 30, 232, 3, 255, 255, 127, 28, 7, 32, 1, 2, 0, 112, 105, 99, 111, 95, 119, 0,
     0, 0, 0, 0, 0, 0, 0, 0, 0, 0, 0, 0, 0, 0, 0, 0, 0, 0, 0, 0, 0, 0, 0, 0, 0, 0, 0, 0, 0, 0,
     0, 0, 0, 0, 0, 0, 0, 0, 0]"

lemma vector_info_other_pico_w:
  "decode_device_info info_other_pico_w_payload = Inr info_other_pico_w"
  "encode_device_info info_other_pico_w = info_other_pico_w_payload"
  "(info_board_name info_other_pico_w, info_chip_name info_other_pico_w, pull_down_unreliable info_other_pico_w) =
     (''pico_w'', ''RP2040'', False)"
  by code_simp+

definition info_other_longest_name :: device_info where
  "info_other_longest_name = \<lparr>protocol_version = PROTOCOL_VERSION, firmware = (0, 2, 0), di_board = 0, gpio_count = 30,
     periodic_interval_ms = 1000, available = 0x00000FF0, events_per_report = 7, event_queue_size = 32,
     di_chip = 2, chip_revision = 3, di_quirks = 0,
     sdk_board = ''a_board_name_of_forty_characters_exactly''\<rparr>"

definition info_other_longest_name_payload :: bytes where
  "info_other_longest_name_payload = 
    [1, 0, 2, 0, 0, 30, 232, 3, 240, 15, 0, 0, 7, 32, 2, 3, 0, 97, 95, 98, 111, 97, 114, 100, 95,
     110, 97, 109, 101, 95, 111, 102, 95, 102, 111, 114, 116, 121, 95, 99, 104, 97, 114, 97,
     99, 116, 101, 114, 115, 95, 101, 120, 97, 99, 116, 108, 121, 0, 0, 0, 0, 0, 0]"

lemma vector_info_other_longest_name:
  "decode_device_info info_other_longest_name_payload = Inr info_other_longest_name"
  "encode_device_info info_other_longest_name = info_other_longest_name_payload"
  "(info_board_name info_other_longest_name, info_chip_name info_other_longest_name, pull_down_unreliable info_other_longest_name) =
     (''a_board_name_of_forty_characters_exactly'', ''RP2350A'', False)"
  by code_simp+

subsection \<open>Pin configurations\<close>

definition config_pico_default :: pin_config_report where
  "config_pico_default = \<lparr>pcr_result = 0, result_gpio = 255, request_id = 0,
     pcr_config = default_for 0x1C7FFFFF\<rparr>"

definition config_pico_default_payload :: bytes where
  "config_pico_default_payload = 
    [0, 255, 0, 2, 20, 2, 20, 2, 20, 2, 20, 2, 20, 2, 20, 2, 20, 2, 20, 2, 20, 2, 20, 2, 20, 2, 20,
     2, 20, 2, 20, 2, 20, 2, 20, 2, 20, 2, 20, 2, 20, 2, 20, 2, 20, 2, 20, 2, 20, 0, 0, 0, 0,
     0, 0, 2, 20, 2, 20, 2, 20, 0, 0]"

lemma vector_config_pico_default:
  "decode_pin_config config_pico_default_payload = Inr config_pico_default"
  "encode_pin_config config_pico_default = config_pico_default_payload"
  by code_simp+

definition config_qtpy_rp2040_default :: pin_config_report where
  "config_qtpy_rp2040_default = \<lparr>pcr_result = 0, result_gpio = 255, request_id = 0,
     pcr_config = default_for 0x3FD00078\<rparr>"

definition config_qtpy_rp2040_default_payload :: bytes where
  "config_qtpy_rp2040_default_payload = 
    [0, 255, 0, 0, 0, 0, 0, 0, 0, 2, 20, 2, 20, 2, 20, 2, 20, 0, 0, 0, 0, 0, 0, 0, 0, 0, 0, 0, 0,
     0, 0, 0, 0, 0, 0, 0, 0, 0, 0, 0, 0, 0, 0, 2, 20, 0, 0, 2, 20, 2, 20, 2, 20, 2, 20, 2, 20,
     2, 20, 2, 20, 2, 20]"

lemma vector_config_qtpy_rp2040_default:
  "decode_pin_config config_qtpy_rp2040_default_payload = Inr config_qtpy_rp2040_default"
  "encode_pin_config config_qtpy_rp2040_default = config_qtpy_rp2040_default_payload"
  by code_simp+

definition config_rejected_after_mixed :: pin_config_report where
  "config_rejected_after_mixed = \<lparr>pcr_result = 3, result_gpio = 23, request_id = 9,
     pcr_config = replicate 5 unused_setting @
       [\<lparr>mode = PullUp, param = 20\<rparr>, \<lparr>mode = PullDown, param = 0\<rparr>, \<lparr>mode = Output, param = 1\<rparr>, \<lparr>mode = Input, param = 255\<rparr>] @
       replicate 21 unused_setting\<rparr>"

definition config_rejected_after_mixed_payload :: bytes where
  "config_rejected_after_mixed_payload = 
    [3, 23, 9, 0, 0, 0, 0, 0, 0, 0, 0, 0, 0, 2, 20, 3, 0, 4, 1, 1, 255, 0, 0, 0, 0, 0, 0, 0, 0, 0,
     0, 0, 0, 0, 0, 0, 0, 0, 0, 0, 0, 0, 0, 0, 0, 0, 0, 0, 0, 0, 0, 0, 0, 0, 0, 0, 0, 0, 0, 0,
     0, 0, 0]"

lemma vector_config_rejected_after_mixed:
  "decode_pin_config config_rejected_after_mixed_payload = Inr config_rejected_after_mixed"
  "encode_pin_config config_rejected_after_mixed = config_rejected_after_mixed_payload"
  by code_simp+

lemma default_settings:
  "map (\<lambda>s. mode_u8 (mode s)) (default_for 0x1C7FFFFF) =
     [2, 2, 2, 2, 2, 2, 2, 2, 2, 2, 2, 2, 2, 2, 2, 2, 2, 2, 2, 2, 2, 2, 2, 0, 0, 0, 2, 2, 2, 0]"
  "map (\<lambda>s. mode_u8 (mode s)) (default_for 0x3FD00078) =
     [0, 0, 0, 2, 2, 2, 2, 0, 0, 0, 0, 0, 0, 0, 0, 0, 0, 0, 0, 0, 2, 0, 2, 2, 2, 2, 2, 2, 2, 2]"
  by code_simp+

subsection \<open>Validation of what a host writes\<close>

lemma vector_set_valid_default_pico:
  "validate_pin_config_payload
    [0, 255, 1, 2, 20, 2, 20, 2, 20, 2, 20, 2, 20, 2, 20, 2, 20, 2, 20, 2, 20, 2, 20, 2, 20, 2, 20,
     2, 20, 2, 20, 2, 20, 2, 20, 2, 20, 2, 20, 2, 20, 2, 20, 2, 20, 2, 20, 2, 20, 0, 0, 0, 0,
     0, 0, 2, 20, 2, 20, 2, 20, 0, 0] 0x1C7FFFFF =
     (0, 255, 1)"
  by code_simp

lemma vector_set_valid_mixed:
  "validate_pin_config_payload
    [0, 255, 42, 0, 0, 0, 0, 0, 0, 0, 0, 0, 0, 2, 20, 3, 0, 4, 1, 1, 255, 0, 0, 0, 0, 0, 0, 0, 0,
     0, 0, 0, 0, 0, 0, 0, 0, 0, 0, 0, 0, 0, 0, 0, 0, 0, 0, 0, 0, 0, 0, 0, 0, 0, 0, 0, 0, 0, 0,
     0, 0, 0, 0] 0x1C7FFFFF =
     (0, 255, 42)"
  by code_simp

lemma vector_set_ignores_result_fields:
  "validate_pin_config_payload
    [85, 102, 7, 2, 20, 2, 20, 2, 20, 2, 20, 2, 20, 2, 20, 2, 20, 2, 20, 2, 20, 2, 20, 2, 20, 2,
     20, 2, 20, 2, 20, 2, 20, 2, 20, 2, 20, 2, 20, 2, 20, 2, 20, 2, 20, 2, 20, 2, 20, 0, 0, 0,
     0, 0, 0, 2, 20, 2, 20, 2, 20, 0, 0] 0x1C7FFFFF =
     (0, 255, 7)"
  by code_simp

lemma vector_set_bad_length_62:
  "validate_pin_config_payload
    [0, 255, 42, 0, 0, 0, 0, 0, 0, 0, 0, 0, 0, 2, 20, 3, 0, 4, 1, 1, 255, 0, 0, 0, 0, 0, 0, 0, 0,
     0, 0, 0, 0, 0, 0, 0, 0, 0, 0, 0, 0, 0, 0, 0, 0, 0, 0, 0, 0, 0, 0, 0, 0, 0, 0, 0, 0, 0, 0,
     0, 0, 0] 0x1C7FFFFF =
     (1, 255, 42)"
  by code_simp

lemma vector_set_bad_length_64:
  "validate_pin_config_payload
    [0, 255, 42, 0, 0, 0, 0, 0, 0, 0, 0, 0, 0, 2, 20, 3, 0, 4, 1, 1, 255, 0, 0, 0, 0, 0, 0, 0, 0,
     0, 0, 0, 0, 0, 0, 0, 0, 0, 0, 0, 0, 0, 0, 0, 0, 0, 0, 0, 0, 0, 0, 0, 0, 0, 0, 0, 0, 0, 0,
     0, 0, 0, 0, 0] 0x1C7FFFFF =
     (1, 255, 42)"
  by code_simp

lemma vector_set_bad_length_2:
  "validate_pin_config_payload
    [0, 255] 0x1C7FFFFF =
     (1, 255, 0)"
  by code_simp

lemma vector_set_zero_length:
  "validate_pin_config_payload
    [] 0x1C7FFFFF =
     (1, 255, 0)"
  by code_simp

lemma vector_set_bad_mode:
  "validate_pin_config_payload
    [0, 255, 10, 0, 0, 0, 0, 0, 0, 5, 0, 0, 0, 2, 20, 3, 0, 4, 1, 1, 255, 0, 0, 0, 0, 0, 0, 0, 0,
     0, 0, 0, 0, 0, 0, 0, 0, 0, 0, 0, 0, 0, 0, 0, 0, 0, 0, 0, 0, 0, 0, 0, 0, 0, 0, 0, 0, 0, 0,
     0, 0, 0, 0] 0x1C7FFFFF =
     (2, 3, 10)"
  by code_simp

lemma vector_set_unavailable_gpio_pico:
  "validate_pin_config_payload
    [0, 255, 11, 0, 0, 0, 0, 0, 0, 0, 0, 0, 0, 2, 20, 3, 0, 4, 1, 1, 255, 0, 0, 0, 0, 0, 0, 0, 0,
     0, 0, 0, 0, 0, 0, 0, 0, 0, 0, 0, 0, 0, 0, 0, 0, 0, 0, 0, 0, 2, 20, 0, 0, 0, 0, 0, 0, 0, 0,
     0, 0, 0, 0] 0x1C7FFFFF =
     (3, 23, 11)"
  by code_simp

lemma vector_set_unused_with_param:
  "validate_pin_config_payload
    [0, 255, 12, 0, 0, 0, 0, 0, 0, 0, 0, 0, 0, 2, 20, 3, 0, 4, 1, 1, 255, 0, 0, 0, 1, 0, 0, 0, 0,
     0, 0, 0, 0, 0, 0, 0, 0, 0, 0, 0, 0, 0, 0, 0, 0, 0, 0, 0, 0, 0, 0, 0, 0, 0, 0, 0, 0, 0, 0,
     0, 0, 0, 0] 0x1C7FFFFF =
     (4, 10, 12)"
  by code_simp

lemma vector_set_output_bad_level:
  "validate_pin_config_payload
    [0, 255, 13, 0, 0, 0, 0, 0, 0, 0, 0, 4, 2, 2, 20, 3, 0, 4, 1, 1, 255, 0, 0, 0, 0, 0, 0, 0, 0,
     0, 0, 0, 0, 0, 0, 0, 0, 0, 0, 0, 0, 0, 0, 0, 0, 0, 0, 0, 0, 0, 0, 0, 0, 0, 0, 0, 0, 0, 0,
     0, 0, 0, 0] 0x1C7FFFFF =
     (5, 4, 13)"
  by code_simp

lemma vector_set_per_gpio_order_qtpy:
  "validate_pin_config_payload
    [0, 255, 14, 2, 20, 9, 0, 0, 0, 2, 20, 2, 20, 2, 20, 2, 20, 0, 0, 0, 0, 0, 0, 0, 0, 0, 0, 0, 0,
     0, 0, 0, 0, 0, 0, 0, 0, 0, 0, 0, 0, 0, 0, 2, 20, 0, 0, 2, 20, 2, 20, 2, 20, 2, 20, 2, 20,
     2, 20, 2, 20, 2, 20] 0x3FD00078 =
     (3, 0, 14)"
  by code_simp

lemma vector_set_mode_checked_before_availability:
  "validate_pin_config_payload
    [0, 255, 15, 7, 0, 0, 0, 0, 0, 2, 20, 2, 20, 2, 20, 2, 20, 0, 0, 0, 0, 0, 0, 0, 0, 0, 0, 0, 0,
     0, 0, 0, 0, 0, 0, 0, 0, 0, 0, 0, 0, 0, 0, 2, 20, 0, 0, 2, 20, 2, 20, 2, 20, 2, 20, 2, 20,
     2, 20, 2, 20, 2, 20] 0x3FD00078 =
     (2, 0, 15)"
  by code_simp

subsection \<open>Output commands and the descriptor\<close>

lemma vector_output_valid:
  "decode_output [128, 1, 0, 0, 128, 0, 0, 0] = Inr (0x00000180, 0x00000080)"
  "encode_output 0x00000180 0x00000080 = [128, 1, 0, 0, 128, 0, 0, 0]"
  by code_simp+

lemma vector_output_full_mask:
  "decode_output [255, 255, 255, 255, 120, 86, 52, 18] = Inr (0xFFFFFFFF, 0x12345678)"
  "encode_output 0xFFFFFFFF 0x12345678 = [255, 255, 255, 255, 120, 86, 52, 18]"
  by code_simp+

lemma vector_output_wrong_length_9:
  "isl (decode_output [128, 0, 0, 0, 128, 0, 0, 0, 0])"
  by code_simp

lemma vector_output_empty:
  "isl (decode_output [])"
  by code_simp

lemma vector_report_descriptor:
  "top_level_usage
    [6, 0, 255, 9, 1, 161, 1, 133, 1, 9, 16, 21, 0, 38, 255, 0, 117, 8, 149, 63, 129, 2, 133, 2, 9,
     32, 149, 63, 177, 2, 133, 3, 9, 48, 149, 63, 177, 2, 133, 4, 9, 64, 149, 8, 145, 2, 192] = (0xFF00, 0x01)"
  by code_simp

end
