(* ===== verification/Unit_Tests.thy ===== *)
theory Unit_Tests
  imports Test_Vectors Watch_Loop
begin

text \<open>
  The tests of \<open>rust/tests/protocol.rs\<close> and \<open>rust/tests/device.rs\<close> that need no device and the
  unit tests of \<open>hidraw.rs\<close> and \<open>watch.rs\<close>, each evaluated on the model under its own name. The
  tests with a device are instances of the theorems on the simulated boards.
\<close>

section \<open>\<open>tests/protocol.rs\<close>\<close>

lemma unit_sdk_board_is_ascii:
  "map_sum id sdk_board (decode_device_info ((encode_device_info (info_pico\<lparr>sdk_board := ''pico''\<rparr>))[18 := 0xC3])) =
    Inr (''p'' @ replacement @ ''co'')"
  by code_simp

lemma unit_decoders_reject_bad_payloads:
  "isl (decode_status (replicate 62 0)) \<and> isl (decode_device_info (replicate 64 0)) \<and> isl (decode_pin_config (replicate 62 0))"
  "decode_pin_config ((replicate 63 0)[3 := 9]) = Inl (Malformed ''mode 9 of GPIO0 is undefined'')"
  "decode_status ((replicate 63 0)[4 := 8]) = Inl (Malformed ''event_count 8 exceeds 7'')"
  "isl (encode_pin_config_set unused_config 0)"
  by code_simp+

lemma unit_encode_status_rejects_more_than_seven_events:
  "isl (encode_status (status_periodic_no_events\<lparr>events := replicate 8 \<lparr>ev_gpio = 5, ev_level = True, age_us = 0\<rparr>\<rparr>))"
  by code_simp

lemma unit_edge_event_start_time:
  "start_us \<lparr>ev_gpio = 5, ev_level = False, age_us = 20000\<rparr> 4000000 = Some 3980000"
  "saturated \<lparr>ev_gpio = 5, ev_level = False, age_us = SATURATED_AGE_US\<rparr>"
  "start_us \<lparr>ev_gpio = 5, ev_level = False, age_us = SATURATED_AGE_US\<rparr> 4000000 = None"
  by code_simp+

definition accessor_report :: status_report where
  "accessor_report = \<lparr>seq = 0, sr_reason = 0, sr_flags = OVERFLOW, monitored = push_bit 5 1, outputs = push_bit 7 1,
     levels = push_bit 7 1, timestamp_us = 0, events = []\<rparr>"

lemma unit_status_report_accessors:
  "overflow accessor_report \<and> \<not> more_events accessor_report"
  "(sr_is_monitored accessor_report 5, sr_is_output accessor_report 5, sr_level accessor_report 5) = (True, False, False)"
  "(sr_is_monitored accessor_report 7, sr_is_output accessor_report 7, sr_level accessor_report 7) = (False, True, True)"
  by code_simp+

lemma unit_flags_contain_and_print:
  "flags_contains (flags_or LEVEL_CHANGED PERIODIC) PERIODIC \<and> \<not> flags_contains (flags_or LEVEL_CHANGED PERIODIC) HOST_REQUEST"
  "flags_display Reason_flags (flags_or LEVEL_CHANGED PERIODIC) = ''LEVEL_CHANGED|PERIODIC''"
  "flags_display Reason_flags 0 = ''0''"
  "flags_names StatusFlags_flags (flags_or OVERFLOW MORE_EVENTS) = [''OVERFLOW'', ''MORE_EVENTS'']"
  "flags_display Reason_flags 0x40 = ''0''"
  by code_simp+

lemma unit_result_messages:
  "map result_message [0, 1, 2, 3, 4, 5] =
    [''applied'', ''the payload is not 63 bytes long'', ''mode is outside 0-4'', ''the pin is not an available GPIO'',
     ''an unused pin was given a parameter'', ''the initial output level is neither 0 nor 1'']"
  "result_message 9 = ''result 9''"
  by code_simp+

lemma unit_board_and_chip_names:
  "board_name PICO ''pico'' = ''Raspberry Pi Pico'' \<and> board_name OTHER_BOARD ''pico_w'' = ''pico_w''"
  "board_name OTHER_BOARD [] = ''other board'' \<and> board_name 9 [] = ''unknown board 9''"
  "board_name 9 ''future_board'' = ''future_board''"
  "chip_name 0 = ''not reported'' \<and> chip_name 7 = ''unknown chip 7''"
  by code_simp+

lemma unit_pin_settings:
  "is_input PullDown \<and> \<not> is_input Output \<and> \<not> is_input Unused"
  "monitor PullUp 20 = Inr (pull_up 20) \<and> isl (monitor Output 0)"
  "map setting_display [unused_setting, no_pull 0, pull_up 20, pull_down 255, output_setting False, output_setting True] =
    [''off'', ''nopull:0'', ''pullup:20'', ''pulldown:255'', ''out:low'', ''out:high'']"
  "is_output (output_setting True) \<and> \<not> is_monitored (output_setting True)"
  by code_simp+

lemma unit_pin_configs:
  "map_sum id (\<lambda>c. (monitored_mask c, outputs_mask c, config_at c 5, with_pin c 30 unused_setting))
     (with_pins unused_config [(5, pull_up 20), (6, no_pull 0), (7, output_setting False)]) =
   Inr (0x60, 0x80, Some (pull_up 20), Inl (InvalidArgument ''GPIO30 is out of range (0-29)''))"
  "map_sum id pull_down_gpios (with_pins unused_config [(9, pull_down 20), (2, pull_down 20)]) = Inr [2, 9]"
  by code_simp+

lemma unit_local_validation:
  "map_sum id (\<lambda>c. validate_pin_config c 0x1C7FFFFF) (with_pin unused_config 3 \<lparr>mode = Unused, param = 1\<rparr>) =
    Inr (UNUSED_WITH_PARAM, 3)"
  "map_sum id (\<lambda>c. validate_pin_config c 0x1C7FFFFF) (with_pin unused_config 23 (pull_up 20)) = Inr (UNAVAILABLE_GPIO, 23)"
  "validate_pin_config (default_for 0x1C7FFFFF) 0x1C7FFFFF = (RESULT_OK, RESULT_GPIO_NONE)"
  "mask_to_gpios 0x60 = [5, 6]"
  by code_simp+

section \<open>\<open>tests/device.rs\<close>\<close>

text \<open>The count of missed reports after a device has read reports with these numbers and reasons.\<close>

definition missed_after :: "(u16 \<times> reason) list \<Rightarrow> u64" where
  "missed_after rs = missed_reports (fold (\<lambda>(n, r). note_seq (status_periodic_no_events\<lparr>seq := n, sr_reason := r\<rparr>)) rs
     \<lparr>dev_handle = 0, dev_serial = [], dev_info = None, dev_config = None, polarity = Map.empty,
      dev_request_ids = ids_new 0 1, last_request_id = 0, dev_last_seq = None, dev_missed = 0\<rparr>)"

lemma unit_read_status_counts_missed_reports:
  "map missed_after [[(10, PERIODIC)], [(10, PERIODIC), (14, PERIODIC)], [(10, PERIODIC), (14, PERIODIC), (15, PERIODIC)]] =
    [0, 3, 3]"
  by code_simp

lemma unit_seq_wraps_and_host_requests_are_ignored:
  "missed_after [(65535, PERIODIC), (7, HOST_REQUEST), (0, PERIODIC)] = 0"
  by code_simp

lemma unit_on_off_follows_the_pull_direction:
  "on_off_entries Map.empty (unused_config[5 := pull_up 20, 6 := pull_down 20]) (accessor_report\<lparr>monitored := 0x60, levels := 0x40\<rparr>)
     (mask_to_gpios 0x60) = Some [(5, True), (6, True)]"
  "on_off_entries [5 \<mapsto> False] (unused_config[5 := pull_up 20, 6 := pull_down 20]) (accessor_report\<lparr>monitored := 0x60, levels := 0x40\<rparr>)
     (mask_to_gpios 0x60) = Some [(5, False), (6, True)]"
  by code_simp+

lemma unit_set_outputs_masks:
  "output_masks [(7, True), (8, False)] 0 0 = Inr (0x180, 0x80)"
  "map_sum error_display id (output_masks [(7, True), (30, True)] 0 0) = Inl ''GPIO30 is out of range (0-29)''"
  by code_simp+

definition named_entries :: "string list \<Rightarrow> device_entry list" where
  "named_entries serials = map (\<lambda>(i, serial). \<lparr>de_path = ''/dev/hidraw'' @ show_nat i, de_serial = serial,
     de_manufacturer = ''yukke.org'', de_product = ''hidpin''\<rparr>) (enumerate 0 serials)"

lemma unit_choose_device:
  "map_sum id de_serial (choose_device (named_entries [''A'']) None) = Inr ''A''"
  "map_sum id de_serial (choose_device (named_entries [''A'', ''B'']) (Some ''B'')) = Inr ''B''"
  "map_sum error_display id (choose_device [] None) = Inl ''no hidpin device found''"
  "map_sum error_display id (choose_device (named_entries [''A'', ''B'']) (Some ''C'')) =
    Inl ''no hidpin device found: no device with serial number C''"
  "choose_device (named_entries [''A'', ''B'']) None = Inl (SeveralDevices [''A'', ''B''])"
  "error_display (SeveralDevices [''A'', ''B'']) = ''several devices are connected; pick one with --serial: A, B''"
  by code_simp+

lemma unit_error_messages_follow_the_specification:
  "error_display (ProtocolVersion 2) = ''device speaks protocol version 2, this library speaks 1''"
  "error_display (PinConfigRejected UNAVAILABLE_GPIO 23 True) =
    ''the pin configuration is invalid (nothing was sent to the device): the pin is not an available GPIO (GPIO23)''"
  "error_display (PinConfigRejected BAD_LENGTH RESULT_GPIO_NONE False) =
    ''the device rejected the pin configuration: the payload is not 63 bytes long''"
  "error_display (PinConfigConflict 17 42) =
    ''another process changed the pin configuration (sent request_id 17, read back 42)''"
  by code_simp+

lemma unit_usb_ids_come_from_the_environment:
  "usb_ids Map.empty = Inr (0x1209, 0x6870)"
  "usb_ids [''HIDPIN_PID'' \<mapsto> ''0x1234'', ''HIDPIN_VID'' \<mapsto> ''4660''] = Inr (4660, 0x1234)"
  "isl (usb_ids [''HIDPIN_PID'' \<mapsto> ''zz'']) \<and> isl (usb_ids [''HIDPIN_PID'' \<mapsto> ''-1''])"
  "isl (usb_ids [''HIDPIN_PID'' \<mapsto> ''0x10000''])"
proof -
  have trimmed: "trim [] = []" "trim ''0x1234'' = ''0x1234''" "trim ''4660'' = ''4660''" "trim ''zz'' = ''zz''"
    "trim ''-1'' = ''-1''" "trim ''0x10000'' = ''0x10000''"
    by (simp_all add: trim_plain plain_char_def)
  have ids: "parse_id ''0x1234'' = Some 4660" "parse_id ''4660'' = Some 4660" "parse_id ''zz'' = None"
    "parse_id ''-1'' = None" "parse_id ''0x10000'' = Some 65536"
    by (simp_all add: parse_id_def strip_prefix_def parse_radix_def digit_of_def)
  show "usb_ids Map.empty = Inr (0x1209, 0x6870)"
    "usb_ids [''HIDPIN_PID'' \<mapsto> ''0x1234'', ''HIDPIN_VID'' \<mapsto> ''4660''] = Inr (4660, 0x1234)"
    "isl (usb_ids [''HIDPIN_PID'' \<mapsto> ''zz'']) \<and> isl (usb_ids [''HIDPIN_PID'' \<mapsto> ''-1''])"
    "isl (usb_ids [''HIDPIN_PID'' \<mapsto> ''0x10000''])"
    using trimmed ids by (simp_all add: usb_ids_def env_id_def or_default_def Let_def DEFAULT_VENDOR_ID_def DEFAULT_PRODUCT_ID_def)
qed

section \<open>\<open>hidraw.rs\<close> and \<open>watch.rs\<close>\<close>

lemma unit_top_level_usage_of_descriptors:
  "map top_level_usage
     [[0x06, 0x00, 0xFF, 0x09, 0x01, 0xA1, 0x01, 0x85, 0x01], [0x05, 0x01, 0x09, 0x06, 0xA1, 0x01],
      [0x0B, 0x01, 0x00, 0x00, 0xFF, 0xA1, 0x01], [], [0x06, 0x00]] =
   [(0xFF00, 0x01), (0x01, 0x06), (0xFF00, 0x01), (0, 0), (0, 0)]"
  by code_simp

lemmas clock_rules = clock_add_def empty_clock_def closer_def since_def instant_at_def best_sample_def offset_def
  instant_add_def instant_checked_sub_def in_time_range_def time_limit_def CLOCK_WINDOW_def from_secs_def from_micros_def
  instant_order Let_def

text \<open>Samples of the clock, in nanoseconds from its start.\<close>

definition clock_of :: "(nat \<times> u64) list \<Rightarrow> device_clock" where
  "clock_of samples = fold (\<lambda>(host, device_us) c. clock_add c (Instant (int host)) device_us) samples empty_clock"

lemma unit_device_clock_uses_the_least_delayed_sample:
  "instant_at (clock_of [(5000000, 1000000), (1001000000, 2000000), (2030000000, 3000000)]) 2500000 =
    Some (Instant 1501000000)"
  by (simp add: clock_of_def clock_rules)

lemma unit_device_clock_forgets_old_samples:
  "instant_at (clock_of [(0, 0), (30010000000, 30000000), (60010000000, 60000000), (90010000000, 90000000)]) 90000000 =
    Some (Instant 90010000000)"
  by (simp add: clock_of_def clock_rules)

lemma unit_driven_outputs_are_new_or_changed_outputs:
  "driven_outputs
     (unused_config[1 := output_setting False, 2 := output_setting False, 3 := pull_up 20, 4 := output_setting True])
     (unused_config[1 := output_setting False, 2 := output_setting True, 3 := output_setting False, 4 := unused_setting]) = [2, 3]"
  by code_simp

lemma unit_output_reset_causes_describe_themselves:
  "map cause_description [Suspend, Reconnect, PinConfigWrite] =
    [''USB suspend or bus reset'', ''reconnected'', ''pin configuration written'']"
  by code_simp

end
