(* ===== verification/Spec2Isabelle.thy ===== *)
theory Spec2Isabelle
  imports Protocol_Theorems Device_Theorems Fake_Theorems Find_Theorems Watch_Behaviour Watch_Theorems Watch_World Linux_Watch
    Watch_Told Watch_Typing Watch_Handle
    Unit_Tests
begin

text \<open>
  The Rust library of hidpin, \<open>src/rust/src\<close>: programs on a host watch and set the GPIO pins of
  a USB board over HID reports.

  \<^bold>\<open>Parts and how they interact.\<close> \<open>protocol.rs\<close> is the wire format: four reports of fixed length
  and the rules for a pin configuration. \<open>transport.rs\<close> states what the library needs of a device
  node (\<open>Transport\<close>) and of a host (\<open>Bus\<close>). Two implementations exist: \<open>hidraw.rs\<close> with the first
  part of \<open>device.rs\<close> (\<open>SystemBus\<close>) on Linux, and the simulated boards of \<open>testing.rs\<close>.
  \<open>Device\<close> in \<open>device.rs\<close> sends and reads reports over a transport. The watcher of
  \<open>watch.rs\<close> runs a thread that owns a \<open>Device\<close>: it connects, keeps a target configuration, turns
  status reports into events, and shares two queues with the application under a lock, events
  one way and requests the other. \<open>error.rs\<close> is the error type of them all.

  \<^bold>\<open>Theories.\<close> Each theory names the file it models in its first lines; functions keep the names
  of the code, and where two parts have functions of one name a prefix tells them apart
  (\<open>hidraw_read\<close>, \<open>handle_read\<close>, \<open>read_raw\<close>).
  \<^item> \<open>Hidpin_Prelude\<close>, \<open>BTree\<close>: words, bytes, results, little endian; \<open>BTreeMap\<close> as an ordered
    list. \<open>Errors\<close>: \<open>error.rs\<close>. \<open>Codec\<close>: the contract of a report codec, a locale.
  \<^item> \<open>Protocol_Types\<close>, \<open>Protocol_Status\<close>, \<open>Protocol_Info\<close>, \<open>Protocol_Config\<close>, \<open>Protocol_Report\<close>:
    \<open>protocol.rs\<close>, in its order. Each report interprets \<open>codec\<close> where it is defined;
    \<open>Protocol_Theorems\<close> collects what follows.
  \<^item> \<open>Transport\<close>: \<open>transport.rs\<close> and time. The traits are the record \<open>env\<close> of functions over a
    world of any type, so that everything built on it holds for every environment.
  \<^item> \<open>Xorshift\<close>, \<open>Request_Ids\<close>, \<open>Device\<close>, \<open>Device_Theorems\<close>: \<open>Device\<close> of \<open>device.rs\<close> as the record
    \<open>device\<close>; an operation takes the device and the world and returns its result with both.
  \<^item> \<open>Hidraw\<close>, \<open>Device_Find\<close>, \<open>Find_Theorems\<close>: \<open>hidraw.rs\<close> and the first part of \<open>device.rs\<close>.
    The file system and the system calls are the parameters \<open>files\<close> and \<open>kernel\<close>.
  \<^item> \<open>Fake_Board\<close>, \<open>Fake_Bus\<close>: \<open>testing.rs\<close>. The world holds every board and handle ever made and
    the clock; \<open>fake_env\<close> is the \<open>env\<close> it gives. \<open>Fake_Levels\<close>, \<open>Fake_World\<close>, \<open>Fake_Theorems\<close>
    prove its invariant and interpret the contracts of the clients on it.
  \<^item> \<open>Watch_State\<close>, \<open>Watch_Clock\<close>, \<open>Watch_Loop\<close>, \<open>Watch_App\<close>: \<open>watch.rs\<close>. \<open>WatchLoop\<close> is the record
    \<open>watch_loop\<close>; its methods are functions from it and the world to an \<open>outcome\<close>: a value, a
    fatal error, a panic, or a read that never ends. \<open>turn\<close> is one iteration of \<open>main_loop\<close>,
    and \<open>sys_step\<close> interleaves turns with the calls of the application and with whatever the
    world does meanwhile.
  \<^item> \<open>Watch_Replay\<close>, \<open>Watch_Invariants\<close>, \<open>Watch_Absorb\<close>, \<open>Watch_Keeps\<close>, \<open>Watch_Turns\<close>: the invariant
    of the thread and the system, operation by operation; \<open>Watch_Theorems\<close> states what it gives
    the application, \<open>Watch_Behaviour\<close> what single operations do.
  \<^item> \<open>Watch_Frame\<close>, \<open>Watch_Timers\<close>, \<open>Watch_Pace\<close>: what the thread does to the world, its timers, and
    how often it writes the target back. \<open>Watch_World\<close> puts the watcher on the simulated boards
    and states what follows, \<open>Linux_Watch\<close> puts it on Linux.
  \<^item> \<open>Watch_Link\<close>, \<open>Watch_Learn\<close>, \<open>Watch_Mirror\<close>, \<open>Watch_Follow\<close>, \<open>Watch_Mirrored\<close>: that what the watcher
    knows is what the device is. A \<open>link\<close> is what an open handle sees of its device: its
    configuration, levels and last report number, the reports that wait, and whether a change was
    lost; \<open>moves\<close> says how it may change between two reads. \<open>synced\<close> relates the state of the
    thread to the link, and every operation keeps it. \<open>Fake_Link\<close> shows that the simulated boards
    move like this, and \<open>Watch_View\<close> what that means for the application.
  \<^item> \<open>Watch_Returns\<close>: no turn hangs or changes the settings. \<open>Watch_Connects\<close>: the first turn
    connects. \<open>Watch_Told\<close>: the turn after a change of an input tells it, and the queues of a connected
    thread drain. \<open>Watch_Typing\<close>: states and events are well-typed, by one rule for each way of
    composing operations. \<open>Watch_Handle\<close>: the calls of \<open>Watcher\<close> that start, wait and close, and
    platforms without a backend.
  \<^item> \<open>Test_Vectors\<close>, \<open>Unit_Tests\<close>: the repository's own test vectors, \<open>protocol/vectors.json\<close>, and the
    tests of the library that need no device, evaluated on the model: a check of the definitions
    against what the authors expect of the code, beside the properties.

  \<^bold>\<open>Interfaces.\<close> \<open>codec\<close> gives the round trips of the four reports. \<open>host\<close> is what the watcher
  relies on: clocks within \<open>horizon\<close> and reads that stay in their buffer. \<open>config_port\<close> is what a
  device that follows the protocol promises to a writer of configurations. \<open>port\<close> is what a call
  other than a read may do to the world, \<open>frame\<close> adds reads, \<open>paced\<close> a clock that never runs
  backwards, and \<open>linked\<close> adds to \<open>port\<close> what a handle sees of its device. The simulated boards
  satisfy them all, so every theorem over them holds of the code's own boards.

  \<^bold>\<open>What is shown.\<close> Wire format: encoders and decoders are inverse on exactly the payloads they
  accept, and validation decides exactly the rules. Device: a write is reported as done only when
  the device confirmed this very write, errors say what happened, ids are fresh, lost reports
  are counted. Boards: the invariant of all boards and handles under every sequence of
  operations, no panics, and what inputs, outputs and writes do. Watcher: in every reachable state
  no panic happened, events are in order and complete, changes are changes of what was told
  before, every request is answered once, the end is final, a scan is scheduled whenever no device
  is there, and the target is written back at most once a second; every event is well-typed, no
  turn hangs, closing ends the thread; single operations agree with
  descriptions that do not follow the code. Watcher on boards: the first turn connects to the board
  that is named, and once the reports are read, what the application has been told of each
  monitored pin is the ON/OFF of its input now; a change of an input is told by the next turn.
  Finding: the list of devices is exactly the wanted nodes, the
  descriptor parser agrees with the item grammar, ids and ioctl numbers are exact.

  \<^bold>\<open>Machine integers, time and termination.\<close> Integers keep their width. Arithmetic that can wrap does
  so as in a release build. \<open>Duration\<close> is a natural number of nanoseconds, \<open>Instant\<close> an integer;
  their sums panic outside the range of \<open>time_limit\<close>, \<open>2 ^ 63\<close> seconds. \<open>horizon\<close>, \<open>2 ^ 61\<close>
  seconds, bounds the clocks and the scan interval, so that the few sums taken of them stay in
  range; \<open>long_interval_crashes\<close> shows what happens to the code without the bound on the
  interval. There is no fuel in the model except for \<open>trim\<close>, where the length of the text bounds
  the characters removed. The descriptor parser ends because it moves on, and the loop that
  draws request ids because the generator has the full period \<open>2 ^ 64 - 1\<close>, which \<open>Xorshift\<close>
  proves.

  \<^bold>\<open>When the view is right.\<close> \<open>view_of_board\<close> and \<open>input_told\<close> assume that no handle's queue is full and
  that no report number is skipped, \<open>view_of_board\<close> also that the board lost no change it has not
  yet reported. Without the first
  two a report may be missed, and the code, which reads the configuration again only on a report
  with CONFIG_CHANGED, then knows levels from the next report but may keep an old configuration;
  the count of missed reports tells the application so. A status asked for after a write
  whose CONFIG_CHANGED is late supersedes nothing until the next report, so some pins may be
  unknown meanwhile; the theorem then speaks of the known ones.

  \<^bold>\<open>Not modelled.\<close> A turn of the thread is one step: it takes the lock at its start and, when it
  waits or ends the thread, once more, and touches only its own state and the device between. A
  request queued in between by the application is answered as one queued before or after it. In \<open>sys_step\<close>
  a call that waits is a step that is not taken yet; \<open>Watch_Handle\<close> models the waiting itself, as
  the wakes of the condition variable a call sees. Poisoned locks are left out. A panic ends the
  thread with what was in its hands. Strings are bytes; names of files that are not UTF-8
  are left out, as are derived traits, \<open>lib.rs\<close> (declarations only), the examples, and the tests
  that run a device or a watcher. The firmware, the Go and Python libraries and the command line tool are
  other programs over the same protocol.
\<close>

end
